(* ===== verification/Prelude.thy ===== *)
theory Prelude
  imports Main "HOL-Library.Word" "HOL-Library.Finite_Map" "HOL-Library.Monad_Syntax"
begin

text \<open>
  Shared vocabulary of the development: the machine integer types of the code, the arithmetic
  operators as the development profile of Rust executes them (an overflow, an underflow, a
  division by zero or an over-long shift panics), byte orders, and generic lemmas.

  A computation that can panic has an \<open>option\<close> result, \<open>None\<close> being the panic; a Rust
  \<open>Result\<close> is a sum (\<open>Inl\<close> the error) inside it.
\<close>

unbundle bit_operations_syntax

type_synonym u8 = "8 word"
type_synonym u32 = "32 word"
type_synonym u64 = "64 word"
type_synonym u128 = "128 word"
type_synonym u256 = "256 word"

named_theorems checked_simps "when a checked operator panics, and its value when it does not"
named_theorems bytes_simps "lengths and inverses of the byte-order conversions"

lemma bind_Some_iff [simp]:
  "Option.bind m f = Some y \<longleftrightarrow> (\<exists>x. m = Some x \<and> f x = Some y)"
  by (cases m) auto

lemmas option_bind_cong [fundef_cong] = Option.bind_cong

section \<open>Checked arithmetic\<close>

definition checked_add :: "'a::len word \<Rightarrow> 'a word \<Rightarrow> 'a word option" where
  "checked_add a b = (if unat a + unat b < 2 ^ LENGTH('a) then Some (a + b) else None)"

definition checked_sub :: "'a::len word \<Rightarrow> 'a word \<Rightarrow> 'a word option" where
  "checked_sub a b = (if b \<le> a then Some (a - b) else None)"

definition checked_mul :: "'a::len word \<Rightarrow> 'a word \<Rightarrow> 'a word option" where
  "checked_mul a b = (if unat a * unat b < 2 ^ LENGTH('a) then Some (a * b) else None)"

definition checked_div :: "'a::len word \<Rightarrow> 'a word \<Rightarrow> 'a word option" where
  "checked_div a b = (if b = 0 then None else Some (a div b))"

definition checked_rem :: "'a::len word \<Rightarrow> 'a word \<Rightarrow> 'a word option" where
  "checked_rem a b = (if b = 0 then None else Some (a mod b))"

text \<open>\<open>a >> n\<close>: a shift by the width or more is an overflow, so it panics.\<close>

definition checked_shr :: "'a::len word \<Rightarrow> 'b::len word \<Rightarrow> 'a word option" where
  "checked_shr a n = (if unat n < LENGTH('a) then Some (drop_bit (unat n) a) else None)"

text \<open>\<open>iter().sum()\<close>: a left fold of \<open>+\<close> from 0, each step checked.\<close>

fun sum_from :: "'a::len word \<Rightarrow> 'a word list \<Rightarrow> 'a word option" where
  "sum_from acc [] = Some acc"
| "sum_from acc (x # xs) = do { acc' \<leftarrow> checked_add acc x; sum_from acc' xs }"

definition checked_sum :: "'a::len word list \<Rightarrow> 'a word option" where
  "checked_sum xs = sum_from 0 xs"

text \<open>\<open>saturating_mul\<close> of the unsigned integers.\<close>

definition saturating_mul :: "'a::len word \<Rightarrow> 'a word \<Rightarrow> 'a word" where
  "saturating_mul a b = (if unat a * unat b < 2 ^ LENGTH('a) then a * b else - 1)"

subsection \<open>What the checked operators compute\<close>

lemma unat_bound [simp]: "unat (a :: 'a::len word) < 2 ^ LENGTH('a)"
  by (rule unsigned_less)

lemma unat_of_nat_small: "n < 2 ^ LENGTH('a) \<Longrightarrow> unat (of_nat n :: 'a::len word) = n"
  by (simp add: unsigned_of_nat take_bit_nat_eq_self)

lemma unat_max: "unat (- 1 :: 'a::len word) = 2 ^ LENGTH('a) - 1"
  by (simp add: unsigned_minus_1_eq_mask mask_eq_exp_minus_1)

lemma unat_add_no_overflow:
  "unat a + unat b < 2 ^ LENGTH('a) \<Longrightarrow> unat (a + b :: 'a::len word) = unat a + unat b"
  by (simp add: unat_word_ariths)

lemma unat_mul_no_overflow:
  "unat a * unat b < 2 ^ LENGTH('a) \<Longrightarrow> unat (a * b :: 'a::len word) = unat a * unat b"
  by (simp add: unat_word_ariths)

lemma checked_add_Some [checked_simps]:
  "checked_add a b = Some c \<longleftrightarrow> unat (c :: 'a::len word) = unat a + unat b"
proof
  assume "checked_add a b = Some c"
  then show "unat c = unat a + unat b"
    by (auto simp: checked_add_def unat_add_no_overflow split: if_splits)
next
  assume c: "unat c = unat a + unat b"
  then have lt: "unat a + unat b < 2 ^ LENGTH('a)" using unat_bound [of c] by simp
  then have "unat (a + b) = unat c" using c by (simp add: unat_add_no_overflow)
  then show "checked_add a b = Some c" using lt by (simp add: checked_add_def word_unat_eq_iff)
qed

lemma checked_sub_Some [checked_simps]:
  "checked_sub a b = Some c \<longleftrightarrow> unat (a :: 'a::len word) = unat b + unat c"
proof
  assume "checked_sub a b = Some c"
  then show "unat a = unat b + unat c"
    by (auto simp: checked_sub_def unat_sub word_le_nat_alt split: if_splits)
next
  assume a: "unat a = unat b + unat c"
  then have "b \<le> a" by (simp add: word_le_nat_alt)
  moreover from this a have "unat (a - b) = unat c" by (simp add: unat_sub)
  ultimately show "checked_sub a b = Some c" by (simp add: checked_sub_def word_unat_eq_iff)
qed

lemma checked_sub_None [checked_simps]: "checked_sub a b = None \<longleftrightarrow> a < b"
  by (auto simp: checked_sub_def not_le)

lemma checked_mul_Some [checked_simps]:
  "checked_mul a b = Some c \<longleftrightarrow> unat (c :: 'a::len word) = unat a * unat b"
proof
  assume "checked_mul a b = Some c"
  then show "unat c = unat a * unat b"
    by (auto simp: checked_mul_def unat_mul_no_overflow split: if_splits)
next
  assume c: "unat c = unat a * unat b"
  then have lt: "unat a * unat b < 2 ^ LENGTH('a)" using unat_bound [of c] by simp
  then have "unat (a * b) = unat c" using c by (simp add: unat_mul_no_overflow)
  then show "checked_mul a b = Some c" using lt by (simp add: checked_mul_def word_unat_eq_iff)
qed

lemma checked_div_Some [checked_simps]: "checked_div a b = Some c \<longleftrightarrow> b \<noteq> 0 \<and> c = a div b"
  by (auto simp: checked_div_def)

lemma checked_rem_Some [checked_simps]: "checked_rem a b = Some c \<longleftrightarrow> b \<noteq> 0 \<and> c = a mod b"
  by (auto simp: checked_rem_def)

lemma checked_shr_Some [checked_simps]:
  "checked_shr (a :: 'a::len word) n = Some c \<longleftrightarrow> unat n < LENGTH('a) \<and> c = drop_bit (unat n) a"
  by (auto simp: checked_shr_def)

lemma sum_from_Some:
  "sum_from acc xs = Some c \<longleftrightarrow>
    unat (c :: 'a::len word) = unat acc + sum_list (map unat xs)"
proof (induction xs arbitrary: acc)
  case Nil
  then show ?case by (auto simp: word_unat_eq_iff)
next
  case (Cons x xs)
  show ?case
  proof
    assume "sum_from acc (x # xs) = Some c"
    then show "unat c = unat acc + sum_list (map unat (x # xs))"
      by (auto simp: checked_add_Some Cons.IH)
  next
    assume c: "unat c = unat acc + sum_list (map unat (x # xs))"
    then have "unat acc + unat x < 2 ^ LENGTH('a)" using unat_bound [of c] by simp
    then have "checked_add acc x = Some (acc + x)"
      and "unat (acc + x) = unat acc + unat x"
      by (simp_all add: checked_add_def unat_add_no_overflow)
    then show "sum_from acc (x # xs) = Some c" using c by (simp add: Cons.IH)
  qed
qed

lemma checked_sum_Some [checked_simps]:
  "checked_sum xs = Some c \<longleftrightarrow> unat (c :: 'a::len word) = sum_list (map unat xs)"
  by (simp add: checked_sum_def sum_from_Some)

lemma checked_sum_None [checked_simps]:
  "checked_sum (xs :: 'a::len word list) = None \<longleftrightarrow> 2 ^ LENGTH('a) \<le> sum_list (map unat xs)"
proof
  assume none: "checked_sum xs = None"
  show "2 ^ LENGTH('a) \<le> sum_list (map unat xs)"
  proof (rule ccontr)
    assume "\<not> 2 ^ LENGTH('a) \<le> sum_list (map unat xs)"
    then have "unat (of_nat (sum_list (map unat xs)) :: 'a word) = sum_list (map unat xs)"
      by (simp add: unat_of_nat_small)
    then have "checked_sum xs = Some (of_nat (sum_list (map unat xs)))"
      by (simp add: checked_sum_Some)
    with none show False by simp
  qed
next
  assume big: "2 ^ LENGTH('a) \<le> sum_list (map unat xs)"
  show "checked_sum xs = None"
  proof (cases "checked_sum xs")
    case (Some c)
    then show ?thesis using big unat_bound [of c] by (simp add: checked_sum_Some)
  qed
qed

lemma unat_saturating_mul:
  "unat (saturating_mul a b :: 'a::len word) = min (unat a * unat b) (2 ^ LENGTH('a) - 1)"
proof (cases "unat a * unat b < 2 ^ LENGTH('a)")
  case True
  then have "unat a * unat b \<le> 2 ^ LENGTH('a) - 1" by linarith
  with True show ?thesis by (simp add: saturating_mul_def unat_mul_no_overflow min_absorb1)
next
  case False
  then have "2 ^ LENGTH('a) - 1 \<le> unat a * unat b" by linarith
  with False show ?thesis by (simp add: saturating_mul_def unat_max min_absorb2)
qed

section \<open>Byte orders\<close>

definition to_le_bytes :: "nat \<Rightarrow> 'a::len word \<Rightarrow> u8 list" where
  "to_le_bytes n w = map (\<lambda>i. ucast (drop_bit (8 * i) w)) [0..<n]"

definition to_be_bytes :: "nat \<Rightarrow> 'a::len word \<Rightarrow> u8 list" where
  "to_be_bytes n w = rev (to_le_bytes n w)"

fun le_value :: "u8 list \<Rightarrow> nat" where
  "le_value [] = 0"
| "le_value (b # bs) = unat b + 256 * le_value bs"

definition from_le_bytes :: "u8 list \<Rightarrow> 'a::len word" where
  "from_le_bytes bs = of_nat (le_value bs)"

definition from_be_bytes :: "u8 list \<Rightarrow> 'a::len word" where
  "from_be_bytes bs = from_le_bytes (rev bs)"

lemma length_to_bytes [bytes_simps, simp]:
  "length (to_le_bytes n w) = n" "length (to_be_bytes n w) = n"
  by (simp_all add: to_le_bytes_def to_be_bytes_def)

lemma le_value_bound: "le_value bs < 256 ^ length bs"
proof (induction bs)
  case Nil
  then show ?case by simp
next
  case (Cons b bs)
  have "unat b < 256" using unat_bound [of b] by simp
  with Cons show ?case by simp
qed

lemma to_le_bytes_Suc:
  "to_le_bytes (Suc n) w = ucast w # to_le_bytes n (drop_bit 8 w)"
  by (simp add: to_le_bytes_def upt_conv_Cons map_Suc_upt [symmetric] del: upt_Suc)
     (simp add: algebra_simps)

lemma le_value_to_le_bytes: "le_value (to_le_bytes n w) = unat w mod 256 ^ n"
proof (induction n arbitrary: w)
  case 0
  then show ?case by (simp add: to_le_bytes_def)
next
  case (Suc n)
  have low: "unat (ucast w :: u8) = unat w mod 256"
    by (simp add: unsigned_ucast_eq take_bit_eq_mod)
  have high: "unat (drop_bit 8 w) = unat w div 256"
    using unat_drop_bit_eq [of 8 w] by (simp add: drop_bit_eq_div)
  show ?case
    by (simp add: to_le_bytes_Suc Suc low high mod_mult2_eq)
qed

lemma from_to_le_bytes [bytes_simps]:
  assumes "LENGTH('a) \<le> 8 * n"
  shows "from_le_bytes (to_le_bytes n w) = (w :: 'a::len word)"
proof -
  have "(2::nat) ^ LENGTH('a) \<le> 2 ^ (8 * n)" using assms by (intro power_increasing) auto
  also have "(2::nat) ^ (8 * n) = 256 ^ n" by (simp add: power_mult)
  finally have "unat w mod 256 ^ n = unat w"
    using unat_bound [of w] by (intro mod_less) linarith
  then show ?thesis by (simp add: from_le_bytes_def le_value_to_le_bytes)
qed

lemma from_to_be_bytes [bytes_simps]:
  "LENGTH('a) \<le> 8 * n \<Longrightarrow> from_be_bytes (to_be_bytes n w) = (w :: 'a::len word)"
  by (simp add: from_be_bytes_def to_be_bytes_def from_to_le_bytes)

lemma map_sum_Inr: "map_sum f g x = Inr y \<longleftrightarrow> (\<exists>z. x = Inr z \<and> y = g z)"
  by (cases x) auto

section \<open>Finite maps\<close>

lemma fcard_fmdom_drop:
  "fmlookup m k = Some v \<Longrightarrow> fcard (fmdom (fmdrop k m)) < fcard (fmdom m)"
proof -
  assume "fmlookup m k = Some v"
  then have "k |\<in>| fmdom m" by (rule fmdomI)
  then have "fset (fmdom (fmdrop k m)) \<subset> fset (fmdom m)" by auto
  then show ?thesis by (simp add: fcard.rep_eq psubset_card_mono)
qed

end
