(* ===== verification/Util.thy ===== *)
theory Util
  imports Prelude
begin

text \<open>
  Model of \<open>src/src/util.rs\<close> without the difficulty adjustment (which needs the configuration and
  is in theory Config): hexadecimal text, hashes, the difficulty target and its test. A \<open>&str\<close> is the
  list of its bytes; the three panics of \<open>hex_to_bytes\<close> are values of \<open>hex_panic\<close>.
\<close>

section \<open>Hexadecimal text\<close>

datatype hex_panic = NonHexCharacter | NonAsciiCharacters | InvalidLength

definition ascii_to_num :: "u8 \<Rightarrow> hex_panic + u8" where
  "ascii_to_num c =
     (if 48 \<le> c \<and> c \<le> 57 then Inr (c - 48)
      else if 97 \<le> c \<and> c \<le> 102 then Inr (c - 97 + 10)
      else if 65 \<le> c \<and> c \<le> 70 then Inr (c - 65 + 10)
      else Inl NonHexCharacter)"

definition is_ascii :: "u8 list \<Rightarrow> bool" where
  "is_ascii s \<longleftrightarrow> list_all (\<lambda>c. c < 128) s"

function hex_loop :: "nat \<Rightarrow> u8 list \<Rightarrow> nat \<Rightarrow> u8 list \<Rightarrow> hex_panic + u8 list" where
  "hex_loop n s i bytes =
     (if n \<le> i then Inr bytes
      else case ascii_to_num (s ! (i * 2)) of
        Inl e \<Rightarrow> Inl e
      | Inr high \<Rightarrow>
          (case ascii_to_num (s ! (i * 2 + 1)) of
             Inl e \<Rightarrow> Inl e
           | Inr low \<Rightarrow> hex_loop n s (i + 1) (bytes[i := push_bit 4 high OR low])))"
  by pat_completeness auto
termination by (relation "measure (\<lambda>(n, s, i, bytes). n - i)") auto

declare hex_loop.simps [simp del]

definition hex_to_bytes :: "nat \<Rightarrow> u8 list \<Rightarrow> hex_panic + u8 list" where
  "hex_to_bytes n s =
     (if \<not> is_ascii s then Inl NonAsciiCharacters
      else if length s \<noteq> n * 2 then Inl InvalidLength
      else hex_loop n s 0 (replicate n 0))"

text \<open>The format directive \<open>{:02x}\<close> of one byte: two lower-case digits.\<close>

definition hex_digit :: "u8 \<Rightarrow> u8" where
  "hex_digit d = (if d < 10 then 48 + d else 97 + (d - 10))"

fun fmt_hex :: "u8 list \<Rightarrow> u8 list" where
  "fmt_hex [] = []"
| "fmt_hex (b # bs) = hex_digit (drop_bit 4 b) # hex_digit (take_bit 4 b) # fmt_hex bs"

subsection \<open>One byte\<close>

lemma nibble_cases:
  assumes "(d :: u8) < 16"
  shows "d \<in> {0, 1, 2, 3, 4, 5, 6, 7, 8, 9, 10, 11, 12, 13, 14, 15}"
proof -
  have "unat d < 16" using assms by (simp add: word_less_nat_alt)
  then have "unat d \<in> {0, 1, 2, 3, 4, 5, 6, 7, 8, 9, 10, 11, 12, 13, 14, 15}"
    by (simp add: numeral_eq_Suc less_Suc_eq)
  then have "(of_nat (unat d) :: u8) \<in> of_nat ` {0, 1, 2, 3, 4, 5, 6, 7, 8, 9, 10, 11, 12, 13, 14, 15 :: nat}"
    by (rule imageI)
  then show ?thesis by simp
qed

lemma nibble_ball:
  "(\<forall>d \<in> {0, 1, 2, 3, 4, 5, 6, 7, 8, 9, 10, 11, 12, 13, 14, 15}. P d) \<Longrightarrow> (d :: u8) < 16 \<Longrightarrow> P d"
  by (drule nibble_cases) (rule bspec)

lemma ascii_to_num_hex_digit: "d < 16 \<Longrightarrow> ascii_to_num (hex_digit d) = Inr d"
  by (rule nibble_ball) (simp_all add: ascii_to_num_def hex_digit_def)

lemma nibble_bounds: "drop_bit 4 (b :: u8) < 16" "take_bit 4 (b :: u8) < 16"
proof -
  have "unat b < 256" using unat_bound [of b] by simp
  then show "drop_bit 4 b < 16"
    using unat_drop_bit_eq [of 4 b] by (simp add: word_less_nat_alt drop_bit_eq_div)
  have "unat (take_bit 4 b) = unat b mod 16"
    using unsigned_take_bit_eq [of 4 b] by (simp only: take_bit_eq_mod) simp
  then show "take_bit 4 b < 16" by (simp add: word_less_nat_alt)
qed

lemma join_nibbles: "push_bit n (drop_bit n b) OR take_bit n b = (b :: 'a::len word)"
  by (rule bit_eqI) (auto simp: bit_simps)

lemma length_fmt_hex [simp]: "length (fmt_hex bs) = 2 * length bs"
  by (induction bs) auto

lemma hex_digit_ascii: "d < 16 \<Longrightarrow> hex_digit d < 128"
  by (rule nibble_ball) (simp_all add: hex_digit_def)

lemma is_ascii_fmt_hex [simp]: "is_ascii (fmt_hex bs)"
  by (induction bs) (auto simp: is_ascii_def hex_digit_ascii nibble_bounds)

lemma fmt_hex_nth:
  "i < length bs \<Longrightarrow>
     fmt_hex bs ! (i * 2) = hex_digit (drop_bit 4 (bs ! i)) \<and>
     fmt_hex bs ! (i * 2 + 1) = hex_digit (take_bit 4 (bs ! i))"
proof (induction bs arbitrary: i)
  case Nil
  then show ?case by simp
next
  case (Cons b bs)
  then show ?case by (cases i) auto
qed

subsection \<open>The loop of \<open>hex_to_bytes\<close>\<close>

lemma hex_loop_fmt_hex:
  "length bytes = length bs \<Longrightarrow> i \<le> length bs \<Longrightarrow> take i bytes = take i bs \<Longrightarrow>
     hex_loop (length bs) (fmt_hex bs) i bytes = Inr bs"
proof (induction "length bs" "fmt_hex bs" i bytes rule: hex_loop.induct)
  case (1 i bytes)
  show ?case
  proof (cases "length bs \<le> i")
    case True
    with 1 show ?thesis by (simp add: hex_loop.simps)
  next
    case False
    then have i: "i < length bs" by simp
    have high: "ascii_to_num (fmt_hex bs ! (i * 2)) = Inr (drop_bit 4 (bs ! i))"
      and low: "ascii_to_num (fmt_hex bs ! (i * 2 + 1)) = Inr (take_bit 4 (bs ! i))"
      using fmt_hex_nth [OF i] by (simp_all add: ascii_to_num_hex_digit nibble_bounds)
    have "take (i + 1) (bytes[i := bs ! i]) = take (i + 1) bs"
      using i 1(2,4) by (simp add: take_Suc_conv_app_nth)
    with 1(1) [OF False high low] 1(2) i
    have "hex_loop (length bs) (fmt_hex bs) (i + 1) (bytes[i := bs ! i]) = Inr bs"
      by (simp add: join_nibbles)
    then show ?thesis
      using False high low by (simp add: hex_loop.simps [of _ _ i] join_nibbles)
  qed
qed

lemma hex_loop_length:
  "hex_loop n s i bytes = Inr bs \<Longrightarrow> length bs = length bytes"
  by (induction n s i bytes rule: hex_loop.induct)
     (subst (asm) hex_loop.simps, auto split: if_splits sum.splits)

lemma hex_loop_Inl:
  "hex_loop n s i bytes = Inl e \<longleftrightarrow>
     e = NonHexCharacter \<and>
     (\<exists>j. i \<le> j \<and> j < n \<and> (\<exists>k \<in> {j * 2, j * 2 + 1}. ascii_to_num (s ! k) = Inl NonHexCharacter))"
proof (induction n s i bytes rule: hex_loop.induct)
  case (1 n s i bytes)
  have only: "ascii_to_num c = Inl e \<Longrightarrow> e = NonHexCharacter" for c e
    by (auto simp: ascii_to_num_def split: if_splits)
  show ?case
  proof (cases "n \<le> i")
    case True
    then show ?thesis by (auto simp: hex_loop.simps)
  next
    case False
    note step = hex_loop.simps [of n s i bytes]
    have split_j: "(\<exists>j\<ge>i. j < n \<and> P j) \<longleftrightarrow> P i \<or> (\<exists>j\<ge>i + 1. j < n \<and> P j)" for P
      using False by (metis Suc_eq_plus1 le_eq_less_or_eq linorder_not_le not_less_eq_eq)
    show ?thesis
    proof (cases "ascii_to_num (s ! (i * 2))")
      case (Inl a)
      then show ?thesis using False only [OF Inl] by (auto simp: step)
    next
      case high: (Inr h)
      show ?thesis
      proof (cases "ascii_to_num (s ! (i * 2 + 1))")
        case (Inl a)
        then show ?thesis using False high only [OF Inl] by (auto simp: step)
      next
        case low: (Inr l)
        then show ?thesis
          using False high 1 [OF False high low]
          by (subst split_j) (simp add: step)
      qed
    qed
  qed
qed

lemma hex_to_bytes_fmt_hex: "hex_to_bytes (length bs) (fmt_hex bs) = Inr bs"
  by (simp add: hex_to_bytes_def hex_loop_fmt_hex)

section \<open>Hashes and the difficulty target\<close>

datatype Sha256Hash = Sha256Hash (hash_bytes: "u8 list")

type_synonym BlockId = Sha256Hash
type_synonym TransactionId = Sha256Hash
type_synonym Timestamp = u128
type_synonym SequenceNo = u64

datatype Difficulty = Difficulty (target: u256)

definition is_met :: "Difficulty \<Rightarrow> u8 list \<Rightarrow> bool" where
  "is_met d hash \<longleftrightarrow> from_le_bytes hash < target d"

text \<open>\<open>Difficulty\<close> derives \<open>PartialOrd\<close> and \<open>Ord\<close>: the order of the wrapped integer.\<close>

instantiation Difficulty :: linorder
begin

definition less_eq_Difficulty :: "Difficulty \<Rightarrow> Difficulty \<Rightarrow> bool" where
  "less_eq_Difficulty a b \<longleftrightarrow> target a \<le> target b"

definition less_Difficulty :: "Difficulty \<Rightarrow> Difficulty \<Rightarrow> bool" where
  "less_Difficulty a b \<longleftrightarrow> target a < target b"

instance
  by standard (auto simp: less_eq_Difficulty_def less_Difficulty_def Difficulty.expand)

end

lemma is_met_mono: "d \<le> d' \<Longrightarrow> is_met d h \<Longrightarrow> is_met d' h"
  by (auto simp: is_met_def less_eq_Difficulty_def)

end
