(* ===== verification/Config.thy ===== *)
theory Config
  imports Util
begin

text \<open>
  Model of the data of \<open>src/src/config.rs\<close> (the configuration record, its default and its testing
  values) and of the difficulty adjustment of \<open>src/src/util.rs\<close>, which reads the configuration.
  Starting a node (\<open>Config::run\<close> and its variants) is theory Startup.
\<close>

section \<open>Configuration\<close>

text \<open>\<open>std::time::Duration\<close>: whole seconds and nanoseconds below one second.\<close>

record duration =
  secs :: u64
  nanos :: u32

definition as_nanos :: "duration \<Rightarrow> u128" where
  "as_nanos d = ucast (secs d) * 1000000000 + ucast (nanos d)"

definition from_secs :: "u64 \<Rightarrow> duration" where
  "from_secs s = \<lparr>secs = s, nanos = 0\<rparr>"

definition from_millis :: "u64 \<Rightarrow> duration" where
  "from_millis m = \<lparr>secs = m div 1000, nanos = ucast (m mod 1000) * 1000000\<rparr>"

record Config =
  initial_block_subsidy :: u64
  block_subsidy_half_period :: u64
  difficulty_adjustment_period :: u64
  average_block_time :: duration
  block_txn_limit :: u64
  genesis_difficulty :: Difficulty
  genesis_timestamp :: Timestamp
  alpn :: "u8 list"

definition default_config :: Config where
  "default_config =
     \<lparr>initial_block_subsidy = push_bit 60 1,
      block_subsidy_half_period = 210000,
      difficulty_adjustment_period = 2016,
      average_block_time = from_secs (60 * 10),
      block_txn_limit = 20,
      genesis_difficulty = Difficulty (ucast (- 1 :: u128)),
      genesis_timestamp = as_nanos (from_secs 1737615026),
      alpn = [100, 100, 99, 111, 105, 110, 47, 49, 46, 48]\<rparr>"

text \<open>\<open>U256::from_words(hi, lo)\<close>: the two halves, the high one first.\<close>

definition u256_from_words :: "u128 \<Rightarrow> u128 \<Rightarrow> u256" where
  "u256_from_words hi lo = push_bit 128 (ucast hi) OR ucast lo"

definition INCOMPLETE_TESTING_CONFIG :: Config where
  "INCOMPLETE_TESTING_CONFIG =
     \<lparr>initial_block_subsidy = push_bit 60 1,
      block_subsidy_half_period = 40,
      difficulty_adjustment_period = 10,
      average_block_time = from_millis 10,
      block_txn_limit = 20,
      genesis_difficulty = Difficulty (u256_from_words (drop_bit 1 (- 1)) (- 1)),
      genesis_timestamp = as_nanos (from_secs 1737615026),
      alpn = []\<rparr>"

definition with_testing_alpn :: "Timestamp \<Rightarrow> u8 list \<Rightarrow> Config" where
  "with_testing_alpn now a =
     INCOMPLETE_TESTING_CONFIG\<lparr>alpn := a, genesis_timestamp := now\<rparr>"

section \<open>Difficulty adjustment\<close>

text \<open>
  \<open>Difficulty::adjust_with_actual_span\<close>. The product of the block time and the period is taken in
  128 bits and panics if it overflows; the division of the last branch panics on a zero span.
\<close>

definition adjust_with_actual_span :: "Difficulty \<Rightarrow> Timestamp \<Rightarrow> Config \<Rightarrow> Difficulty option" where
  "adjust_with_actual_span d actual_time config = do {
     span \<leftarrow> checked_mul (as_nanos (average_block_time config))
                         (ucast (difficulty_adjustment_period config));
     let expected = (ucast span :: u256);
     let actual = (ucast actual_time :: u256);
     upper \<leftarrow> checked_mul expected 4;
     if actual > upper then Some (Difficulty (saturating_mul (target d) 4))
     else if actual < expected div 4 then Some (Difficulty (max (target d div 4) 1))
     else do {
       q \<leftarrow> checked_div (target d) expected;
       Some (Difficulty (saturating_mul (max q 1) actual)) } }"

text \<open>The expected span of one adjustment period, as a number.\<close>

definition expected_span :: "Config \<Rightarrow> nat" where
  "expected_span config =
     unat (as_nanos (average_block_time config)) * unat (difficulty_adjustment_period config)"

definition span_ok :: "Config \<Rightarrow> bool" where
  "span_ok config \<longleftrightarrow> 0 < expected_span config \<and> expected_span config < 2 ^ 128"

lemma unat_ucast_128_256: "unat (ucast (x :: u128) :: u256) = unat x"
  using unat_bound [of x]
  by (simp add: unsigned_ucast_eq take_bit_nat_eq_self del: unat_bound)

lemma unat_ucast_64_128: "unat (ucast (x :: u64) :: u128) = unat x"
  using unat_bound [of x]
  by (simp add: unsigned_ucast_eq take_bit_nat_eq_self del: unat_bound)

text \<open>
  The adjustment on numbers: a span above four times the expected one multiplies the target by
  four, a span below a quarter divides it by four, any other scales it in proportion, and the
  result stays below the largest 256-bit number.
\<close>

definition adjusted_target :: "nat \<Rightarrow> nat \<Rightarrow> nat \<Rightarrow> nat" where
  "adjusted_target expected t actual =
     (if actual > expected * 4 then min (t * 4) (2 ^ 256 - 1)
      else if actual < expected div 4 then max (t div 4) 1
      else min (max (t div expected) 1 * actual) (2 ^ 256 - 1))"

lemma unat_max_word: "unat (max a b :: 'a::len word) = max (unat a) (unat b)"
  by (simp add: max_def word_le_nat_alt)

lemma adjust_span_product:
  "span_ok config \<Longrightarrow>
     \<exists>span. checked_mul (as_nanos (average_block_time config))
        (ucast (difficulty_adjustment_period config)) = Some span \<and> unat span = expected_span config"
  by (auto simp: checked_mul_def span_ok_def expected_span_def unat_ucast_64_128 unat_mul_no_overflow)

lemma adjust_with_actual_span_spec:
  assumes "span_ok config"
  shows "\<exists>d'. adjust_with_actual_span d actual config = Some d' \<and>
    unat (target d') = adjusted_target (expected_span config) (unat (target d)) (unat actual)"
proof -
  let ?E = "expected_span config"
  obtain span where span: "checked_mul (as_nanos (average_block_time config))
        (ucast (difficulty_adjustment_period config)) = Some span" "unat span = ?E"
    using adjust_span_product [OF assms] by blast
  let ?e = "ucast span :: u256" and ?a = "ucast actual :: u256"
  have e: "unat ?e = ?E" and a: "unat ?a = unat actual"
    using span(2) by (simp_all add: unat_ucast_128_256)
  have E: "0 < ?E" "?E < 2 ^ 128" using assms by (simp_all add: span_ok_def)
  then have "?E * 4 < 2 ^ 256" by simp
  then have up: "checked_mul ?e 4 = Some (?e * 4)" "unat (?e * 4) = ?E * 4"
    using e by (simp_all add: checked_mul_def unat_mul_no_overflow)
  have quarter: "unat (?e div 4) = ?E div 4" using e by (simp add: unat_div)
  have "?e \<noteq> 0" using e E by auto
  then have q: "checked_div (target d) ?e = Some (target d div ?e)"
    "unat (target d div ?e) = unat (target d) div ?E"
    using e by (simp_all add: checked_div_def unat_div)
  show ?thesis
    using span(1) up q
    by (auto simp: adjust_with_actual_span_def adjusted_target_def Let_def word_less_nat_alt a e
        unat_saturating_mul unat_max_word unat_div)
qed

subsection \<open>Bounds of the adjusted target\<close>

lemma adjusted_target_pos:
  "4 \<le> e \<Longrightarrow> 0 < t \<Longrightarrow> 0 < adjusted_target e t a"
  by (auto simp: adjusted_target_def)

lemma adjusted_target_upper:
  assumes "0 < e" "e \<le> t"
  shows "adjusted_target e t a \<le> 4 * t"
proof -
  have "t div e * a \<le> 4 * t" if "a \<le> e * 4"
  proof -
    have "t div e * a \<le> t div e * (e * 4)" using that by (rule mult_le_mono2)
    also have "\<dots> = 4 * (t div e * e)" by simp
    also have "\<dots> \<le> 4 * t" by simp
    finally show ?thesis .
  qed
  moreover have "1 \<le> t div e" using assms by (simp add: div_greater_zero_iff Suc_le_eq)
  ultimately show ?thesis
    using assms by (auto simp: adjusted_target_def max_def min_def not_less)
qed

end
