(* ===== verification/Serde.thy ===== *)
theory Serde
  imports Prelude
begin

text \<open>
  The validation convention of the wire types. \<open>Transaction\<close> and \<open>Block\<close> are deserialised through
  a shadow struct (\<open>TransactionValidator\<close>, \<open>BlockValidator\<close>) and a \<open>TryFrom\<close>; the locale states what
  the rest of the code relies on: a validator returns the fields it was given, unchanged, or an
  error. Its interpretations are in theories Transaction and Block.
\<close>

section \<open>Validating a vector\<close>

text \<open>Deserialising a \<open>Vec\<close> validates element by element and stops at the first error.\<close>

fun try_all :: "('a \<Rightarrow> ('e + 'b) option) \<Rightarrow> 'a list \<Rightarrow> ('e + 'b list) option" where
  "try_all f [] = Some (Inr [])"
| "try_all f (x # xs) = do {
     r \<leftarrow> f x;
     (case r of
        Inl e \<Rightarrow> Some (Inl e)
      | Inr y \<Rightarrow> do {
          rs \<leftarrow> try_all f xs;
          Some (case rs of Inl e \<Rightarrow> Inl e | Inr ys \<Rightarrow> Inr (y # ys)) }) }"

lemma try_all_Inr_Cons:
  "try_all f (x # xs) = Some (Inr zs) \<longleftrightarrow>
     (\<exists>y ys. f x = Some (Inr y) \<and> try_all f xs = Some (Inr ys) \<and> zs = y # ys)"
proof (cases "f x")
  case (Some r)
  then show ?thesis
  proof (cases r)
    case (Inr y)
    then show ?thesis
      using Some by (cases "try_all f xs") (auto split: sum.splits)
  qed simp
qed simp

lemma try_all_Inr:
  "try_all f xs = Some (Inr ys) \<longleftrightarrow> list_all2 (\<lambda>x y. f x = Some (Inr y)) xs ys"
proof (induction xs arbitrary: ys)
  case Nil
  then show ?case by auto
next
  case (Cons x xs)
  then show ?case
    by (cases ys) (auto simp: try_all_Inr_Cons simp del: try_all.simps)
qed

section \<open>Types with a validator\<close>

locale checked_type =
  fixes raw :: "'t \<Rightarrow> 'raw"
    and validate :: "'raw \<Rightarrow> ('e + 't) option"
    and valid :: "'t \<Rightarrow> bool"
  assumes validate_raw: "validate r = Some (Inr t) \<Longrightarrow> raw t = r"
    and valid_accepted: "valid t \<longleftrightarrow> validate (raw t) = Some (Inr t)"
begin

lemma validate_iff: "validate r = Some (Inr t) \<longleftrightarrow> raw t = r \<and> valid t"
  using validate_raw by (auto simp: valid_accepted)

lemma validated_valid: "validate r = Some (Inr t) \<Longrightarrow> valid t"
  by (simp add: validate_iff)

lemma same_fields: "validate r = Some (Inr t) \<Longrightarrow> raw u = r \<Longrightarrow> valid u \<Longrightarrow> t = u"
  using validate_iff by (metis option.inject sum.inject(2))

lemma validated_list:
  "try_all validate rs = Some (Inr ts) \<longleftrightarrow> rs = map raw ts \<and> list_all valid ts"
proof -
  have "list_all2 (\<lambda>r t. validate r = Some (Inr t)) rs ts \<longleftrightarrow> rs = map raw ts \<and> list_all valid ts"
  proof (induction ts arbitrary: rs)
    case Nil
    then show ?case by simp
  next
    case (Cons t ts)
    then show ?case by (cases rs) (auto simp: validate_iff)
  qed
  then show ?thesis by (simp add: try_all_Inr)
qed

end

end
