(* ===== verification/Transaction.thy ===== *)
theory Transaction
  imports Util Serde
begin

text \<open>
  Model of \<open>src/src/transaction.rs\<close>: cash, addresses, signatures, transactions, their construction
  and their validation on deserialisation. The packages the file calls (SHA-256, Ed25519 and the
  binary encoding) are the functions of the record \<open>crypto\<close>, an argument of the definitions.
\<close>

section \<open>Data\<close>

record CoinAddress =
  pub_key :: "u8 list"

record Signature =
  sig_bytes :: "u8 list"

type_synonym Uuid = u128

record Cash =
  cash_id :: Uuid
  amount :: u64
  owner :: CoinAddress

text \<open>\<open>Cash::new\<close> draws a fresh identifier from \<open>Uuid::new_v4\<close>: here the first argument.\<close>

definition Cash_new :: "Uuid \<Rightarrow> u64 \<Rightarrow> CoinAddress \<Rightarrow> Cash" where
  "Cash_new uuid a own = \<lparr>cash_id = uuid, amount = a, owner = own\<rparr>"

definition genesis_reward :: "u64 \<Rightarrow> CoinAddress \<Rightarrow> Cash" where
  "genesis_reward a own = \<lparr>cash_id = 0, amount = a, owner = own\<rparr>"

record TransactionInner =
  txn_inputs :: "Cash list"
  txn_outputs :: "Cash list"

record Transaction =
  txn_inner :: TransactionInner
  txn_signature :: Signature

record TransactionValidator =
  tv_inner :: TransactionInner
  tv_signature :: Signature

section \<open>The packages the code calls\<close>

text \<open>
  \<open>verifying_key\<close> gives the public key bytes of a signing key, \<open>key_ok\<close> tells whether
  \<open>VerifyingKey::from_bytes\<close> accepts 32 bytes, \<open>sig_verifies\<close> is \<open>Verifier::verify\<close> on key,
  message and signature. \<open>enc_txn_inner\<close> and \<open>enc_txn\<close> are \<open>serdes::hashsig::encode\<close> at the two
  types; encoding these in-memory values into a vector does not fail, so the \<open>unwrap\<close> after each
  call is not a branch of the model.
\<close>

record 'sk crypto =
  sha256 :: "u8 list \<Rightarrow> u8 list"
  sk_from_bytes :: "u8 list \<Rightarrow> 'sk"
  verifying_key :: "'sk \<Rightarrow> u8 list"
  sk_sign :: "'sk \<Rightarrow> u8 list \<Rightarrow> u8 list"
  key_ok :: "u8 list \<Rightarrow> bool"
  sig_verifies :: "u8 list \<Rightarrow> u8 list \<Rightarrow> u8 list \<Rightarrow> bool"
  enc_txn_inner :: "TransactionInner \<Rightarrow> u8 list"
  enc_txn :: "Transaction \<Rightarrow> u8 list"

text \<open>Ed25519: the key of a signer is a key, and what it signs verifies under it.\<close>

definition signatures_verify :: "('sk, 'z) crypto_scheme \<Rightarrow> bool" where
  "signatures_verify c \<longleftrightarrow>
     (\<forall>sk msg. key_ok c (verifying_key c sk) \<and>
               sig_verifies c (verifying_key c sk) msg (sk_sign c sk msg))"

definition from_signer :: "('sk, 'z) crypto_scheme \<Rightarrow> 'sk \<Rightarrow> CoinAddress" where
  "from_signer c sk = \<lparr>pub_key = verifying_key c sk\<rparr>"

section \<open>Operations\<close>

datatype txn_error =
    InputsEmpty
  | InputOwnersInconsistent
  | InsufficientInputs
  | OwnerIsNotSigner
  | MalformedKey
  | InvalidTransaction

definition check_inputs_and_outputs :: "Cash list \<Rightarrow> Cash list \<Rightarrow> (txn_error + unit) option" where
  "check_inputs_and_outputs inputs outputs =
     (case inputs of
        [] \<Rightarrow> Some (Inl InputsEmpty)
      | first # rest \<Rightarrow>
          if list_ex (\<lambda>input. owner input \<noteq> owner first) rest
          then Some (Inl InputOwnersInconsistent)
          else do {
            input_amount \<leftarrow> checked_sum (map amount inputs);
            output_amount \<leftarrow> checked_sum (map amount outputs);
            Some (if input_amount < output_amount then Inl InsufficientInputs else Inr ()) })"

definition transaction_try_from ::
    "('sk, 'z) crypto_scheme \<Rightarrow> TransactionValidator \<Rightarrow> (txn_error + Transaction) option" where
  "transaction_try_from c value = do {
     let inputs = txn_inputs (tv_inner value);
     let outputs = txn_outputs (tv_inner value);
     checked \<leftarrow> check_inputs_and_outputs inputs outputs;
     (case checked of
        Inl e \<Rightarrow> Some (Inl e)
      | Inr _ \<Rightarrow>
          (let msg = enc_txn_inner c (tv_inner value);
               key = pub_key (owner (hd inputs))
           in Some (if \<not> key_ok c key then Inl MalformedKey
                    else if sig_verifies c key msg (sig_bytes (tv_signature value))
                    then Inr \<lparr>txn_inner = tv_inner value, txn_signature = tv_signature value\<rparr>
                    else Inl InvalidTransaction))) }"

definition Transaction_new ::
    "('sk, 'z) crypto_scheme \<Rightarrow> 'sk \<Rightarrow> Cash list \<Rightarrow> Cash list \<Rightarrow> (txn_error + Transaction) option" where
  "Transaction_new c signing_key inputs outputs = do {
     checked \<leftarrow> check_inputs_and_outputs inputs outputs;
     (case checked of
        Inl e \<Rightarrow> Some (Inl e)
      | Inr _ \<Rightarrow>
          (let sender = \<lparr>pub_key = verifying_key c signing_key\<rparr>;
               inner = \<lparr>txn_inputs = inputs, txn_outputs = outputs\<rparr>;
               msg = enc_txn_inner c inner
           in Some (if sender \<noteq> owner (hd inputs) then Inl OwnerIsNotSigner
                    else Inr \<lparr>txn_inner = inner,
                              txn_signature = \<lparr>sig_bytes = sk_sign c signing_key msg\<rparr>\<rparr>))) }"

definition inputs :: "Transaction \<Rightarrow> Cash list" where
  "inputs t = txn_inputs (txn_inner t)"

definition outputs :: "Transaction \<Rightarrow> Cash list" where
  "outputs t = txn_outputs (txn_inner t)"

definition txn_id :: "('sk, 'z) crypto_scheme \<Rightarrow> Transaction \<Rightarrow> TransactionId" where
  "txn_id c t = Sha256Hash (sha256 c (enc_txn c t))"

definition fee :: "Transaction \<Rightarrow> u64 option" where
  "fee t = do {
     i \<leftarrow> checked_sum (map amount (inputs t));
     out \<leftarrow> checked_sum (map amount (outputs t));
     checked_sub i out }"

text \<open>The fees of a list of transactions, \<open>txns.iter().map(|txn| txn.fee()).sum()\<close>.\<close>

fun fees_from :: "u64 \<Rightarrow> Transaction list \<Rightarrow> u64 option" where
  "fees_from acc [] = Some acc"
| "fees_from acc (t # ts) = do {
     f \<leftarrow> fee t; acc' \<leftarrow> checked_add acc f; fees_from acc' ts }"

definition total_fees :: "Transaction list \<Rightarrow> u64 option" where
  "total_fees ts = fees_from 0 ts"

section \<open>The validator as a checked type\<close>

definition transaction_raw :: "Transaction \<Rightarrow> TransactionValidator" where
  "transaction_raw t = \<lparr>tv_inner = txn_inner t, tv_signature = txn_signature t\<rparr>"

lemma transaction_try_from_Inr:
  "transaction_try_from c v = Some (Inr t) \<longleftrightarrow>
     check_inputs_and_outputs (txn_inputs (tv_inner v)) (txn_outputs (tv_inner v)) = Some (Inr ()) \<and>
     key_ok c (pub_key (owner (hd (txn_inputs (tv_inner v))))) \<and>
     sig_verifies c (pub_key (owner (hd (txn_inputs (tv_inner v))))) (enc_txn_inner c (tv_inner v))
       (sig_bytes (tv_signature v)) \<and>
     t = \<lparr>txn_inner = tv_inner v, txn_signature = tv_signature v\<rparr>"
  by (auto simp: transaction_try_from_def Let_def split_sum_ex split: if_splits)

definition transaction_valid :: "('sk, 'z) crypto_scheme \<Rightarrow> Transaction \<Rightarrow> bool" where
  "transaction_valid c t \<longleftrightarrow> transaction_try_from c (transaction_raw t) = Some (Inr t)"

interpretation txn: checked_type transaction_raw "transaction_try_from c" "transaction_valid c" for c
  by unfold_locales
     (auto simp: transaction_try_from_Inr transaction_raw_def transaction_valid_def)

section \<open>What a valid transaction guarantees\<close>

abbreviation cash_sum :: "Cash list \<Rightarrow> nat" where
  "cash_sum cs \<equiv> sum_list (map (unat \<circ> amount) cs)"

lemma checked_sum_amounts:
  "checked_sum (map amount cs) = Some s \<longleftrightarrow> unat s = cash_sum cs"
  "checked_sum (map amount cs) = None \<longleftrightarrow> 2 ^ 64 \<le> cash_sum cs"
  by (simp_all add: checked_sum_Some checked_sum_None)

lemma checked_sum_amounts_small:
  "cash_sum cs < 2 ^ 64 \<Longrightarrow> checked_sum (map amount cs) = Some (of_nat (cash_sum cs))"
  by (simp add: checked_sum_amounts(1) unat_of_nat_small)

definition amounts_ok :: "Cash list \<Rightarrow> Cash list \<Rightarrow> bool" where
  "amounts_ok ins outs \<longleftrightarrow>
     ins \<noteq> [] \<and> (\<forall>i \<in> set ins. owner i = owner (hd ins)) \<and>
     cash_sum ins < 2 ^ 64 \<and> cash_sum outs \<le> cash_sum ins"

lemma check_accepts:
  "check_inputs_and_outputs ins outs = Some (Inr ()) \<longleftrightarrow> amounts_ok ins outs"
proof (cases ins)
  case Nil
  then show ?thesis by (simp add: check_inputs_and_outputs_def amounts_ok_def)
next
  case (Cons first rest)
  have sums: "(\<exists>i. checked_sum (map amount ins) = Some i \<and>
      (\<exists>out. checked_sum (map amount outs) = Some out \<and> \<not> i < out)) \<longleftrightarrow>
    cash_sum ins < 2 ^ 64 \<and> cash_sum outs \<le> cash_sum ins" (is "?l \<longleftrightarrow> ?r")
  proof
    assume ?l
    then obtain i out :: u64 where "unat i = cash_sum ins" "unat out = cash_sum outs" "\<not> i < out"
      by (auto simp: checked_sum_amounts(1))
    then show ?r using unat_bound [of i] by (simp add: word_less_nat_alt)
  next
    assume r: ?r
    then have "checked_sum (map amount ins) = Some (of_nat (cash_sum ins))"
      and "checked_sum (map amount outs) = Some (of_nat (cash_sum outs))"
      by (auto intro!: checked_sum_amounts_small)
    with r show ?l by (simp add: word_less_nat_alt unat_of_nat_small)
  qed
  show ?thesis
    using sums
    by (auto simp: check_inputs_and_outputs_def amounts_ok_def Cons list_ex_iff)
qed

lemma valid_transaction:
  "transaction_valid c t \<longleftrightarrow>
     amounts_ok (inputs t) (outputs t) \<and>
     key_ok c (pub_key (owner (hd (inputs t)))) \<and>
     sig_verifies c (pub_key (owner (hd (inputs t)))) (enc_txn_inner c (txn_inner t))
       (sig_bytes (txn_signature t))"
  by (simp add: transaction_valid_def transaction_try_from_Inr check_accepts transaction_raw_def
      inputs_def outputs_def)

lemma Transaction_new_Inr:
  "Transaction_new c sk ins outs = Some (Inr t) \<longleftrightarrow>
     amounts_ok ins outs \<and> owner (hd ins) = from_signer c sk \<and>
     t = \<lparr>txn_inner = \<lparr>txn_inputs = ins, txn_outputs = outs\<rparr>,
          txn_signature = \<lparr>sig_bytes =
            sk_sign c sk (enc_txn_inner c \<lparr>txn_inputs = ins, txn_outputs = outs\<rparr>)\<rparr>\<rparr>"
  by (auto simp: Transaction_new_def Let_def from_signer_def check_accepts [symmetric] split_sum_ex
      split: if_splits)

lemma new_transaction_valid:
  assumes "signatures_verify c" "Transaction_new c sk ins outs = Some (Inr t)"
  shows "transaction_valid c t"
  using assms
  by (auto simp: Transaction_new_Inr valid_transaction signatures_verify_def from_signer_def
      inputs_def outputs_def)

lemma unat_of_diff: "a < 2 ^ 64 \<Longrightarrow> unat (of_nat (a - b) :: u64) = a - b"
  by (rule unat_of_nat_small) simp

lemma fee_Some:
  "fee t = Some f \<longleftrightarrow>
     cash_sum (inputs t) < 2 ^ 64 \<and> cash_sum (outputs t) < 2 ^ 64 \<and>
     cash_sum (inputs t) = cash_sum (outputs t) + unat f"
proof
  assume "fee t = Some f"
  then obtain i out :: u64 where "unat i = cash_sum (inputs t)" "unat out = cash_sum (outputs t)"
    "unat i = unat out + unat f"
    by (auto simp: fee_def checked_sum_amounts(1) checked_sub_Some)
  then show "cash_sum (inputs t) < 2 ^ 64 \<and> cash_sum (outputs t) < 2 ^ 64 \<and>
     cash_sum (inputs t) = cash_sum (outputs t) + unat f"
    using unat_bound [of i] unat_bound [of out] by simp
next
  assume *: "cash_sum (inputs t) < 2 ^ 64 \<and> cash_sum (outputs t) < 2 ^ 64 \<and>
     cash_sum (inputs t) = cash_sum (outputs t) + unat f"
  let ?i = "of_nat (cash_sum (inputs t)) :: u64" and ?o = "of_nat (cash_sum (outputs t)) :: u64"
  from * have small: "cash_sum (inputs t) < 2 ^ 64" "cash_sum (outputs t) < 2 ^ 64"
    and sum: "cash_sum (inputs t) = cash_sum (outputs t) + unat f" by blast+
  have "unat ?i = cash_sum (inputs t)" "unat ?o = cash_sum (outputs t)"
    using small by (auto intro!: unat_of_nat_small)
  then have "checked_sub ?i ?o = Some f" using sum by (simp only: checked_sub_Some)
  moreover note small [THEN checked_sum_amounts_small]
  ultimately show "fee t = Some f" by (simp only: fee_def option.simps Option.bind.simps)
qed

lemma valid_transaction_fee:
  assumes "amounts_ok (inputs t) (outputs t)"
  shows "fee t = Some (of_nat (cash_sum (inputs t) - cash_sum (outputs t)))"
  using assms by (simp add: fee_Some amounts_ok_def unat_of_diff del: of_nat_diff)

text \<open>Fees as numbers.\<close>

definition fee_value :: "Transaction \<Rightarrow> nat" where
  "fee_value t = cash_sum (inputs t) - cash_sum (outputs t)"

lemma fees_from_Some:
  assumes "\<forall>t \<in> set ts. amounts_ok (inputs t) (outputs t)"
  shows "fees_from acc ts = Some f \<longleftrightarrow> unat f = unat acc + sum_list (map fee_value ts)"
  using assms
proof (induction ts arbitrary: acc)
  case Nil
  then show ?case by (auto simp: word_unat_eq_iff)
next
  case (Cons t ts)
  let ?f = "of_nat (cash_sum (inputs t) - cash_sum (outputs t)) :: u64"
  have t: "amounts_ok (inputs t) (outputs t)" using Cons.prems by simp
  then have f: "fee t = Some ?f" by (rule valid_transaction_fee)
  have u: "unat ?f = fee_value t"
    using t by (simp add: fee_value_def amounts_ok_def unat_of_diff del: of_nat_diff)
  have IH: "fees_from a ts = Some f \<longleftrightarrow> unat f = unat a + sum_list (map fee_value ts)" for a
    using Cons by simp
  show ?case
  proof
    assume "fees_from acc (t # ts) = Some f"
    then show "unat f = unat acc + sum_list (map fee_value (t # ts))"
      by (auto simp: f IH checked_add_Some u)
  next
    assume r: "unat f = unat acc + sum_list (map fee_value (t # ts))"
    then have "unat acc + unat ?f < 2 ^ 64" using unat_bound [of f] u by simp
    then have "checked_add acc ?f = Some (acc + ?f)" "unat (acc + ?f) = unat acc + unat ?f"
      by (simp_all add: checked_add_def unat_add_no_overflow)
    then show "fees_from acc (t # ts) = Some f" using r u by (simp add: f IH)
  qed
qed

lemma total_fees_Some:
  assumes "\<forall>t \<in> set ts. amounts_ok (inputs t) (outputs t)"
  shows "total_fees ts = Some f \<longleftrightarrow> unat f = sum_list (map fee_value ts)"
  using fees_from_Some [OF assms, of 0 f] by (simp add: total_fees_def)

end
