(* ===== verification/Block.thy ===== *)
theory Block
  imports Config Transaction
begin

text \<open>
  Model of \<open>src/src/block.rs\<close>: blocks, their validation on deserialisation, building the next block
  on a previous one, the search for a nonce and signing. The current time and the fresh identifier
  of the reward are arguments of \<open>UnconfirmedBlock_new\<close>.
\<close>

section \<open>Data\<close>

record BlockInner =
  bi_seqno :: SequenceNo
  bi_difficulty :: Difficulty
  bi_prev_id :: BlockId
  bi_transactions :: "Transaction list"
  bi_reward :: Cash
  bi_miner :: CoinAddress
  bi_timestamp :: Timestamp
  bi_nonce :: u64

record Block =
  blk_inner :: BlockInner
  blk_signature :: Signature

record BlockValidator =
  bv_inner :: BlockInner
  bv_signature :: Signature

record UnconfirmedBlock =
  ub_seqno :: SequenceNo
  ub_difficulty :: Difficulty
  ub_prev_id :: BlockId
  ub_transactions :: "Transaction list"
  ub_reward :: Cash
  ub_miner :: CoinAddress
  ub_timestamp :: Timestamp

datatype BlockValidationError = BlockSizeExceeded | MinerNotMatchSigner | InvalidNonce

text \<open>\<open>serdes::hashsig::encode\<close> at the block types.\<close>

record 'sk codec = "'sk crypto" +
  enc_unconfirmed :: "UnconfirmedBlock \<Rightarrow> u8 list"
  enc_block_inner :: "BlockInner \<Rightarrow> u8 list"
  enc_block :: "Block \<Rightarrow> u8 list"

definition confirmed_inner :: "UnconfirmedBlock \<Rightarrow> u64 \<Rightarrow> BlockInner" where
  "confirmed_inner ub nonce =
     \<lparr>bi_seqno = ub_seqno ub, bi_difficulty = ub_difficulty ub, bi_prev_id = ub_prev_id ub,
      bi_transactions = ub_transactions ub, bi_reward = ub_reward ub, bi_miner = ub_miner ub,
      bi_timestamp = ub_timestamp ub, bi_nonce = nonce\<rparr>"

text \<open>
  The fixed-width little-endian encoding writes the fields of a struct one after the other and a
  \<open>u64\<close> as its eight bytes; the nonce is the last field of \<open>BlockInner\<close>.
\<close>

definition nonce_is_last :: "('sk, 'z) codec_scheme \<Rightarrow> bool" where
  "nonce_is_last c \<longleftrightarrow>
     (\<forall>ub nonce. enc_block_inner c (confirmed_inner ub nonce) =
        enc_unconfirmed c ub @ to_le_bytes 8 nonce)"

section \<open>Reading a block\<close>

definition seqno :: "Block \<Rightarrow> SequenceNo" where "seqno b = bi_seqno (blk_inner b)"
definition prev_id :: "Block \<Rightarrow> BlockId" where "prev_id b = bi_prev_id (blk_inner b)"
definition difficulty :: "Block \<Rightarrow> Difficulty" where "difficulty b = bi_difficulty (blk_inner b)"
definition transactions :: "Block \<Rightarrow> Transaction list" where
  "transactions b = bi_transactions (blk_inner b)"
definition reward :: "Block \<Rightarrow> Cash" where "reward b = bi_reward (blk_inner b)"
definition miner :: "Block \<Rightarrow> CoinAddress" where "miner b = bi_miner (blk_inner b)"
definition timestamp :: "Block \<Rightarrow> Timestamp" where "timestamp b = bi_timestamp (blk_inner b)"

definition block_id :: "('sk, 'z) codec_scheme \<Rightarrow> Block \<Rightarrow> BlockId" where
  "block_id c b = Sha256Hash (sha256 c (enc_block c b))"

section \<open>Validation on deserialisation\<close>

definition verify_nonce :: "('sk, 'z) codec_scheme \<Rightarrow> BlockInner \<Rightarrow> bool" where
  "verify_nonce c inner \<longleftrightarrow> is_met (bi_difficulty inner) (sha256 c (enc_block_inner c inner))"

datatype block_error = NonceNotMet | MalformedMinerKey | InvalidSignature

definition block_try_from :: "('sk, 'z) codec_scheme \<Rightarrow> BlockValidator \<Rightarrow> block_error + Block" where
  "block_try_from c value =
     (if \<not> verify_nonce c (bv_inner value) then Inl NonceNotMet
      else let msg = enc_block_inner c (bv_inner value);
               key = pub_key (bi_miner (bv_inner value))
           in if \<not> key_ok c key then Inl MalformedMinerKey
              else if sig_verifies c key msg (sig_bytes (bv_signature value))
              then Inr \<lparr>blk_inner = bv_inner value, blk_signature = bv_signature value\<rparr>
              else Inl InvalidSignature)"

definition block_raw :: "Block \<Rightarrow> BlockValidator" where
  "block_raw b = \<lparr>bv_inner = blk_inner b, bv_signature = blk_signature b\<rparr>"

definition block_valid :: "('sk, 'z) codec_scheme \<Rightarrow> Block \<Rightarrow> bool" where
  "block_valid c b \<longleftrightarrow> block_try_from c (block_raw b) = Inr b"

lemma block_try_from_Inr:
  "block_try_from c v = Inr b \<longleftrightarrow>
     verify_nonce c (bv_inner v) \<and> key_ok c (pub_key (bi_miner (bv_inner v))) \<and>
     sig_verifies c (pub_key (bi_miner (bv_inner v))) (enc_block_inner c (bv_inner v))
       (sig_bytes (bv_signature v)) \<and>
     b = \<lparr>blk_inner = bv_inner v, blk_signature = bv_signature v\<rparr>"
  by (auto simp: block_try_from_def Let_def)

interpretation blk: checked_type block_raw "\<lambda>v. Some (block_try_from c v)" "block_valid c" for c
  by unfold_locales (auto simp: block_try_from_Inr block_raw_def block_valid_def)

lemma valid_block:
  "block_valid c b \<longleftrightarrow>
     verify_nonce c (blk_inner b) \<and> key_ok c (pub_key (miner b)) \<and>
     sig_verifies c (pub_key (miner b)) (enc_block_inner c (blk_inner b))
       (sig_bytes (blk_signature b))"
  by (simp add: block_valid_def block_try_from_Inr block_raw_def miner_def)

section \<open>Confirming a block\<close>

definition with_nonce ::
    "('sk, 'z) codec_scheme \<Rightarrow> UnconfirmedBlock \<Rightarrow> 'sk \<Rightarrow> u64 \<Rightarrow> BlockValidationError + Block" where
  "with_nonce c ub signing_key nonce =
     (let inner = confirmed_inner ub nonce in
      if bi_miner inner \<noteq> \<lparr>pub_key = verifying_key c signing_key\<rparr> then Inl MinerNotMatchSigner
      else let bytes = enc_block_inner c inner; hash = sha256 c bytes in
        if \<not> is_met (bi_difficulty inner) hash then Inl InvalidNonce
        else Inr \<lparr>blk_inner = inner,
                  blk_signature = \<lparr>sig_bytes = sk_sign c signing_key bytes\<rparr>\<rparr>)"

text \<open>
  The loop \<open>for nouce in 0_u64..\<close>. Asking the range for the element after the largest \<open>u64\<close>
  overflows before that element is handed out, so the search panics there.
\<close>

function nouce_loop ::
    "('sk, 'z) codec_scheme \<Rightarrow> Difficulty \<Rightarrow> nat \<Rightarrow> u8 list \<Rightarrow> u64 \<Rightarrow> u64 option" where
  "nouce_loop c d len bytes nouce =
     (if nouce = - 1 then None
      else let bytes' = take len bytes @ to_le_bytes 8 nouce in
        if is_met d (sha256 c bytes') then Some nouce
        else nouce_loop c d len bytes' (nouce + 1))"
  by pat_completeness auto
termination
proof (relation "measure (\<lambda>(c, d, len, bytes, nouce). 2 ^ 64 - unat nouce)", goal_cases)
  case 1
  then show ?case by simp
next
  case (2 c d len bytes nouce x)
  then have "unat (nouce + 1) = Suc (unat nouce)"
    by (metis add.commute unatSuc eq_neg_iff_add_eq_0)
  moreover have "unat nouce < 2 ^ 64" using unat_bound [of nouce] by simp
  ultimately show ?case by simp
qed

declare nouce_loop.simps [simp del]

definition find_nouce :: "('sk, 'z) codec_scheme \<Rightarrow> UnconfirmedBlock \<Rightarrow> u64 option" where
  "find_nouce c ub =
     (let bytes = enc_unconfirmed c ub; len = length bytes in
      nouce_loop c (ub_difficulty ub) len (bytes @ replicate 8 0) 0)"

definition try_confirm ::
    "('sk, 'z) codec_scheme \<Rightarrow> UnconfirmedBlock \<Rightarrow> 'sk \<Rightarrow> (BlockValidationError + Block) option" where
  "try_confirm c ub signing_key = do {
     valid_nouce \<leftarrow> find_nouce c ub;
     Some (with_nonce c ub signing_key valid_nouce) }"

section \<open>Building the next block\<close>

text \<open>\<open>initial_block_subsidy >> (seqno / block_subsidy_half_period)\<close>\<close>

definition block_subsidy :: "Config \<Rightarrow> SequenceNo \<Rightarrow> u64 option" where
  "block_subsidy config n = do {
     halvings \<leftarrow> checked_div n (block_subsidy_half_period config);
     checked_shr (initial_block_subsidy config) halvings }"

datatype new_block_error = AdjustmentTimeRequired

definition UnconfirmedBlock_new ::
    "('sk, 'z) codec_scheme \<Rightarrow> Timestamp \<Rightarrow> Uuid \<Rightarrow> Block \<Rightarrow> CoinAddress \<Rightarrow> Transaction list \<Rightarrow>
     Timestamp option \<Rightarrow> Config \<Rightarrow> (new_block_error + UnconfirmedBlock) option" where
  "UnconfirmedBlock_new c now uuid prev own txns prev_adjustment_time config = do {
     n \<leftarrow> checked_add (seqno prev) 1;
     r \<leftarrow> checked_rem n (difficulty_adjustment_period config);
     dif \<leftarrow> (if r = 0 then
              (case prev_adjustment_time of
                 None \<Rightarrow> Some (Inl AdjustmentTimeRequired)
               | Some t \<Rightarrow> do {
                   span \<leftarrow> checked_sub now t;
                   d \<leftarrow> adjust_with_actual_span (difficulty prev) span config;
                   Some (Inr d) })
            else Some (Inr (difficulty prev)));
     (case dif of
        Inl e \<Rightarrow> Some (Inl e)
      | Inr d \<Rightarrow> do {
          subsidy \<leftarrow> block_subsidy config n;
          fees \<leftarrow> total_fees txns;
          total \<leftarrow> checked_add subsidy fees;
          Some (Inr
            \<lparr>ub_seqno = n, ub_difficulty = d, ub_prev_id = block_id c prev,
             ub_transactions = txns, ub_reward = Cash_new uuid total own,
             ub_miner = own, ub_timestamp = now\<rparr>) }) }"

section \<open>The genesis block\<close>

definition bytes_of_string :: "string \<Rightarrow> u8 list" where
  "bytes_of_string s = map of_char s"

definition genesis_secret :: "u8 list" where
  "genesis_secret =
     bytes_of_string ''01a4b29a7fc6127080b9eb962ec4f18a3a61d5e011cc3fa821d5d1d1f30d0ddb''"

definition zero_id :: BlockId where
  "zero_id = Sha256Hash (replicate 32 0)"

definition create_genesis ::
    "('sk, 'z) codec_scheme \<Rightarrow> Difficulty \<Rightarrow> Timestamp \<Rightarrow> u64 \<Rightarrow> Block option" where
  "create_genesis c d ts subsidy =
     (case hex_to_bytes 32 genesis_secret of
        Inl _ \<Rightarrow> None
      | Inr secret_key_bytes \<Rightarrow>
          (let signing_key = sk_from_bytes c secret_key_bytes;
               own = from_signer c signing_key;
               rew = genesis_reward subsidy own;
               unconfirmed = \<lparr>ub_seqno = 0, ub_difficulty = d, ub_prev_id = zero_id,
                              ub_transactions = [], ub_reward = rew, ub_miner = own,
                              ub_timestamp = ts\<rparr>
           in case try_confirm c unconfirmed signing_key of
                Some (Inr b) \<Rightarrow> Some b
              | _ \<Rightarrow> None))"

section \<open>What the search for a nonce finds\<close>

definition nonce_met :: "('sk, 'z) codec_scheme \<Rightarrow> UnconfirmedBlock \<Rightarrow> u64 \<Rightarrow> bool" where
  "nonce_met c ub n \<longleftrightarrow>
     is_met (ub_difficulty ub) (sha256 c (enc_unconfirmed c ub @ to_le_bytes 8 n))"

lemma unat_next: "(n :: u64) \<noteq> - 1 \<Longrightarrow> unat (n + 1) = Suc (unat n)"
  by (metis add.commute unatSuc eq_neg_iff_add_eq_0)

lemma nouce_loop_spec:
  assumes "take (length (enc_unconfirmed c ub)) bytes = enc_unconfirmed c ub"
  shows "case nouce_loop c (ub_difficulty ub) (length (enc_unconfirmed c ub)) bytes n of
      None \<Rightarrow> \<forall>m. n \<le> m \<and> m < - 1 \<longrightarrow> \<not> nonce_met c ub m
    | Some r \<Rightarrow> n \<le> r \<and> nonce_met c ub r \<and> r \<noteq> - 1 \<and> (\<forall>m. n \<le> m \<and> m < r \<longrightarrow> \<not> nonce_met c ub m)"
  using assms
proof (induction c "ub_difficulty ub" "length (enc_unconfirmed c ub)" bytes n rule: nouce_loop.induct)
  case (1 c bytes n)
  let ?len = "length (enc_unconfirmed c ub)"
  note step = nouce_loop.simps [of c "ub_difficulty ub" ?len bytes n]
  show ?case
  proof (cases "n = - 1")
    case True
    then have "nouce_loop c (ub_difficulty ub) ?len bytes n = None" by (subst step) simp
    with True show ?thesis by auto
  next
    case False
    show ?thesis
    proof (cases "nonce_met c ub n")
      case True
      with False 1(2) show ?thesis by (auto simp: step nonce_met_def)
    next
      case unmet: False
      then have loop: "nouce_loop c (ub_difficulty ub) ?len bytes n =
          nouce_loop c (ub_difficulty ub) ?len (enc_unconfirmed c ub @ to_le_bytes 8 n) (n + 1)"
        using False 1(2) by (simp add: step nonce_met_def)
      have above: "n \<le> m \<longleftrightarrow> m = n \<or> n + 1 \<le> m" for m
        using unat_next [OF False] by (auto simp: word_le_nat_alt word_unat_eq_iff)
      have IH: "case nouce_loop c (ub_difficulty ub) ?len (enc_unconfirmed c ub @ to_le_bytes 8 n) (n + 1) of
          None \<Rightarrow> \<forall>m. n + 1 \<le> m \<and> m < - 1 \<longrightarrow> \<not> nonce_met c ub m
        | Some r \<Rightarrow> n + 1 \<le> r \<and> nonce_met c ub r \<and> r \<noteq> - 1 \<and>
            (\<forall>m. n + 1 \<le> m \<and> m < r \<longrightarrow> \<not> nonce_met c ub m)"
        using 1(1) [OF False refl] unmet 1(2) by (simp add: nonce_met_def)
      show ?thesis
        using IH unmet unfolding loop above by (auto split: option.splits)
    qed
  qed
qed

lemma find_nouce_Some:
  "find_nouce c ub = Some r \<Longrightarrow>
     nonce_met c ub r \<and> r \<noteq> - 1 \<and> (\<forall>m < r. \<not> nonce_met c ub m)"
  using nouce_loop_spec [of c ub "enc_unconfirmed c ub @ replicate 8 0" 0]
  by (simp add: find_nouce_def Let_def)

lemma find_nouce_None:
  "find_nouce c ub = None \<longleftrightarrow> (\<forall>m. m < - 1 \<longrightarrow> \<not> nonce_met c ub m)"
proof (cases "find_nouce c ub")
  case None
  then show ?thesis
    using nouce_loop_spec [of c ub "enc_unconfirmed c ub @ replicate 8 0" 0]
    by (simp add: find_nouce_def Let_def)
next
  case (Some r)
  then have "nonce_met c ub r" "r < - 1"
    using find_nouce_Some [OF Some] by (auto simp: word_order.not_eq_extremum)
  with Some show ?thesis by auto
qed

section \<open>Confirming and validating agree\<close>

lemma confirmed_inner_sel [simp]:
  "bi_seqno (confirmed_inner ub n) = ub_seqno ub"
  "bi_difficulty (confirmed_inner ub n) = ub_difficulty ub"
  "bi_prev_id (confirmed_inner ub n) = ub_prev_id ub"
  "bi_transactions (confirmed_inner ub n) = ub_transactions ub"
  "bi_reward (confirmed_inner ub n) = ub_reward ub"
  "bi_miner (confirmed_inner ub n) = ub_miner ub"
  "bi_timestamp (confirmed_inner ub n) = ub_timestamp ub"
  "bi_nonce (confirmed_inner ub n) = n"
  by (simp_all add: confirmed_inner_def)

lemma with_nonce_Inr:
  "with_nonce c ub sk n = Inr b \<longleftrightarrow>
     ub_miner ub = from_signer c sk \<and> verify_nonce c (confirmed_inner ub n) \<and>
     b = \<lparr>blk_inner = confirmed_inner ub n,
          blk_signature = \<lparr>sig_bytes = sk_sign c sk (enc_block_inner c (confirmed_inner ub n))\<rparr>\<rparr>"
  by (auto simp: with_nonce_def Let_def from_signer_def verify_nonce_def)

lemma confirmed_block_valid:
  assumes "signatures_verify c" "with_nonce c ub sk n = Inr b"
  shows "block_valid c b"
  using assms
  by (auto simp: with_nonce_Inr valid_block signatures_verify_def from_signer_def miner_def)

lemma nonce_met_verify:
  "nonce_is_last c \<Longrightarrow> nonce_met c ub n \<longleftrightarrow> verify_nonce c (confirmed_inner ub n)"
  by (simp add: nonce_met_def verify_nonce_def nonce_is_last_def)

lemma try_confirm_result:
  assumes "nonce_is_last c" "find_nouce c ub = Some n"
  shows "try_confirm c ub sk =
    Some (if ub_miner ub = from_signer c sk
          then Inr \<lparr>blk_inner = confirmed_inner ub n,
                blk_signature = \<lparr>sig_bytes = sk_sign c sk (enc_block_inner c (confirmed_inner ub n))\<rparr>\<rparr>
          else Inl MinerNotMatchSigner)"
  using assms find_nouce_Some [OF assms(2)]
  by (auto simp: try_confirm_def with_nonce_def Let_def from_signer_def nonce_met_verify verify_nonce_def)

lemma try_confirm_block:
  assumes "try_confirm c ub sk = Some (Inr b)"
  shows "seqno b = ub_seqno ub" "difficulty b = ub_difficulty ub" "prev_id b = ub_prev_id ub"
    "transactions b = ub_transactions ub" "reward b = ub_reward ub" "miner b = ub_miner ub"
    "timestamp b = ub_timestamp ub"
  using assms
  by (auto simp: try_confirm_def with_nonce_Inr seqno_def difficulty_def prev_id_def
      transactions_def reward_def miner_def timestamp_def)

section \<open>The subsidy and the genesis block\<close>

lemma block_subsidy_Some:
  "block_subsidy config n = Some s \<longleftrightarrow>
     block_subsidy_half_period config \<noteq> 0 \<and>
     unat n div unat (block_subsidy_half_period config) < 64 \<and>
     unat s = unat (initial_block_subsidy config) div
       2 ^ (unat n div unat (block_subsidy_half_period config))"
proof -
  let ?k = "unat n div unat (block_subsidy_half_period config)"
  have "unat (drop_bit ?k (initial_block_subsidy config)) =
      unat (initial_block_subsidy config) div 2 ^ ?k"
    using unat_drop_bit_eq [of ?k "initial_block_subsidy config"] by (simp add: drop_bit_eq_div)
  moreover have "block_subsidy config n =
      (if block_subsidy_half_period config = 0 then None
       else if ?k < 64 then Some (drop_bit ?k (initial_block_subsidy config)) else None)"
    by (simp add: block_subsidy_def checked_div_def checked_shr_def unat_div)
  ultimately show ?thesis by (auto simp: word_unat_eq_iff)
qed

lemma genesis_secret_hex: "\<not> isl (hex_to_bytes 32 genesis_secret)"
  by code_simp

lemma genesis_secret_parses: "\<exists>bs. hex_to_bytes 32 genesis_secret = Inr bs"
  using genesis_secret_hex by (cases "hex_to_bytes 32 genesis_secret") auto

lemma create_genesis_Some:
  assumes "create_genesis c d ts subsidy = Some b"
  shows "seqno b = 0" "prev_id b = zero_id" "transactions b = []" "difficulty b = d"
    "timestamp b = ts" "amount (reward b) = subsidy" "cash_id (reward b) = 0"
    "owner (reward b) = miner b"
proof -
  obtain bs where "hex_to_bytes 32 genesis_secret = Inr bs" using genesis_secret_parses by blast
  with assms obtain own sk where "try_confirm c
     \<lparr>ub_seqno = 0, ub_difficulty = d, ub_prev_id = zero_id, ub_transactions = [],
      ub_reward = genesis_reward subsidy own, ub_miner = own, ub_timestamp = ts\<rparr> sk = Some (Inr b)"
    by (auto simp: create_genesis_def Let_def split: option.splits sum.splits)
  from try_confirm_block [OF this] show
    "seqno b = 0" "prev_id b = zero_id" "transactions b = []" "difficulty b = d"
    "timestamp b = ts" "amount (reward b) = subsidy" "cash_id (reward b) = 0"
    "owner (reward b) = miner b"
    by (simp_all add: genesis_reward_def)
qed

lemma create_genesis_valid:
  "signatures_verify c \<Longrightarrow> create_genesis c d ts subsidy = Some b \<Longrightarrow> block_valid c b"
  by (auto simp: create_genesis_def Let_def try_confirm_def dest: confirmed_block_valid
      split: sum.splits option.splits)

end
