(* ===== verification/Chain_Store.thy ===== *)
theory Chain_Store
  imports Main
begin

text \<open>
  The interface between the block store of the hub and everything that walks the chain: a lookup
  by identifier, a parent pointer and a height. The locale states what the store promises (the root
  is stored at height zero, every other stored block has a stored parent one level below, the
  parent of the root is not stored); the lemmas are what the walks rely on. Its interpretation on
  the valid blocks of the hub is in theory Hub_State.
\<close>

text \<open>The blocks from the bottom to \<open>i\<close>, following \<open>n\<close> parent pointers.\<close>

fun chain_up :: "('id \<Rightarrow> 'b option) \<Rightarrow> ('b \<Rightarrow> 'id) \<Rightarrow> nat \<Rightarrow> 'id \<Rightarrow> 'b list" where
  "chain_up look par 0 i = (case look i of None \<Rightarrow> [] | Some b \<Rightarrow> [b])"
| "chain_up look par (Suc n) i =
     (case look i of None \<Rightarrow> [] | Some b \<Rightarrow> chain_up look par n (par b) @ [b])"

definition path_to :: "('id \<Rightarrow> 'b option) \<Rightarrow> ('b \<Rightarrow> 'id) \<Rightarrow> ('b \<Rightarrow> nat) \<Rightarrow> 'id \<Rightarrow> 'b list" where
  "path_to look par ht i = (case look i of None \<Rightarrow> [] | Some b \<Rightarrow> chain_up look par (ht b) i)"

locale chain_store =
  fixes inv :: "'s \<Rightarrow> bool"
    and look :: "'s \<Rightarrow> 'id \<Rightarrow> 'b option"
    and par :: "'b \<Rightarrow> 'id"
    and ht :: "'b \<Rightarrow> nat"
    and root :: "'s \<Rightarrow> 'id"
  assumes root_stored: "inv s \<Longrightarrow> \<exists>b. look s (root s) = Some b \<and> ht b = 0"
    and parent_stored: "inv s \<Longrightarrow> look s i = Some b \<Longrightarrow> i \<noteq> root s \<Longrightarrow>
      \<exists>p. look s (par b) = Some p \<and> ht b = Suc (ht p)"
    and root_parent: "inv s \<Longrightarrow> look s (root s) = Some b \<Longrightarrow> look s (par b) = None"
begin

text \<open>Induction from the root upwards.\<close>

lemma chain_induct [consumes 2, case_names root step]:
  assumes "inv s" "look s i = Some b"
    and "\<And>r. look s (root s) = Some r \<Longrightarrow> ht r = 0 \<Longrightarrow> P (root s) r"
    and "\<And>i b p. look s i = Some b \<Longrightarrow> i \<noteq> root s \<Longrightarrow> look s (par b) = Some p \<Longrightarrow>
      ht b = Suc (ht p) \<Longrightarrow> P (par b) p \<Longrightarrow> P i b"
  shows "P i b"
  using assms(2)
proof (induction "ht b" arbitrary: i b rule: less_induct)
  case less
  show ?case
  proof (cases "i = root s")
    case True
    with less.prems root_stored [OF assms(1)] assms(3) show ?thesis by auto
  next
    case False
    obtain p where p: "look s (par b) = Some p" "ht b = Suc (ht p)"
      using parent_stored [OF assms(1) less.prems False] by blast
    with less.hyps have "P (par b) p" by simp
    with less.prems False p assms(4) show ?thesis by blast
  qed
qed

lemma height_zero: "inv s \<Longrightarrow> look s i = Some b \<Longrightarrow> ht b = 0 \<Longrightarrow> i = root s"
  using parent_stored by fastforce

lemma path_root:
  "inv s \<Longrightarrow> look s (root s) = Some b \<Longrightarrow> path_to (look s) par ht (root s) = [b]"
  using root_stored by (fastforce simp: path_to_def)

lemma path_step:
  "inv s \<Longrightarrow> look s i = Some b \<Longrightarrow> i \<noteq> root s \<Longrightarrow>
     path_to (look s) par ht i = path_to (look s) par ht (par b) @ [b]"
  using parent_stored by (fastforce simp: path_to_def)

lemma path_length:
  assumes "inv s" "look s i = Some b"
  shows "length (path_to (look s) par ht i) = Suc (ht b)"
  using assms
  by (induction rule: chain_induct)
     (simp_all add: path_root [OF assms(1)] path_step [OF assms(1)])

lemma path_nonempty: "inv s \<Longrightarrow> look s i = Some b \<Longrightarrow> path_to (look s) par ht i \<noteq> []"
  using path_length by fastforce

lemma path_last: "inv s \<Longrightarrow> look s i = Some b \<Longrightarrow> last (path_to (look s) par ht i) = b"
  by (cases "i = root s") (simp_all add: path_root path_step)

lemma path_hd:
  assumes "inv s" "look s i = Some b"
  shows "look s (root s) = Some (hd (path_to (look s) par ht i))"
  using assms
  by (induction rule: chain_induct)
     (simp_all add: path_root [OF assms(1)] path_step [OF assms(1)] path_nonempty [OF assms(1)])

lemma path_nth_height:
  assumes "inv s" "look s i = Some b"
  shows "\<forall>k \<le> ht b. ht (path_to (look s) par ht i ! k) = k"
  using assms
proof (induction rule: chain_induct)
  case (root r)
  then show ?case using assms(1) by (simp add: path_root)
next
  case (step i b p)
  then show ?case
    using assms(1)
    by (auto simp: path_step path_length nth_append le_Suc_eq)
qed

lemma path_nth_parent:
  assumes "inv s" "look s i = Some b"
  shows "\<forall>k < ht b. look s (par (path_to (look s) par ht i ! Suc k)) =
    Some (path_to (look s) par ht i ! k)"
  using assms
proof (induction rule: chain_induct)
  case (root r)
  then show ?case by simp
next
  case (step i b p)
  have "path_to (look s) par ht (par b) ! ht p = p"
    using path_last [OF assms(1) step(3)] path_length [OF assms(1) step(3)]
    by (metis diff_Suc_1 last_conv_nth list.size(3) nat.distinct(1))
  with step show ?case
    using assms(1)
    by (auto simp: path_step path_length nth_append less_Suc_eq)
qed

lemma path_stored:
  assumes "inv s" "look s i = Some b"
  shows "\<forall>x \<in> set (path_to (look s) par ht i). \<exists>j. look s j = Some x"
  using assms
  by (induction rule: chain_induct)
     (auto simp: path_root [OF assms(1)] path_step [OF assms(1)])

text \<open>A reflexive relation kept from parent to child and transitive holds along the path.\<close>

lemma path_monotone:
  assumes "inv s" "look s i = Some b"
    and refl: "\<And>x. R x x" and trans: "\<And>x y z. R x y \<Longrightarrow> R y z \<Longrightarrow> R x z"
    and step: "\<And>j y x. look s j = Some y \<Longrightarrow> j \<noteq> root s \<Longrightarrow> look s (par y) = Some x \<Longrightarrow> R x y"
  shows "\<forall>x \<in> set (path_to (look s) par ht i). R x b"
  using assms(1,2)
proof (induction rule: chain_induct)
  case (root r)
  then show ?case using assms(1) refl by (simp add: path_root)
next
  case (step i b p)
  then have "R p b" using assms(5) by blast
  with step show ?case using assms(1) refl trans by (auto simp: path_step)
qed

end

end
