(* ===== verification/Hub_State.thy ===== *)
theory Hub_State
  imports Block Chain_Store
begin

text \<open>
  The state of the hub actor (\<open>PeerHubActorState\<close> of \<open>src/src/peerhub.rs\<close>), the messages between
  peers (\<open>src/src/peer.rs\<close>), and every operation that reads the block maps: \<open>block_root\<close>,
  \<open>ancestors_id\<close>, \<open>confirmed_chain\<close>, \<open>prev_difficulty_adjusted_block\<close>, \<open>transaction_depth\<close>.
  A \<open>HashMap\<close> is a finite map, a \<open>HashSet\<close> a finite set; the order in which they are iterated is a
  parameter (\<open>id_order\<close>, \<open>peer_order\<close>, \<open>txn_order\<close> of the environment).
\<close>

section \<open>Messages between peers\<close>

datatype BroadcastMessage =
    BroadcastTransaction TransactionId
  | BroadcastBlock BlockId

datatype 'n PeerMessage =
    Broadcast BroadcastMessage
  | GetTransactionRequest TransactionId
  | GetTransactionResponse Transaction
  | GetBlockRequest BlockId
  | GetBlockResponse 'n Block

section \<open>Environment\<close>

text \<open>
  \<open>'sk\<close> is the type of signing keys, \<open>'n\<close> of node identifiers, \<open>'st\<close> of send streams.
  \<open>enc_message\<close> is \<open>serdes::transport::encode\<close> (\<open>None\<close> is its error), \<open>write_all\<close> and
  \<open>flush_stream\<close> are the stream operations with the stream they leave and whether they succeeded.
\<close>

record ('sk, 'n, 'st) hub_env = "'sk codec" +
  id_order :: "BlockId fset \<Rightarrow> BlockId list"
  peer_order :: "'n fset \<Rightarrow> 'n list"
  txn_order :: "TransactionId fset \<Rightarrow> TransactionId list"
  write_all :: "'st \<Rightarrow> u8 list \<Rightarrow> 'st \<times> bool"
  flush_stream :: "'st \<Rightarrow> 'st \<times> bool"
  enc_message :: "'n PeerMessage \<Rightarrow> u8 list option"

text \<open>Iterating a set visits its elements, each once.\<close>

definition orders_ok :: "('sk, 'n, 'st) hub_env \<Rightarrow> bool" where
  "orders_ok env \<longleftrightarrow>
     (\<forall>A. set (id_order env A) = fset A \<and> distinct (id_order env A)) \<and>
     (\<forall>A. set (peer_order env A) = fset A \<and> distinct (peer_order env A)) \<and>
     (\<forall>A. set (txn_order env A) = fset A \<and> distinct (txn_order env A))"

section \<open>State\<close>

type_synonym BlockMap = "(BlockId, Block) fmap"
type_synonym NextBlocks = "(BlockId, BlockId fset) fmap"

record CashSet =
  cs_block_id :: BlockId
  cs_set :: "Cash fset"

definition CashSet_new :: "BlockId \<Rightarrow> CashSet" where
  "CashSet_new i = \<lparr>cs_block_id = i, cs_set = {||}\<rparr>"

record ('n, 'st) hub =
  cash_set :: CashSet
  hub_config :: Config
  genesis_id :: BlockId
  peers :: "('n, 'st) fmap"
  annoucements :: "(TransactionId, 'n) fmap"
  mempool :: "(TransactionId, Transaction) fmap"
  valid_blocks :: BlockMap
  unconfirmed_blocks :: BlockMap
  invalid_blocks :: "BlockId fset"
  next_blocks :: NextBlocks
  leading_block :: BlockId
  local_node_id :: 'n

definition hub_new :: "('sk, 'n, 'st) hub_env \<Rightarrow> 'n \<Rightarrow> Config \<Rightarrow> ('n, 'st) hub option" where
  "hub_new env local_id cfg = do {
     genesis_block \<leftarrow> create_genesis env (genesis_difficulty cfg) (genesis_timestamp cfg)
                        (initial_block_subsidy cfg);
     let gid = block_id env genesis_block;
     Some \<lparr>cash_set = CashSet_new gid, hub_config = cfg, genesis_id = gid,
           peers = fmempty, annoucements = fmempty, mempool = fmempty,
           valid_blocks = fmupd gid genesis_block fmempty, unconfirmed_blocks = fmempty,
           invalid_blocks = {||}, next_blocks = fmempty, leading_block = gid,
           local_node_id = local_id\<rparr> }"

section \<open>Reading the block maps\<close>

text \<open>
  \<open>block_root\<close> walks the unconfirmed blocks. The walk has no bound in the code, so it is a partial
  function: \<open>None\<close> is a walk that does not end.
\<close>

partial_function (option) block_root_loop ::
    "BlockId \<Rightarrow> BlockMap \<Rightarrow> BlockId \<Rightarrow> BlockId \<Rightarrow> BlockId option" where
  "block_root_loop gid unconfirmed bid current_id =
     (if current_id = gid then Some gid
      else case fmlookup unconfirmed current_id of
        Some b \<Rightarrow> block_root_loop gid unconfirmed bid (prev_id b)
      | None \<Rightarrow> Some bid)"

definition block_root :: "('n, 'st) hub \<Rightarrow> BlockId \<Rightarrow> BlockId option" where
  "block_root s bid = block_root_loop (genesis_id s) (unconfirmed_blocks s) bid bid"

definition knows_transaction :: "('n, 'st) hub \<Rightarrow> TransactionId \<Rightarrow> bool" where
  "knows_transaction s t \<longleftrightarrow> t |\<in>| fmdom (mempool s) \<or> t |\<in>| fmdom (annoucements s)"

definition leading_block_seqno :: "('n, 'st) hub \<Rightarrow> SequenceNo option" where
  "leading_block_seqno s = map_option seqno (fmlookup (valid_blocks s) (leading_block s))"

definition knows_block :: "('n, 'st) hub \<Rightarrow> BlockId \<Rightarrow> bool" where
  "knows_block s i \<longleftrightarrow>
     i |\<in>| fmdom (valid_blocks s) \<or> i |\<in>| fmdom (unconfirmed_blocks s) \<or> i |\<in>| invalid_blocks s"

text \<open>The iterator of \<open>ancestors_id\<close>, collected: \<open>None\<close> is an iteration that does not end.\<close>

partial_function (option) ancestors_id ::
    "('sk, 'z) codec_scheme \<Rightarrow> BlockMap \<Rightarrow> BlockId \<Rightarrow> BlockId list option" where
  "ancestors_id c blocks current_id =
     (case fmlookup blocks current_id of
        None \<Rightarrow> Some []
      | Some b \<Rightarrow> do {
          rest \<leftarrow> ancestors_id c blocks (prev_id b);
          Some (block_id c b # rest) })"

text \<open>
  The loop of \<open>confirmed_chain\<close> writes into an uninitialised slice. A write past its end panics;
  reading it while a slot is unwritten is undefined behaviour, here also \<open>None\<close>.
\<close>

partial_function (option) confirmed_loop ::
    "BlockMap \<Rightarrow> BlockId \<Rightarrow> Block option list \<Rightarrow> BlockId \<Rightarrow> Block option list option" where
  "confirmed_loop blocks gid slots bid =
     (case fmlookup blocks bid of
        None \<Rightarrow> None
      | Some b \<Rightarrow>
          (if length slots \<le> unat (seqno b) then None
           else if bid = gid then Some (slots[unat (seqno b) := Some b])
           else confirmed_loop blocks gid (slots[unat (seqno b) := Some b]) (prev_id b)))"

declare block_root_loop.simps [code] ancestors_id.simps [code] confirmed_loop.simps [code]

definition assume_init :: "'a option list \<Rightarrow> 'a list option" where
  "assume_init slots = (if None \<in> set slots then None else Some (map the slots))"

definition confirmed_chain :: "('n, 'st) hub \<Rightarrow> Block list option" where
  "confirmed_chain s = do {
     n \<leftarrow> leading_block_seqno s;
     len \<leftarrow> checked_add n 1;
     slots \<leftarrow> confirmed_loop (valid_blocks s) (genesis_id s) (replicate (unat len) None)
               (leading_block s);
     assume_init slots }"

text \<open>\<open>iter().enumerate().find(..)\<close>: the index of the first block with the transaction.\<close>

fun find_index :: "('a \<Rightarrow> bool) \<Rightarrow> nat \<Rightarrow> 'a list \<Rightarrow> nat option" where
  "find_index P i [] = None"
| "find_index P i (x # xs) = (if P x then Some i else find_index P (Suc i) xs)"

definition transaction_depth ::
    "('sk, 'z) codec_scheme \<Rightarrow> Block list \<Rightarrow> TransactionId \<Rightarrow> u64 option" where
  "transaction_depth c chain t =
     map_option (\<lambda>i. of_nat (length chain - 1 - i))
       (find_index (\<lambda>b. list_ex (\<lambda>txn. txn_id c txn = t) (transactions b)) 0 chain)"

definition prev_difficulty_adjusted_block ::
    "('n, 'st) hub \<Rightarrow> SequenceNo \<Rightarrow> Block option" where
  "prev_difficulty_adjusted_block s n = do {
     chain \<leftarrow> confirmed_chain s;
     rewind \<leftarrow> checked_rem n (difficulty_adjustment_period (hub_config s));
     let rewind_number = (if rewind = 0 then difficulty_adjustment_period (hub_config s) else rewind);
     i \<leftarrow> checked_sub n rewind_number;
     (if unat i < length chain then Some (chain ! unat i) else None) }"

section \<open>The valid blocks as a chain store\<close>

text \<open>
  The invariant of the valid blocks: they are stored under their own identifier; genesis is among
  them at height 0 and its parent is not; every other one has its parent among them, one below and
  not later.
\<close>

definition blocks_inv :: "('sk, 'z) codec_scheme \<Rightarrow> BlockMap \<Rightarrow> BlockId \<Rightarrow> bool" where
  "blocks_inv c blocks gid \<longleftrightarrow>
     (\<forall>i b. fmlookup blocks i = Some b \<longrightarrow> block_id c b = i) \<and>
     (\<exists>g. fmlookup blocks gid = Some g \<and> seqno g = 0 \<and> fmlookup blocks (prev_id g) = None) \<and>
     (\<forall>i b. fmlookup blocks i = Some b \<longrightarrow> i \<noteq> gid \<longrightarrow>
        (\<exists>p. fmlookup blocks (prev_id b) = Some p \<and> unat (seqno b) = Suc (unat (seqno p)) \<and>
             timestamp p \<le> timestamp b))"

type_synonym chain_view = "BlockMap \<times> BlockId"

definition view_inv :: "('sk, 'z) codec_scheme \<Rightarrow> chain_view \<Rightarrow> bool" where
  "view_inv c v \<longleftrightarrow> blocks_inv c (fst v) (snd v)"

abbreviation height :: "Block \<Rightarrow> nat" where "height b \<equiv> unat (seqno b)"

interpretation blocks: chain_store "view_inv c" "\<lambda>v. fmlookup (fst v)" prev_id height snd for c
  by unfold_locales (fastforce simp: view_inv_def blocks_inv_def)+

text \<open>The branch of a block: the blocks from genesis to it.\<close>

definition branch :: "BlockMap \<Rightarrow> BlockId \<Rightarrow> Block list" where
  "branch blocks i = path_to (fmlookup blocks) prev_id height i"

lemma blocks_inv_id: "blocks_inv c m g \<Longrightarrow> fmlookup m i = Some b \<Longrightarrow> block_id c b = i"
  by (auto simp: blocks_inv_def)

lemma blocks_inv_genesis:
  "blocks_inv c m g \<Longrightarrow> \<exists>b. fmlookup m g = Some b \<and> seqno b = 0 \<and> fmlookup m (prev_id b) = None"
  by (auto simp: blocks_inv_def)

lemma blocks_inv_parent:
  "blocks_inv c m g \<Longrightarrow> fmlookup m i = Some b \<Longrightarrow> i \<noteq> g \<Longrightarrow>
     \<exists>p. fmlookup m (prev_id b) = Some p \<and> height b = Suc (height p) \<and> timestamp p \<le> timestamp b"
  by (auto simp: blocks_inv_def)

lemmas branch_root =
  blocks.path_root [where s = "(m, g)" for m g, unfolded view_inv_def fst_conv snd_conv, folded branch_def]
lemmas branch_step =
  blocks.path_step [where s = "(m, g)" for m g, unfolded view_inv_def fst_conv snd_conv, folded branch_def]
lemmas branch_length =
  blocks.path_length [where s = "(m, g)" for m g, unfolded view_inv_def fst_conv snd_conv, folded branch_def]
lemmas branch_last =
  blocks.path_last [where s = "(m, g)" for m g, unfolded view_inv_def fst_conv snd_conv, folded branch_def]
lemmas branch_hd =
  blocks.path_hd [where s = "(m, g)" for m g, unfolded view_inv_def fst_conv snd_conv, folded branch_def]
lemmas branch_nth_height =
  blocks.path_nth_height [where s = "(m, g)" for m g, unfolded view_inv_def fst_conv snd_conv, folded branch_def]
lemmas branch_nth_parent =
  blocks.path_nth_parent [where s = "(m, g)" for m g, unfolded view_inv_def fst_conv snd_conv, folded branch_def]
lemmas branch_stored =
  blocks.path_stored [where s = "(m, g)" for m g, unfolded view_inv_def fst_conv snd_conv, folded branch_def]
lemmas branch_monotone =
  blocks.path_monotone [where s = "(m, g)" for m g, unfolded view_inv_def fst_conv snd_conv, folded branch_def]
lemmas branch_nonempty =
  blocks.path_nonempty [where s = "(m, g)" for m g, unfolded view_inv_def fst_conv snd_conv, folded branch_def]

text \<open>The two equations that unfold a branch.\<close>

lemmas branch_simps = branch_root branch_step

lemmas blocks_induct =
  blocks.chain_induct [where s = "(m, g)" for m g, unfolded view_inv_def fst_conv snd_conv,
    consumes 2, case_names root step]

end
