(* ===== verification/Chain_Walks.thy ===== *)
theory Chain_Walks
  imports Hub_State
begin

text \<open>
  What the chain walks of the hub compute: termination and result of \<open>ancestors_id\<close>,
  \<open>confirmed_chain\<close> (whose uninitialised slice is completely written), the difficulty reference
  block, the depth of a transaction and \<open>block_root\<close>.
\<close>

section \<open>\<open>ancestors_id\<close>\<close>

lemma ancestors_id_unknown: "fmlookup m i = None \<Longrightarrow> ancestors_id c m i = Some []"
  by (simp add: ancestors_id.simps)

lemma ancestors_id_branch:
  assumes "blocks_inv c m g" "fmlookup m i = Some b"
  shows "ancestors_id c m i = Some (rev (map (block_id c) (branch m i)))"
  using assms
proof (induction rule: blocks_induct)
  case (root r)
  then have "fmlookup m (prev_id r) = None" using blocks_inv_genesis [OF assms(1)] by auto
  then show ?case
    using root assms(1)
    by (simp add: ancestors_id.simps [of c m g] ancestors_id_unknown branch_simps blocks_inv_id)
next
  case (step i b p)
  with assms(1) show ?case
    by (simp add: ancestors_id.simps [of c m i] branch_simps blocks_inv_id)
qed

section \<open>\<open>confirmed_chain\<close>\<close>

lemma confirmed_loop_branch:
  assumes "blocks_inv c m g" "fmlookup m i = Some b"
  shows "height b < length slots \<Longrightarrow>
    confirmed_loop m g slots i = Some (map Some (branch m i) @ drop (Suc (height b)) slots)"
  using assms
proof (induction arbitrary: slots rule: blocks_induct)
  case (root r)
  then have "confirmed_loop m g slots g = Some (slots[0 := Some r])"
    by (subst confirmed_loop.simps) simp
  then show ?case
    using root assms(1) by (cases slots) (simp_all add: branch_simps)
next
  case (step i b p)
  let ?slots = "slots[height b := Some b]"
  have "confirmed_loop m g slots i = confirmed_loop m g ?slots (prev_id b)"
    using step by (subst confirmed_loop.simps) simp
  also have "\<dots> = Some (map Some (branch m (prev_id b)) @ drop (Suc (height p)) ?slots)"
    using step by simp
  also have "drop (Suc (height p)) ?slots = Some b # drop (Suc (height b)) slots"
    using step(4,6) by (simp add: Cons_nth_drop_Suc [symmetric])
  finally show ?case using assms(1) step by (simp add: branch_simps)
qed

lemma confirmed_chain_branch:
  assumes "blocks_inv c (valid_blocks s) (genesis_id s)"
    and "fmlookup (valid_blocks s) (leading_block s) = Some b" "seqno b \<noteq> - 1"
  shows "confirmed_chain s = Some (branch (valid_blocks s) (leading_block s))"
proof -
  have len: "checked_add (seqno b) 1 = Some (seqno b + 1)" "unat (seqno b + 1) = Suc (height b)"
    using unat_next [OF assms(3)] by (simp_all add: checked_add_Some)
  have "confirmed_loop (valid_blocks s) (genesis_id s) (replicate (Suc (height b)) None)
      (leading_block s) = Some (map Some (branch (valid_blocks s) (leading_block s)))"
    using confirmed_loop_branch [OF assms(1,2), of "replicate (Suc (height b)) None"] by simp
  then show ?thesis
    using assms(2) len
    by (auto simp: confirmed_chain_def leading_block_seqno_def assume_init_def comp_def)
qed

section \<open>The difficulty reference block\<close>

definition adjustment_height :: "Config \<Rightarrow> SequenceNo \<Rightarrow> nat" where
  "adjustment_height cfg n =
     unat n - (let r = unat n mod unat (difficulty_adjustment_period cfg)
               in if r = 0 then unat (difficulty_adjustment_period cfg) else r)"

lemma prev_difficulty_adjusted_block_branch:
  assumes "blocks_inv c (valid_blocks s) (genesis_id s)"
    and "fmlookup (valid_blocks s) (leading_block s) = Some b" "seqno b \<noteq> - 1"
    and "difficulty_adjustment_period (hub_config s) \<noteq> 0"
    and "0 < unat n" "unat n \<le> Suc (height b)"
  shows "prev_difficulty_adjusted_block s n =
    Some (branch (valid_blocks s) (leading_block s) ! adjustment_height (hub_config s) n)"
proof -
  let ?p = "difficulty_adjustment_period (hub_config s)"
  let ?w = "if n mod ?p = 0 then ?p else n mod ?p"
  have p: "0 < unat ?p" using assms(4) by (simp add: unat_gt_0)
  have zero: "n mod ?p = 0 \<longleftrightarrow> unat n mod unat ?p = 0"
    by (simp add: word_unat_eq_iff unat_mod)
  have le: "unat ?w \<le> unat n" "0 < unat ?w"
  proof -
    show "unat ?w \<le> unat n"
    proof (cases "n mod ?p = 0")
      case True
      with zero have "unat ?p dvd unat n" by auto
      then show ?thesis using True assms(5) by (simp add: dvd_imp_le)
    qed (simp add: unat_mod)
    show "0 < unat ?w" using p zero by (simp add: unat_mod)
  qed
  have w: "unat ?w = (if unat n mod unat ?p = 0 then unat ?p else unat n mod unat ?p)"
    using zero by (simp add: unat_mod)
  have sub: "checked_sub n ?w = Some (n - ?w)" "unat (n - ?w) = unat n - unat ?w"
    using le(1) by (simp_all add: checked_sub_def word_le_nat_alt unat_sub del: split_paired_All)
  have len: "length (branch (valid_blocks s) (leading_block s)) = Suc (height b)"
    using assms(1,2) by (rule branch_length)
  have "unat n - unat ?w < Suc (height b)" using le assms(5,6) by linarith
  moreover have "adjustment_height (hub_config s) n = unat n - unat ?w"
    by (simp add: adjustment_height_def w Let_def)
  ultimately show ?thesis
    using sub len assms(4)
    by (simp add: prev_difficulty_adjusted_block_def confirmed_chain_branch [OF assms(1-3)]
        checked_rem_def Let_def del: if_split)
qed

section \<open>The depth of a transaction\<close>

lemma find_index_Some:
  "find_index P i xs = Some j \<longleftrightarrow>
     i \<le> j \<and> j - i < length xs \<and> P (xs ! (j - i)) \<and> (\<forall>k < j - i. \<not> P (xs ! k))"
proof (induction xs arbitrary: i)
  case Nil
  then show ?case by simp
next
  case (Cons x xs)
  show ?case
  proof (cases "P x")
    case True
    then have "\<forall>k < j - i. \<not> P ((x # xs) ! k) \<Longrightarrow> j - i = 0" by (metis nth_Cons_0 gr0I)
    with True show ?thesis by auto
  next
    case False
    show ?thesis
    proof (cases "Suc i \<le> j")
      case le: True
      then obtain d where d: "j - i = Suc d" "j - Suc i = d" by (metis Suc_diff_Suc Suc_le_eq)
      show ?thesis using False le d by (auto simp: Cons.IH less_Suc_eq_0_disj)
    next
      case gt: False
      then show ?thesis using False by (auto simp: Cons.IH le_Suc_eq dest: le_antisym)
    qed
  qed
qed

lemma find_index_None: "find_index P i xs = None \<longleftrightarrow> (\<forall>x \<in> set xs. \<not> P x)"
  by (induction xs arbitrary: i) auto

definition has_txn :: "('sk, 'z) codec_scheme \<Rightarrow> TransactionId \<Rightarrow> Block \<Rightarrow> bool" where
  "has_txn c t b \<longleftrightarrow> (\<exists>txn \<in> set (transactions b). txn_id c txn = t)"

lemma transaction_depth_Some:
  assumes "length chain < 2 ^ 64"
  shows "transaction_depth c chain t = Some d \<longleftrightarrow>
    (\<exists>i < length chain. has_txn c t (chain ! i) \<and> (\<forall>k < i. \<not> has_txn c t (chain ! k)) \<and>
       i + unat d = length chain - 1)"
proof -
  have u: "unat (of_nat (length chain - 1 - i) :: u64) = length chain - 1 - i" for i
    using assms by (intro unat_of_nat_small) simp
  have P: "(\<lambda>b. list_ex (\<lambda>txn. txn_id c txn = t) (transactions b)) = has_txn c t"
    by (simp add: fun_eq_iff has_txn_def list_ex_iff)
  have d: "of_nat (length chain - 1 - i) = d \<longleftrightarrow> unat d = length chain - 1 - i" for i
    using u [of i] by (auto simp: word_unat_eq_iff simp del: of_nat_diff)
  have "transaction_depth c chain t = Some d \<longleftrightarrow>
      (\<exists>i. find_index (has_txn c t) 0 chain = Some i \<and> of_nat (length chain - 1 - i) = d)"
    by (simp add: transaction_depth_def P del: of_nat_diff)
  also have "\<dots> \<longleftrightarrow> (\<exists>i < length chain. has_txn c t (chain ! i) \<and>
      (\<forall>k < i. \<not> has_txn c t (chain ! k)) \<and> i + unat d = length chain - 1)"
    unfolding d by (auto simp: find_index_Some)
  finally show ?thesis .
qed

lemma transaction_depth_None:
  "transaction_depth c chain t = None \<longleftrightarrow> (\<forall>b \<in> set chain. \<not> has_txn c t b)"
  by (simp add: transaction_depth_def find_index_None list_ex_iff has_txn_def)

section \<open>\<open>block_root\<close>\<close>

lemma block_root_loop_result:
  assumes "block_root_loop gid m bid cur = Some r"
  shows "r = gid \<or> r = bid"
  by (rule block_root_loop.raw_induct
        [where P = "\<lambda>gid m bid cur r. r = gid \<or> r = bid", OF _ assms])
     (fastforce split: if_splits option.splits)

text \<open>The parent pointers among the unconfirmed blocks.\<close>

definition parent_rel :: "BlockMap \<Rightarrow> (BlockId \<times> BlockId) set" where
  "parent_rel m = {(prev_id b, i) | i b. fmlookup m i = Some b}"

lemma block_root_loop_returns:
  assumes "wf (parent_rel m)"
  shows "\<exists>r. block_root_loop gid m bid cur = Some r"
  using assms
proof (induction cur rule: wf_induct_rule)
  case (less cur)
  show ?case
  proof (cases "fmlookup m cur")
    case None
    then show ?thesis by (subst block_root_loop.simps) simp
  next
    case (Some b)
    then have "(prev_id b, cur) \<in> parent_rel m" by (auto simp: parent_rel_def)
    with less Some show ?thesis by (subst block_root_loop.simps) simp
  qed
qed

lemma block_root_loop_self_parent:
  assumes "fmlookup m i = Some b" "prev_id b = i" "i \<noteq> gid"
  shows "block_root_loop gid m bid i = None"
proof (rule ccontr)
  assume "block_root_loop gid m bid i \<noteq> None"
  then obtain r where r: "block_root_loop gid m bid i = Some r" by auto
  have "i = i \<longrightarrow> i \<noteq> gid \<longrightarrow> fmlookup m i = Some b \<longrightarrow> False"
  proof (rule block_root_loop.raw_induct [where P = "\<lambda>gid m bid cur r.
        cur = i \<longrightarrow> i \<noteq> gid \<longrightarrow> fmlookup m i = Some b \<longrightarrow> False", OF _ r], intro impI)
    fix f gid unconfirmed bid cur r
    assume IH: "\<And>gid unconfirmed bid cur r. f gid unconfirmed bid cur = Some r \<Longrightarrow>
        cur = i \<longrightarrow> i \<noteq> gid \<longrightarrow> fmlookup unconfirmed i = Some b \<longrightarrow> False"
      and eq: "(if cur = gid then Some gid
        else case fmlookup unconfirmed cur of None \<Rightarrow> Some bid
          | Some b \<Rightarrow> f gid unconfirmed bid (prev_id b)) = Some r"
      and i: "cur = i" "i \<noteq> gid" "fmlookup unconfirmed i = Some b"
    then have "f gid unconfirmed bid i = Some r" using assms(2) by simp
    from IH [OF this] i show False by blast
  qed
  with assms show False by simp
qed

end
