(* ===== verification/Cash_Set.thy ===== *)
theory Cash_Set
  imports Chain_Walks
begin

text \<open>
  \<open>cash_set_at\<close> of \<open>src/src/peerhub.rs\<close>: the set of unspent cash after a block, computed by undoing
  blocks back to a common ancestor and replaying the branch of the wanted block. The theory shows
  what the replay computes, that undoing is the inverse of replaying, and what the function returns
  in the states of the hub.
\<close>

section \<open>Doing and undoing\<close>

text \<open>
  The interface of a journal: every operation has an inverse that works on the states it can be
  applied to. Transactions and blocks are both journals over the cash set.
\<close>

fun journal_ok :: "('op \<Rightarrow> 's \<Rightarrow> bool) \<Rightarrow> ('op \<Rightarrow> 's \<Rightarrow> 's) \<Rightarrow> 'op list \<Rightarrow> 's \<Rightarrow> bool" where
  "journal_ok ok app [] s = True"
| "journal_ok ok app (x # xs) s = (ok x s \<and> journal_ok ok app xs (app x s))"

lemma journal_ok_append:
  "journal_ok ok app (xs @ ys) s \<longleftrightarrow> journal_ok ok app xs s \<and> journal_ok ok app ys (fold app xs s)"
  by (induction xs arbitrary: s) simp_all

locale journal =
  fixes app :: "'op \<Rightarrow> 's \<Rightarrow> 's"
    and unapp :: "'op \<Rightarrow> 's \<Rightarrow> 's"
    and ok :: "'op \<Rightarrow> 's \<Rightarrow> bool"
  assumes unapp_app: "ok x s \<Longrightarrow> unapp x (app x s) = s"
begin

lemma undo_all: "journal_ok ok app xs s \<Longrightarrow> fold unapp (rev xs) (fold app xs s) = s"
  by (induction xs arbitrary: s) (simp_all add: unapp_app)

end

section \<open>Definitions\<close>

definition spend :: "Cash \<Rightarrow> Cash fset \<Rightarrow> Cash fset" where
  "spend cash S = S |-| {|cash|}"

definition apply_txn :: "Transaction \<Rightarrow> Cash fset \<Rightarrow> Cash fset" where
  "apply_txn t S = fold finsert (outputs t) (fold spend (inputs t) S)"

definition apply_block :: "Block \<Rightarrow> Cash fset \<Rightarrow> Cash fset" where
  "apply_block b S = finsert (reward b) (fold apply_txn (transactions b) S)"

definition unapply_txn :: "Transaction \<Rightarrow> Cash fset \<Rightarrow> Cash fset" where
  "unapply_txn t S = fold finsert (rev (inputs t)) (fold spend (rev (outputs t)) S)"

definition unapply_block :: "Block \<Rightarrow> Cash fset \<Rightarrow> Cash fset" where
  "unapply_block b S = fold unapply_txn (rev (transactions b)) (spend (reward b) S)"

text \<open>
  The three loops. \<open>None\<close> is a loop that does not end; the \<open>?\<close> on an unknown block is the inner
  \<open>None\<close> of the first loop and the flag \<open>False\<close> of the other two, which have changed the set.
\<close>

partial_function (option) find_common ::
    "BlockMap \<Rightarrow> BlockId list \<Rightarrow> BlockId \<Rightarrow> BlockId option option" where
  "find_common blocks ancestors current_id =
     (if current_id \<in> set ancestors then Some (Some current_id)
      else case fmlookup blocks current_id of
        None \<Rightarrow> Some None
      | Some b \<Rightarrow> find_common blocks ancestors (prev_id b))"

partial_function (option) rewind_cash ::
    "BlockMap \<Rightarrow> BlockId \<Rightarrow> Cash fset \<Rightarrow> BlockId \<Rightarrow> (bool \<times> Cash fset) option" where
  "rewind_cash blocks common_ancestor S current_id =
     (if current_id = common_ancestor then Some (True, S)
      else case fmlookup blocks current_id of
        None \<Rightarrow> Some (False, S)
      | Some b \<Rightarrow> rewind_cash blocks common_ancestor (unapply_block b S) (prev_id b))"

declare find_common.simps [code] rewind_cash.simps [code]

fun replay_cash :: "BlockMap \<Rightarrow> BlockId list \<Rightarrow> Cash fset \<Rightarrow> bool \<times> Cash fset" where
  "replay_cash blocks [] S = (True, S)"
| "replay_cash blocks (i # is) S =
     (case fmlookup blocks i of
        None \<Rightarrow> (False, S)
      | Some b \<Rightarrow> replay_cash blocks is (apply_block b S))"

definition with_cash :: "Cash fset \<Rightarrow> ('n, 'st) hub \<Rightarrow> ('n, 'st) hub" where
  "with_cash S s = s\<lparr>cash_set := (cash_set s)\<lparr>cs_set := S\<rparr>\<rparr>"

definition cash_set_at ::
    "('sk, 'z) codec_scheme \<Rightarrow> ('n, 'st) hub \<Rightarrow> BlockId \<Rightarrow>
     (CashSet option \<times> ('n, 'st) hub) option" where
  "cash_set_at c s bid = do {
     up \<leftarrow> ancestors_id c (valid_blocks s) bid;
     let ancestors = rev up @ [bid];
     common \<leftarrow> find_common (valid_blocks s) ancestors (cs_block_id (cash_set s));
     (case common of
        None \<Rightarrow> Some (None, s)
      | Some common_ancestor \<Rightarrow> do {
          (rewound, S) \<leftarrow> rewind_cash (valid_blocks s) common_ancestor (cs_set (cash_set s))
                            (cs_block_id (cash_set s));
          (if \<not> rewound then Some (None, with_cash S s)
           else case find_index (\<lambda>i. i = common_ancestor) 0 ancestors of
             None \<Rightarrow> Some (None, with_cash S s)
           | Some k \<Rightarrow>
               (case replay_cash (valid_blocks s) (drop k ancestors) S of
                  (found, S') \<Rightarrow>
                    Some (if found then Some (cash_set (with_cash S' s)) else None,
                          with_cash S' s))) }) }"

section \<open>Undoing is the inverse of replaying\<close>

lemma fset_fold_finsert: "fset (fold finsert xs S) = set xs \<union> fset S"
  by (induction xs arbitrary: S) auto

lemma fset_fold_spend: "fset (fold spend xs S) = fset S - set xs"
  by (induction xs arbitrary: S) (auto simp: spend_def)

lemma fset_apply_txn: "fset (apply_txn t S) = set (outputs t) \<union> (fset S - set (inputs t))"
  by (simp add: apply_txn_def fset_fold_finsert fset_fold_spend)

lemma fset_unapply_txn: "fset (unapply_txn t S) = set (inputs t) \<union> (fset S - set (outputs t))"
  by (simp add: unapply_txn_def fset_fold_finsert fset_fold_spend)

text \<open>A transaction that spends cash of the set and creates cash that is not in it.\<close>

definition txn_fits :: "Transaction \<Rightarrow> Cash fset \<Rightarrow> bool" where
  "txn_fits t S \<longleftrightarrow> set (inputs t) \<subseteq> fset S \<and> set (outputs t) \<inter> fset S = {}"

interpretation txn_journal: journal apply_txn unapply_txn txn_fits
proof
  fix t S
  assume "txn_fits t S"
  then have "fset (unapply_txn t (apply_txn t S)) = fset S"
    by (auto simp: txn_fits_def fset_unapply_txn fset_apply_txn)
  then show "unapply_txn t (apply_txn t S) = S" by (simp add: fset_inject)
qed

definition block_fits :: "Block \<Rightarrow> Cash fset \<Rightarrow> bool" where
  "block_fits b S \<longleftrightarrow>
     journal_ok txn_fits apply_txn (transactions b) S \<and>
     reward b |\<notin>| fold apply_txn (transactions b) S"

interpretation block_journal: journal apply_block unapply_block block_fits
proof
  fix b S
  assume fits: "block_fits b S"
  then have "spend (reward b) (apply_block b S) = fold apply_txn (transactions b) S"
    by (auto simp: spend_def apply_block_def block_fits_def)
  with fits show "unapply_block b (apply_block b S) = S"
    by (simp add: unapply_block_def block_fits_def txn_journal.undo_all)
qed

text \<open>Rewinding from a block to one of its ancestors undoes the blocks in between.\<close>

lemma rewind_cash_undoes:
  assumes "blocks_inv c m g" "fmlookup m i = Some b"
  shows "branch m i = branch m a @ later \<Longrightarrow> fmlookup m a = Some x \<Longrightarrow>
    journal_ok block_fits apply_block later S \<Longrightarrow>
    rewind_cash m a (fold apply_block later S) i = Some (True, S)"
  using assms
proof (induction arbitrary: later rule: blocks_induct)
  case (root r)
  then have len: "length (branch m a) = Suc (height x)" using assms(1) by (simp add: branch_length)
  have "[r] = branch m a @ later" using root assms(1) by (simp add: branch_simps)
  with len have "later = []" "height x = 0" by (cases "branch m a"; simp)+
  moreover from this have "a = g"
    using blocks.height_zero [of c "(m, g)"] root assms(1) by (simp add: view_inv_def)
  ultimately show ?case by (simp add: rewind_cash.simps)
next
  case (step i b p)
  show ?case
  proof (cases "i = a")
    case True
    with step have "later = []" by simp
    with True show ?thesis by (simp add: rewind_cash.simps)
  next
    case False
    have lasts: "last (branch m i) = b" "last (branch m a) = x"
      using branch_last [OF assms(1) step(1)] branch_last [OF assms(1) step(7)] by auto
    have "later \<noteq> []"
    proof
      assume "later = []"
      with step(6) lasts have "b = x" by simp
      then show False using step(1,7) False assms(1) by (auto dest: blocks_inv_id)
    qed
    then obtain before where later: "later = before @ [b]"
      using step(6) lasts by (metis append_butlast_last_id last_appendR)
    with step(6) step assms(1) have before: "branch m (prev_id b) = branch m a @ before"
      by (simp add: branch_simps)
    have ok: "journal_ok block_fits apply_block before S" "block_fits b (fold apply_block before S)"
      using step(8) later by (simp_all add: journal_ok_append)
    have "rewind_cash m a (fold apply_block later S) i =
        rewind_cash m a (unapply_block b (fold apply_block later S)) (prev_id b)"
      using False step(1) by (subst rewind_cash.simps) simp
    also have "unapply_block b (fold apply_block later S) = fold apply_block before S"
      using ok(2) later by (simp add: block_journal.unapp_app)
    also have "rewind_cash m a (fold apply_block before S) (prev_id b) = Some (True, S)"
      using step(5) [OF before step(7) ok(1)] .
    finally show ?thesis .
  qed
qed

section \<open>What replaying computes\<close>

text \<open>
  A block as the list of its insertions (\<open>True\<close>) and removals (\<open>False\<close>): what happens to a piece
  of cash is decided by the last operation on it.
\<close>

definition txn_ops :: "Transaction \<Rightarrow> (Cash \<times> bool) list" where
  "txn_ops t = map (\<lambda>i. (i, False)) (inputs t) @ map (\<lambda>out. (out, True)) (outputs t)"

definition block_ops :: "Block \<Rightarrow> (Cash \<times> bool) list" where
  "block_ops b = concat (map txn_ops (transactions b)) @ [(reward b, True)]"

definition run_op :: "Cash \<times> bool \<Rightarrow> Cash fset \<Rightarrow> Cash fset" where
  "run_op x S = (if snd x then finsert (fst x) S else spend (fst x) S)"

lemma run_op_pair: "run_op (x, True) = finsert x" "run_op (x, False) = spend x"
  by (simp_all add: run_op_def fun_eq_iff)

lemma run_txn_ops: "fold run_op (txn_ops t) S = apply_txn t S"
  by (simp add: txn_ops_def apply_txn_def fold_map comp_def run_op_pair)

lemma run_block_ops: "fold run_op (block_ops b) S = apply_block b S"
proof -
  have "fold run_op (concat (map txn_ops ts)) S = fold apply_txn ts S" for ts
    by (induction ts arbitrary: S) (simp_all add: run_txn_ops)
  then show ?thesis by (simp add: block_ops_def apply_block_def run_op_def)
qed

lemma run_blocks: "fold apply_block bs S = fold run_op (concat (map block_ops bs)) S"
  by (induction bs arbitrary: S) (simp_all add: run_block_ops)

definition final_op :: "(Cash \<times> bool) list \<Rightarrow> Cash \<Rightarrow> bool option" where
  "final_op ops x = map_of (rev ops) x"

lemma member_fold_run_op:
  "x |\<in>| fold run_op ops S \<longleftrightarrow> (case final_op ops x of Some k \<Rightarrow> k | None \<Rightarrow> x |\<in>| S)"
  by (induction ops rule: rev_induct)
     (auto simp: final_op_def run_op_def spend_def split: option.splits)

lemma final_op_None: "final_op ops x = None \<longleftrightarrow> x \<notin> fst ` set ops"
  by (simp add: final_op_def map_of_eq_None_iff)

lemma final_op_append:
  "final_op (xs @ ys) x = (case final_op ys x of Some k \<Rightarrow> Some k | None \<Rightarrow> final_op xs x)"
  by (simp add: final_op_def map_add_def split: option.splits)

text \<open>Replaying the last block once more changes nothing.\<close>

lemma apply_block_again: "apply_block b (apply_block b S) = apply_block b S"
proof -
  have "fset (apply_block b (apply_block b S)) = fset (apply_block b S)"
    by (auto simp: run_block_ops [symmetric] member_fold_run_op split: option.splits)
  then show ?thesis by (simp add: fset_inject)
qed

text \<open>The unspent cash of a branch, and all cash the branch mentions.\<close>

definition unspent :: "Block list \<Rightarrow> Cash fset" where
  "unspent bs = fold apply_block bs {||}"

definition touched :: "Block list \<Rightarrow> Cash set" where
  "touched bs = (\<Union>b \<in> set bs. insert (reward b)
     (\<Union>t \<in> set (transactions b). set (inputs t) \<union> set (outputs t)))"

lemma touched_ops: "fst ` set (concat (map block_ops bs)) = touched bs"
  by (force simp: touched_def block_ops_def txn_ops_def image_Un image_UN)

lemma replay_members:
  "fset (fold apply_block bs S) = fset (unspent bs) \<union> (fset S - touched bs)"
proof -
  let ?ops = "concat (map block_ops bs)"
  have "x |\<in>| fold apply_block bs S \<longleftrightarrow> x |\<in>| unspent bs \<or> x |\<in>| S \<and> x \<notin> touched bs" for x
  proof -
    have "final_op ?ops x = None \<longleftrightarrow> x \<notin> touched bs" by (simp only: final_op_None touched_ops)
    then show ?thesis by (cases "final_op ?ops x") (simp_all add: unspent_def run_blocks member_fold_run_op)
  qed
  then show ?thesis by auto
qed

lemma replay_cash_known:
  "list_all2 (\<lambda>i b. fmlookup m i = Some b) is bs \<Longrightarrow>
     replay_cash m is S = (True, fold apply_block bs S)"
  by (induction "is" bs arbitrary: S rule: list_all2_induct) auto

section \<open>\<open>cash_set_at\<close> in the states of the hub\<close>

text \<open>
  The hub never moves the cash set: its block stays genesis. From there the function always replays
  the whole branch, from genesis, over the set it had.
\<close>

lemma cash_set_at_replays:
  assumes inv: "blocks_inv c (valid_blocks s) (genesis_id s)"
    and known: "fmlookup (valid_blocks s) bid = Some b"
    and at_genesis: "cs_block_id (cash_set s) = genesis_id s"
  shows "cash_set_at c s bid =
    (let S = fold apply_block (branch (valid_blocks s) bid) (cs_set (cash_set s))
     in Some (Some (cash_set (with_cash S s)), with_cash S s))"
proof -
  let ?m = "valid_blocks s" and ?g = "genesis_id s"
  let ?br = "branch ?m bid" and ?S = "cs_set (cash_set s)"
  let ?anc = "map (block_id c) ?br @ [bid]"
  obtain gb where gb: "fmlookup ?m ?g = Some gb" using blocks_inv_genesis [OF inv] by blast
  have ne: "?br \<noteq> []" using inv known by (rule branch_nonempty)
  have "block_id c (hd ?br) = ?g" using branch_hd [OF inv known] inv by (rule blocks_inv_id [rotated])
  then obtain rest where anc: "?anc = ?g # rest" using ne by (cases ?br) auto
  have "\<forall>x \<in> set ?br. fmlookup ?m (block_id c x) = Some x"
    using branch_stored [OF inv known] blocks_inv_id [OF inv] by auto
  then have "list_all2 (\<lambda>i x. fmlookup ?m i = Some x) (map (block_id c) ?br) ?br"
    by (auto simp: list_all2_conv_all_nth)
  with known have "list_all2 (\<lambda>i x. fmlookup ?m i = Some x) ?anc (?br @ [b])"
    by (auto intro: list_all2_appendI)
  then have "replay_cash ?m ?anc ?S = (True, apply_block b (fold apply_block ?br ?S))"
    by (simp add: replay_cash_known)
  moreover have "apply_block b (fold apply_block ?br ?S) = fold apply_block ?br ?S"
  proof -
    have "?br = butlast ?br @ [b]" using ne branch_last [OF inv known] by (metis append_butlast_last_id)
    then have "fold apply_block ?br ?S = apply_block b (fold apply_block (butlast ?br) ?S)"
      by (metis fold_simps fold_append comp_apply)
    then show ?thesis by (simp add: apply_block_again)
  qed
  ultimately have replay: "replay_cash ?m ?anc ?S = (True, fold apply_block ?br ?S)" by simp
  have walk: "ancestors_id c ?m bid = Some (rev (map (block_id c) ?br))"
    using inv known by (rule ancestors_id_branch)
  have common: "find_common ?m ?anc ?g = Some (Some ?g)"
    using anc by (subst find_common.simps) simp
  have index: "find_index (\<lambda>i. i = ?g) 0 ?anc = Some 0" using anc by simp
  show ?thesis
    by (simp add: cash_set_at_def walk at_genesis common index replay Let_def
        rewind_cash.simps [of ?m ?g ?S ?g] del: append.simps)
qed

lemma cash_set_at_frame:
  assumes "cash_set_at c s bid = Some (r, s')"
  shows "\<exists>S. s' = with_cash S s"
proof -
  obtain up common where walk: "ancestors_id c (valid_blocks s) bid = Some up"
      "find_common (valid_blocks s) (rev up @ [bid]) (cs_block_id (cash_set s)) = Some common"
    using assms by (auto simp: cash_set_at_def Let_def simp del: append.simps)
  have same: "s = with_cash (cs_set (cash_set s)) s" by (simp add: with_cash_def)
  show ?thesis
  proof (cases common)
    case None
    with assms walk same show ?thesis by (auto simp: cash_set_at_def Let_def)
  next
    case (Some ca)
    with assms walk obtain ok S where rw: "rewind_cash (valid_blocks s) ca (cs_set (cash_set s))
        (cs_block_id (cash_set s)) = Some (ok, S)"
      by (auto simp: cash_set_at_def Let_def)
    show ?thesis
    proof (cases "find_index (\<lambda>i. i = ca) 0 (rev up @ [bid])")
      case None
      with assms walk Some rw show ?thesis
        by (auto simp: cash_set_at_def Let_def split: if_splits)
    next
      case (Some k)
      with assms walk \<open>common = Some ca\<close> rw show ?thesis
        by (cases "replay_cash (valid_blocks s) (drop k (rev up @ [bid])) S")
           (auto simp: cash_set_at_def Let_def split: if_splits)
    qed
  qed
qed

lemma with_cash_sel [simp]:
  "cs_block_id (cash_set (with_cash S s)) = cs_block_id (cash_set s)"
  "cs_set (cash_set (with_cash S s)) = S"
  "hub_config (with_cash S s) = hub_config s"
  "genesis_id (with_cash S s) = genesis_id s"
  "peers (with_cash S s) = peers s"
  "annoucements (with_cash S s) = annoucements s"
  "mempool (with_cash S s) = mempool s"
  "valid_blocks (with_cash S s) = valid_blocks s"
  "unconfirmed_blocks (with_cash S s) = unconfirmed_blocks s"
  "invalid_blocks (with_cash S s) = invalid_blocks s"
  "next_blocks (with_cash S s) = next_blocks s"
  "leading_block (with_cash S s) = leading_block s"
  "local_node_id (with_cash S s) = local_node_id s"
  by (simp_all add: with_cash_def)

end
