(* ===== verification/Validation.thy ===== *)
theory Validation
  imports Cash_Set
begin

text \<open>
  Block validation of \<open>src/src/peerhub.rs\<close>: \<open>add_invalid_block\<close>, \<open>add_valid_block\<close> and
  \<open>validate_block\<close>, which call each other recursively over the blocks that wait for a block. The
  recursion is total here (each call removes a waiting entry or an unconfirmed block); \<open>None\<close> is a
  panic, or a chain walk that does not end.
\<close>

section \<open>Invalid blocks and those that wait for them\<close>

text \<open>\<open>next_blocks.remove(&id).unwrap_or_default()\<close>, in iteration order.\<close>

definition next_children :: "(BlockId fset \<Rightarrow> BlockId list) \<Rightarrow> NextBlocks \<Rightarrow> BlockId \<Rightarrow> BlockId list" where
  "next_children ord nxt i = (case fmlookup nxt i of None \<Rightarrow> [] | Some A \<Rightarrow> ord A)"

text \<open>
  The loop \<open>for next_block_id in ..\<close> of \<open>add_invalid_block\<close>, with the recursive call of its body
  unfolded: mark the block, remove what waits for it, loop over that.
\<close>

function invalidate_all ::
    "(BlockId fset \<Rightarrow> BlockId list) \<Rightarrow> BlockId fset \<times> NextBlocks \<Rightarrow> BlockId list \<Rightarrow>
     BlockId fset \<times> NextBlocks" where
  "invalidate_all ord (bad, nxt) [] = (bad, nxt)"
| "invalidate_all ord (bad, nxt) (i # is) =
     invalidate_all ord
       (invalidate_all ord (finsert i bad, fmdrop i nxt) (next_children ord nxt i)) is"
  by pat_completeness auto

lemma invalidate_all_shrinks:
  assumes "invalidate_all_dom (ord, st, is)"
  shows "fset (fmdom (snd (invalidate_all ord st is))) \<subseteq> fset (fmdom (snd st))"
  using assms
proof (induction rule: invalidate_all.pinduct)
  case (1 ord bad nxt)
  then show ?case by (simp add: invalidate_all.psimps)
next
  case (2 ord bad nxt i "is")
  then show ?case by (auto simp: invalidate_all.psimps)
qed

termination invalidate_all
proof (relation "measures [\<lambda>(ord, st, is). fcard (fmdom (snd st)), \<lambda>(ord, st, is). length is]",
    goal_cases)
  case 1
  then show ?case by simp
next
  case (2 ord bad nxt i "is")
  show ?case
  proof (cases "fmlookup nxt i")
    case None
    then have "fmdrop i nxt = nxt" by (simp add: fmdrop_idle fmdom_notI)
    with None show ?thesis by (simp add: next_children_def)
  next
    case (Some A)
    then show ?thesis using fcard_fmdom_drop [OF Some] by simp
  qed
next
  case (3 ord bad nxt i "is")
  have "fset (fmdom (snd (invalidate_all ord (finsert i bad, fmdrop i nxt) (next_children ord nxt i))))
      \<subseteq> fset (fmdom nxt)"
    using invalidate_all_shrinks [OF 3] by auto
  then have "fcard (fmdom (snd (invalidate_all ord (finsert i bad, fmdrop i nxt)
      (next_children ord nxt i)))) \<le> fcard (fmdom nxt)"
    by (simp add: fcard.rep_eq card_mono)
  then show ?case by auto
qed

definition add_invalid_block ::
    "(BlockId fset \<Rightarrow> BlockId list) \<Rightarrow> BlockId fset \<Rightarrow> NextBlocks \<Rightarrow> BlockId \<Rightarrow>
     BlockId fset \<times> NextBlocks" where
  "add_invalid_block ord bad nxt i =
     invalidate_all ord (finsert i bad, fmdrop i nxt) (next_children ord nxt i)"

text \<open>The loop calls \<open>add_invalid_block\<close> on each element.\<close>

lemma invalidate_all_Cons:
  "invalidate_all ord (bad, nxt) (i # is) =
     (case add_invalid_block ord bad nxt i of (bad', nxt') \<Rightarrow> invalidate_all ord (bad', nxt') is)"
  by (simp add: add_invalid_block_def)

definition reject :: "('sk, 'n, 'st) hub_env \<Rightarrow> ('n, 'st) hub \<Rightarrow> BlockId \<Rightarrow> ('n, 'st) hub" where
  "reject env s i =
     (case add_invalid_block (id_order env) (invalid_blocks s) (next_blocks s) i of
        (bad, nxt) \<Rightarrow> s\<lparr>invalid_blocks := bad, next_blocks := nxt\<rparr>)"

section \<open>The checks of \<open>validate_block\<close>\<close>

datatype verdict = Accepted | Rejected | Ambiguous

definition expected_difficulty :: "('n, 'st) hub \<Rightarrow> Block \<Rightarrow> Block \<Rightarrow> Difficulty option" where
  "expected_difficulty s b prev = do {
     r \<leftarrow> checked_rem (seqno b) (difficulty_adjustment_period (hub_config s));
     (if r = 0 then do {
        adjusted \<leftarrow> prev_difficulty_adjusted_block s (seqno b);
        span \<leftarrow> checked_sub (timestamp b) (timestamp adjusted);
        adjust_with_actual_span (difficulty prev) span (hub_config s) }
      else Some (difficulty prev)) }"

definition expected_reward :: "Config \<Rightarrow> Block \<Rightarrow> u64 option" where
  "expected_reward cfg b = do {
     subsidy \<leftarrow> block_subsidy cfg (seqno b);
     fees \<leftarrow> total_fees (transactions b);
     checked_add fees subsidy }"

definition missing_input :: "Cash fset \<Rightarrow> Block \<Rightarrow> bool" where
  "missing_input S b \<longleftrightarrow> list_ex (\<lambda>t. list_ex (\<lambda>i. i |\<notin>| S) (inputs t)) (transactions b)"

definition put_aside :: "('sk, 'n, 'st) hub_env \<Rightarrow> ('n, 'st) hub \<Rightarrow> Block \<Rightarrow> ('n, 'st) hub" where
  "put_aside env s b =
     s\<lparr>next_blocks := fmupd (prev_id b)
          (finsert (block_id env b)
            (case fmlookup (next_blocks s) (prev_id b) of None \<Rightarrow> {||} | Some A \<Rightarrow> A))
          (next_blocks s),
       unconfirmed_blocks := fmupd (block_id env b) b (unconfirmed_blocks s)\<rparr>"

text \<open>The checks that need the cash set before the block: inputs and reward.\<close>

definition check_cash ::
    "('sk, 'n, 'st) hub_env \<Rightarrow> ('n, 'st) hub \<Rightarrow> Block \<Rightarrow> (verdict \<times> ('n, 'st) hub) option" where
  "check_cash env s b = do {
     (found, s1) \<leftarrow> cash_set_at env s (prev_id b);
     (case found of
        None \<Rightarrow> Some (Rejected, reject env s1 (block_id env b))
      | Some cash \<Rightarrow>
          if missing_input (cs_set cash) b then Some (Rejected, reject env s1 (block_id env b))
          else do {
            rew \<leftarrow> expected_reward (hub_config s1) b;
            Some (if amount (reward b) \<noteq> rew then (Rejected, reject env s1 (block_id env b))
                  else (Accepted, s1)) }) }"

definition check_block ::
    "('sk, 'n, 'st) hub_env \<Rightarrow> ('n, 'st) hub \<Rightarrow> Block \<Rightarrow> (verdict \<times> ('n, 'st) hub) option" where
  "check_block env s b =
     (case fmlookup (valid_blocks s) (prev_id b) of
        None \<Rightarrow> Some (Ambiguous, put_aside env s b)
      | Some prev \<Rightarrow>
          if timestamp b < timestamp prev then Some (Rejected, reject env s (block_id env b))
          else do {
            n \<leftarrow> checked_add (seqno prev) 1;
            (if seqno b \<noteq> n then Some (Rejected, reject env s (block_id env b))
             else do {
               d \<leftarrow> expected_difficulty s b prev;
               (if difficulty b \<noteq> d then Some (Rejected, reject env s (block_id env b))
                else check_cash env s b) }) })"

section \<open>\<open>add_valid_block\<close> and \<open>validate_block\<close>\<close>

text \<open>The part of \<open>add_valid_block\<close> before its loop: the identifiers to loop over and the state.\<close>

definition enter_block ::
    "('sk, 'n, 'st) hub_env \<Rightarrow> ('n, 'st) hub \<Rightarrow> Block \<Rightarrow> (BlockId list \<times> ('n, 'st) hub) option" where
  "enter_block env s b = do {
     let s1 = s\<lparr>mempool := fmfilter (\<lambda>t. \<not> list_ex (\<lambda>x. txn_id env x = t) (transactions b)) (mempool s),
                valid_blocks := fmupd (block_id env b) b (valid_blocks s)\<rparr>;
     lead \<leftarrow> leading_block_seqno s1;
     let s2 = (if lead < seqno b then s1\<lparr>leading_block := block_id env b\<rparr> else s1);
     Some (next_children (id_order env) (next_blocks s2) (block_id env b),
           s2\<lparr>next_blocks := fmdrop (block_id env b) (next_blocks s2)\<rparr>) }"

definition take_unconfirmed :: "BlockId \<Rightarrow> ('n, 'st) hub \<Rightarrow> ('n, 'st) hub" where
  "take_unconfirmed i s = s\<lparr>unconfirmed_blocks := fmdrop i (unconfirmed_blocks s)\<rparr>"

text \<open>
  The loop of \<open>add_valid_block\<close> over the waiting blocks, with the body of the recursive call to
  \<open>validate_block\<close> (and the call it makes to \<open>add_valid_block\<close>) unfolded; lemma
  \<open>validate_next_Cons\<close> below folds it back.
\<close>

function validate_next ::
    "('sk, 'n, 'st) hub_env \<Rightarrow> ('n, 'st) hub \<Rightarrow> BlockId list \<Rightarrow>
     (BlockId list \<times> ('n, 'st) hub) option" where
  "validate_next env s [] = Some ([], s)"
| "validate_next env s (i # is) =
     (case fmlookup (unconfirmed_blocks s) i of
        None \<Rightarrow> validate_next env s is
      | Some b \<Rightarrow> do {
          (v, s1) \<leftarrow> check_block env (take_unconfirmed i s) b;
          (ids, s2) \<leftarrow>
            (case v of
               Accepted \<Rightarrow> do {
                 (waiting, s3) \<leftarrow> enter_block env s1 b;
                 (more, s4) \<leftarrow> validate_next env s3 waiting;
                 Some (block_id env b # more, s4) }
             | _ \<Rightarrow> Some ([], s1));
          (rest, s5) \<leftarrow> validate_next env s2 is;
          Some (ids @ rest, s5) })"
  by pat_completeness auto

subsection \<open>Termination\<close>

lemma reject_sel [simp]:
  "cash_set (reject env s i) = cash_set s"
  "hub_config (reject env s i) = hub_config s"
  "genesis_id (reject env s i) = genesis_id s"
  "peers (reject env s i) = peers s"
  "annoucements (reject env s i) = annoucements s"
  "mempool (reject env s i) = mempool s"
  "valid_blocks (reject env s i) = valid_blocks s"
  "unconfirmed_blocks (reject env s i) = unconfirmed_blocks s"
  "leading_block (reject env s i) = leading_block s"
  "local_node_id (reject env s i) = local_node_id s"
  by (simp_all add: reject_def split: prod.splits)

lemma take_unconfirmed_sel [simp]:
  "cash_set (take_unconfirmed i s) = cash_set s"
  "hub_config (take_unconfirmed i s) = hub_config s"
  "genesis_id (take_unconfirmed i s) = genesis_id s"
  "peers (take_unconfirmed i s) = peers s"
  "annoucements (take_unconfirmed i s) = annoucements s"
  "mempool (take_unconfirmed i s) = mempool s"
  "valid_blocks (take_unconfirmed i s) = valid_blocks s"
  "unconfirmed_blocks (take_unconfirmed i s) = fmdrop i (unconfirmed_blocks s)"
  "invalid_blocks (take_unconfirmed i s) = invalid_blocks s"
  "next_blocks (take_unconfirmed i s) = next_blocks s"
  "leading_block (take_unconfirmed i s) = leading_block s"
  "local_node_id (take_unconfirmed i s) = local_node_id s"
  by (simp_all add: take_unconfirmed_def)

text \<open>What a check leaves behind, by verdict.\<close>

lemma check_cash_Some:
  "check_cash env s b = Some (v, s1) \<longleftrightarrow>
     (\<exists>found s0. cash_set_at env s (prev_id b) = Some (found, s0) \<and>
       (case found of
          None \<Rightarrow> v = Rejected \<and> s1 = reject env s0 (block_id env b)
        | Some cash \<Rightarrow>
            if missing_input (cs_set cash) b
            then v = Rejected \<and> s1 = reject env s0 (block_id env b)
            else (\<exists>rew. expected_reward (hub_config s0) b = Some rew \<and>
              (if amount (reward b) = rew then v = Accepted \<and> s1 = s0
               else v = Rejected \<and> s1 = reject env s0 (block_id env b)))))"
proof (cases "cash_set_at env s (prev_id b)")
  case None
  then show ?thesis by (simp add: check_cash_def)
next
  case (Some p)
  obtain found s0 where p: "p = (found, s0)" by (cases p)
  show ?thesis
    using Some p
    by (cases found; cases "expected_reward (hub_config s0) b") (auto simp: check_cash_def)
qed

lemma check_cash_cases:
  assumes "check_cash env s b = Some (v, s1)"
  shows "\<exists>S. (v = Rejected \<and> s1 = reject env (with_cash S s) (block_id env b)) \<or>
    (v = Accepted \<and> s1 = with_cash S s)"
  using assms unfolding check_cash_Some
  by (auto dest!: cash_set_at_frame split: option.splits if_splits)

lemma check_block_cases:
  assumes "check_block env s b = Some (v, s1)"
  shows "(v = Ambiguous \<and> fmlookup (valid_blocks s) (prev_id b) = None \<and> s1 = put_aside env s b) \<or>
    (v = Rejected \<and> fmlookup (valid_blocks s) (prev_id b) \<noteq> None \<and>
       (\<exists>S. s1 = reject env (with_cash S s) (block_id env b))) \<or>
    (v = Accepted \<and> fmlookup (valid_blocks s) (prev_id b) \<noteq> None \<and> (\<exists>S. s1 = with_cash S s))"
proof (cases "fmlookup (valid_blocks s) (prev_id b)")
  case None
  with assms show ?thesis by (simp add: check_block_def)
next
  case (Some prev)
  have "s = with_cash (cs_set (cash_set s)) s" by (simp add: with_cash_def)
  then have kept: "\<exists>S. reject env s i = reject env (with_cash S s) i" for i by metis
  from Some assms have "(v = Rejected \<and> s1 = reject env s (block_id env b)) \<or>
      check_cash env s b = Some (v, s1)"
    by (auto simp: check_block_def split: if_splits)
  with kept Some show ?thesis using check_cash_cases [of env s b v s1] by blast
qed

lemma enter_block_unconfirmed:
  "enter_block env s b = Some (w, s1) \<Longrightarrow> unconfirmed_blocks s1 = unconfirmed_blocks s"
  by (auto simp: enter_block_def Let_def)

lemma check_block_unconfirmed:
  assumes "check_block env (take_unconfirmed i s) b = Some (v, s1)"
    and "fmlookup (unconfirmed_blocks s) i = Some b"
  shows "v \<noteq> Ambiguous \<Longrightarrow> fcard (fmdom (unconfirmed_blocks s1)) < fcard (fmdom (unconfirmed_blocks s))"
    and "fcard (fmdom (unconfirmed_blocks s1)) \<le> fcard (fmdom (unconfirmed_blocks s))"
proof -
  note drop = fcard_fmdom_drop [OF assms(2)]
  show "fcard (fmdom (unconfirmed_blocks s1)) < fcard (fmdom (unconfirmed_blocks s))" if "v \<noteq> Ambiguous"
    using check_block_cases [OF assms(1)] that drop by auto
  have "fcard (finsert x A) \<le> Suc (fcard A)" for x :: BlockId and A
    by (simp add: fcard_finsert_if)
  with drop have "fcard (finsert x (fmdom (fmdrop i (unconfirmed_blocks s)))) \<le>
      fcard (fmdom (unconfirmed_blocks s))" for x
    by (meson Suc_leI order_trans)
  with drop show "fcard (fmdom (unconfirmed_blocks s1)) \<le> fcard (fmdom (unconfirmed_blocks s))"
    using check_block_cases [OF assms(1)]
    by (auto simp: put_aside_def simp del: fmdom_drop)
qed

lemma validate_next_shrinks:
  assumes "validate_next_dom (env, s, is)"
  shows "validate_next env s is = Some (ids, s') \<Longrightarrow>
    fcard (fmdom (unconfirmed_blocks s')) \<le> fcard (fmdom (unconfirmed_blocks s))"
  using assms
proof (induction arbitrary: ids s' rule: validate_next.pinduct)
  case (1 env s)
  then show ?case by (simp add: validate_next.psimps)
next
  case (2 env s i "is")
  show ?case
  proof (cases "fmlookup (unconfirmed_blocks s) i")
    case None
    with 2 show ?thesis by (simp add: validate_next.psimps)
  next
    case (Some b)
    from 2(1,5) Some obtain v s1 where chk: "check_block env (take_unconfirmed i s) b = Some (v, s1)"
      by (auto simp: validate_next.psimps)
    show ?thesis
    proof (cases v)
      case Accepted
      with 2(1,5) Some chk obtain waiting s3 more s4 rest where
        e: "enter_block env s1 b = Some (waiting, s3)"
        and w: "validate_next env s3 waiting = Some (more, s4)"
        and r: "validate_next env s4 is = Some (rest, s')"
        by (auto simp: validate_next.psimps)
      have "fcard (fmdom (unconfirmed_blocks s3)) \<le> fcard (fmdom (unconfirmed_blocks s))"
        using check_block_unconfirmed(2) [OF chk Some] enter_block_unconfirmed [OF e] by simp
      moreover have "fcard (fmdom (unconfirmed_blocks s4)) \<le> fcard (fmdom (unconfirmed_blocks s3))"
        using 2(3) [OF Some chk refl Accepted e refl w] .
      moreover have "fcard (fmdom (unconfirmed_blocks s')) \<le> fcard (fmdom (unconfirmed_blocks s4))"
        using 2(4) [OF Some chk refl _ refl r] Accepted e w by simp
      ultimately show ?thesis by simp
    next
      case Rejected
      with 2(1,5) Some chk obtain rest where r: "validate_next env s1 is = Some (rest, s')"
        by (auto simp: validate_next.psimps)
      have "fcard (fmdom (unconfirmed_blocks s')) \<le> fcard (fmdom (unconfirmed_blocks s1))"
        using 2(4) [OF Some chk refl _ refl r] Rejected by simp
      with check_block_unconfirmed(2) [OF chk Some] show ?thesis by simp
    next
      case Ambiguous
      with 2(1,5) Some chk obtain rest where r: "validate_next env s1 is = Some (rest, s')"
        by (auto simp: validate_next.psimps)
      have "fcard (fmdom (unconfirmed_blocks s')) \<le> fcard (fmdom (unconfirmed_blocks s1))"
        using 2(4) [OF Some chk refl _ refl r] Ambiguous by simp
      with check_block_unconfirmed(2) [OF chk Some] show ?thesis by simp
    qed
  qed
qed

termination validate_next
proof (relation "measures [\<lambda>(env, s, is). fcard (fmdom (unconfirmed_blocks s)), \<lambda>(env, s, is). length is]",
    goal_cases)
  case 1
  then show ?case by simp
next
  case (2 env s i "is")
  then show ?case by simp
next
  case (3 env s i "is" b p v s1 q waiting s3)
  then have "fcard (fmdom (unconfirmed_blocks s1)) < fcard (fmdom (unconfirmed_blocks s))"
    by (intro check_block_unconfirmed(1)) auto
  with 3 show ?case using enter_block_unconfirmed [of env s1 b waiting s3] by auto
next
  case (4 env s i "is" b p v s1 q ids s2)
  then have chk: "check_block env (take_unconfirmed i s) b = Some (v, s1)" by simp
  have "fcard (fmdom (unconfirmed_blocks s2)) \<le> fcard (fmdom (unconfirmed_blocks s))"
  proof (cases v)
    case Accepted
    with 4 obtain waiting s3 more where
      e: "enter_block env s1 b = Some (waiting, s3)"
      and w: "validate_next env s3 waiting = Some (more, s2)"
      and dom: "validate_next_dom (env, s3, waiting)"
      by auto
    show ?thesis
      using check_block_unconfirmed(2) [OF chk 4(1)] enter_block_unconfirmed [OF e]
        validate_next_shrinks [OF dom w] by simp
  next
    case Rejected
    with 4 check_block_unconfirmed(2) [OF chk 4(1)] show ?thesis by auto
  next
    case Ambiguous
    with 4 check_block_unconfirmed(2) [OF chk 4(1)] show ?thesis by auto
  qed
  then show ?case by auto
qed

definition add_valid_block ::
    "('sk, 'n, 'st) hub_env \<Rightarrow> ('n, 'st) hub \<Rightarrow> Block \<Rightarrow> (BlockId list \<times> ('n, 'st) hub) option" where
  "add_valid_block env s b = do {
     (waiting, s1) \<leftarrow> enter_block env s b;
     (more, s2) \<leftarrow> validate_next env s1 waiting;
     Some (block_id env b # more, s2) }"

definition validate_block ::
    "('sk, 'n, 'st) hub_env \<Rightarrow> ('n, 'st) hub \<Rightarrow> Block \<Rightarrow> (BlockId list \<times> ('n, 'st) hub) option" where
  "validate_block env s b = do {
     (v, s1) \<leftarrow> check_block env s b;
     (case v of
        Accepted \<Rightarrow> add_valid_block env s1 b
      | _ \<Rightarrow> Some ([], s1)) }"

text \<open>The loop in terms of \<open>validate_block\<close>, as the code has it.\<close>

lemma validate_next_Cons:
  "validate_next env s (i # is) =
     (case fmlookup (unconfirmed_blocks s) i of
        None \<Rightarrow> validate_next env s is
      | Some b \<Rightarrow> do {
          (ids, s2) \<leftarrow> validate_block env (take_unconfirmed i s) b;
          (rest, s3) \<leftarrow> validate_next env s2 is;
          Some (ids @ rest, s3) })"
proof (cases "fmlookup (unconfirmed_blocks s) i")
  case (Some b)
  then show ?thesis
    by (cases "check_block env (take_unconfirmed i s) b")
       (auto simp: validate_block_def add_valid_block_def split: verdict.split)
qed simp

end
