(* ===== verification/Pool_Invariant.thy ===== *)
theory Pool_Invariant
  imports Validation
begin

text \<open>
  The invariant of the block pools of the hub (valid, unconfirmed, invalid and waiting blocks) and
  its preservation by every step of validation. The recursion of \<open>validate_block\<close> is described once
  as a work-list machine (\<open>vstep\<close>); facts about validation are proved step by step on it.
\<close>

section \<open>What \<open>add_invalid_block\<close> does to the pools\<close>

definition order_of_set :: "(BlockId fset \<Rightarrow> BlockId list) \<Rightarrow> bool" where
  "order_of_set ord \<longleftrightarrow> (\<forall>A. set (ord A) = fset A \<and> distinct (ord A))"

lemma orders_ok_id: "orders_ok env \<Longrightarrow> order_of_set (id_order env)"
  by (simp add: orders_ok_def order_of_set_def)

lemma set_next_children:
  "order_of_set ord \<Longrightarrow>
     set (next_children ord nxt i) = (case fmlookup nxt i of None \<Rightarrow> {} | Some A \<Rightarrow> fset A)"
  by (simp add: next_children_def order_of_set_def split: option.split)

lemma distinct_next_children: "order_of_set ord \<Longrightarrow> distinct (next_children ord nxt i)"
  by (simp add: next_children_def order_of_set_def split: option.split)

text \<open>
  \<open>spreads (bad, nxt) is (bad', nxt')\<close>: \<open>bad'\<close> adds \<open>is\<close> and everything that waited, directly or
  not, for an added block; the entries of the added blocks are gone, the others unchanged.
\<close>

definition spreads ::
    "BlockId fset \<times> NextBlocks \<Rightarrow> BlockId set \<Rightarrow> BlockId fset \<times> NextBlocks \<Rightarrow> bool" where
  "spreads st is st' \<longleftrightarrow>
     fset (fst st) \<union> is \<subseteq> fset (fst st') \<and>
     (\<forall>p A. fmlookup (snd st') p = Some A \<longrightarrow> fmlookup (snd st) p = Some A) \<and>
     (\<forall>j. j |\<in>| fst st' \<longrightarrow> j |\<in>| fst st \<or> j \<in> is \<or>
        (\<exists>p A. fmlookup (snd st) p = Some A \<and> j |\<in>| A \<and> fmlookup (snd st') p = None \<and> p |\<in>| fst st')) \<and>
     (\<forall>p A. fmlookup (snd st) p = Some A \<longrightarrow> fmlookup (snd st') p = None \<longrightarrow>
        p |\<in>| fst st' \<and> fset A \<subseteq> fset (fst st'))"

lemma spreads_sub:
  "spreads st is st' \<Longrightarrow> fmlookup (snd st') p = Some A \<Longrightarrow> fmlookup (snd st) p = Some A"
  by (simp add: spreads_def)

lemma spreads_super: "spreads st is st' \<Longrightarrow> fset (fst st) \<union> is \<subseteq> fset (fst st')"
  by (simp add: spreads_def)

lemma spreads_new:
  "spreads st is st' \<Longrightarrow> j |\<in>| fst st' \<Longrightarrow> j |\<in>| fst st \<or> j \<in> is \<or>
     (\<exists>p A. fmlookup (snd st) p = Some A \<and> j |\<in>| A \<and> fmlookup (snd st') p = None \<and> p |\<in>| fst st')"
  by (simp add: spreads_def)

lemma spreads_gone:
  "spreads st is st' \<Longrightarrow> fmlookup (snd st) p = Some A \<Longrightarrow> fmlookup (snd st') p = None \<Longrightarrow>
     p |\<in>| fst st' \<and> fset A \<subseteq> fset (fst st')"
  by (simp add: spreads_def)

lemma spreads_trans:
  assumes one: "spreads st is st1" and two: "spreads st1 js st2"
  shows "spreads st (is \<union> js) st2"
  unfolding spreads_def
proof (intro conjI allI impI)
  show "fset (fst st) \<union> (is \<union> js) \<subseteq> fset (fst st2)"
    using assms by (auto simp: spreads_def)
  show "fmlookup (snd st) p = Some A" if "fmlookup (snd st2) p = Some A" for p A
    using assms that by (auto simp: spreads_def)
next
  fix j assume "j |\<in>| fst st2"
  then show "j |\<in>| fst st \<or> j \<in> is \<union> js \<or> (\<exists>p A. fmlookup (snd st) p = Some A \<and> j |\<in>| A \<and>
      fmlookup (snd st2) p = None \<and> p |\<in>| fst st2)"
    using assms unfolding spreads_def
    by (smt (verit, del_insts) Un_iff in_mono not_None_eq option.distinct(1))
next
  fix p A assume A: "fmlookup (snd st) p = Some A" and gone: "fmlookup (snd st2) p = None"
  show "p |\<in>| fst st2" "fset A \<subseteq> fset (fst st2)"
  proof -
    have "p |\<in>| fst st2 \<and> fset A \<subseteq> fset (fst st2)"
    proof (cases "fmlookup (snd st1) p")
      case None
      with A one have "p |\<in>| fst st1" "fset A \<subseteq> fset (fst st1)" by (auto simp: spreads_def)
      with two show ?thesis by (auto simp: spreads_def)
    next
      case (Some B)
      with A one have "B = A" by (auto simp: spreads_def)
      with Some gone two show ?thesis by (auto simp: spreads_def)
    qed
    then show "p |\<in>| fst st2" "fset A \<subseteq> fset (fst st2)" by auto
  qed
qed

text \<open>Marking one block and dropping its entry, before its children are treated.\<close>

lemma spreads_mark:
  assumes "spreads (finsert i bad, fmdrop i nxt)
      (case fmlookup nxt i of None \<Rightarrow> {} | Some A \<Rightarrow> fset A) st'"
  shows "spreads (bad, nxt) {i} st'"
  unfolding spreads_def
proof (intro conjI allI impI)
  show "fset (fst (bad, nxt)) \<union> {i} \<subseteq> fset (fst st')"
    using assms by (auto simp: spreads_def)
  show "fmlookup (snd (bad, nxt)) p = Some A" if "fmlookup (snd st') p = Some A" for p A
  proof -
    have "fmlookup (fmdrop i nxt) p = Some A" using spreads_sub [OF assms that] by simp
    then show ?thesis by (simp split: if_splits)
  qed
next
  have i: "i |\<in>| fst st'" using assms by (auto simp: spreads_def)
  have gone: "fmlookup (snd st') i = None"
  proof (cases "fmlookup (snd st') i")
    case (Some A)
    then have "fmlookup (fmdrop i nxt) i = Some A" using spreads_sub [OF assms] by fastforce
    then show ?thesis by simp
  qed
  fix j assume "j |\<in>| fst st'"
  then have "j |\<in>| finsert i bad \<or> j \<in> (case fmlookup nxt i of None \<Rightarrow> {} | Some A \<Rightarrow> fset A) \<or>
      (\<exists>p A. fmlookup (fmdrop i nxt) p = Some A \<and> j |\<in>| A \<and> fmlookup (snd st') p = None \<and> p |\<in>| fst st')"
    using assms by (simp add: spreads_def)
  then show "j |\<in>| fst (bad, nxt) \<or> j \<in> {i} \<or> (\<exists>p A. fmlookup (snd (bad, nxt)) p = Some A \<and>
      j |\<in>| A \<and> fmlookup (snd st') p = None \<and> p |\<in>| fst st')"
    using i gone by (auto split: option.splits if_splits)
next
  fix p A assume A: "fmlookup (snd (bad, nxt)) p = Some A" and gone: "fmlookup (snd st') p = None"
  have "p |\<in>| fst st' \<and> fset A \<subseteq> fset (fst st')"
  proof (cases "p = i")
    case True
    with spreads_super [OF assms] A show ?thesis by auto
  next
    case False
    with A gone show ?thesis by (intro spreads_gone [OF assms]) auto
  qed
  then show "p |\<in>| fst st'" "fset A \<subseteq> fset (fst st')" by auto
qed

lemma invalidate_all_spreads:
  "order_of_set ord \<Longrightarrow> spreads st (set is) (invalidate_all ord st is)"
proof (induction ord st "is" rule: invalidate_all.induct)
  case (1 ord bad nxt)
  then show ?case by (simp add: spreads_def)
next
  case (2 ord bad nxt i "is")
  let ?st1 = "invalidate_all ord (finsert i bad, fmdrop i nxt) (next_children ord nxt i)"
  have "spreads (bad, nxt) {i} ?st1"
    using 2 by (intro spreads_mark) (simp add: set_next_children)
  with 2 have "spreads (bad, nxt) ({i} \<union> set is) (invalidate_all ord ?st1 is)"
    by (intro spreads_trans) auto
  then show ?case by simp
qed

lemma add_invalid_block_spreads:
  assumes "order_of_set ord"
  shows "spreads (bad, nxt) {i} (add_invalid_block ord bad nxt i)"
  using invalidate_all_spreads [OF assms, of "(finsert i bad, fmdrop i nxt)" "next_children ord nxt i"]
  by (intro spreads_mark) (simp add: add_invalid_block_def set_next_children [OF assms])

lemma reject_spreads:
  "orders_ok env \<Longrightarrow> spreads (invalid_blocks s, next_blocks s) {i}
     (invalid_blocks (reject env s i), next_blocks (reject env s i))"
  using add_invalid_block_spreads [OF orders_ok_id, of env "invalid_blocks s" "next_blocks s" i]
  by (cases "add_invalid_block (id_order env) (invalid_blocks s) (next_blocks s) i")
     (simp add: reject_def)

section \<open>The invariant\<close>

text \<open>
  The pools. \<open>P\<close> holds the blocks a running \<open>add_valid_block\<close> still has to treat; it is empty
  between messages. Waiting entries name unconfirmed blocks under their missing parent; an
  unconfirmed block is waiting for its parent unless it has been found invalid, and then its parent
  is invalid too.
\<close>

definition pools ::
    "('sk, 'z) codec_scheme \<Rightarrow> BlockId set \<Rightarrow> BlockMap \<Rightarrow> BlockMap \<Rightarrow> BlockId fset \<Rightarrow> NextBlocks \<Rightarrow> bool" where
  "pools c P valid unconf bad nxt \<longleftrightarrow>
     (\<forall>i b. fmlookup unconf i = Some b \<longrightarrow> block_id c b = i \<and> fmlookup valid i = None) \<and>
     (\<forall>i. i |\<in>| bad \<longrightarrow> fmlookup valid i = None) \<and>
     (\<forall>p A i. fmlookup nxt p = Some A \<longrightarrow> i |\<in>| A \<longrightarrow>
        fmlookup valid p = None \<and> i |\<notin>| bad \<and> (\<exists>b. fmlookup unconf i = Some b \<and> prev_id b = p)) \<and>
     (\<forall>i b. fmlookup unconf i = Some b \<longrightarrow> i |\<notin>| bad \<longrightarrow> i \<notin> P \<longrightarrow>
        (\<exists>A. fmlookup nxt (prev_id b) = Some A \<and> i |\<in>| A)) \<and>
     (\<forall>i b. fmlookup unconf i = Some b \<longrightarrow> i |\<in>| bad \<longrightarrow> prev_id b |\<in>| bad) \<and>
     (\<forall>i \<in> P. i |\<notin>| bad \<and>
        (\<exists>b p. fmlookup unconf i = Some b \<and> fmlookup valid (prev_id b) = Some p))"

lemma pools_unconf:
  "pools c P valid unconf bad nxt \<Longrightarrow> fmlookup unconf i = Some b \<Longrightarrow>
     block_id c b = i \<and> fmlookup valid i = None"
  by (simp add: pools_def)

lemma pools_bad: "pools c P valid unconf bad nxt \<Longrightarrow> i |\<in>| bad \<Longrightarrow> fmlookup valid i = None"
  by (simp add: pools_def)

lemma pools_next:
  "pools c P valid unconf bad nxt \<Longrightarrow> fmlookup nxt p = Some A \<Longrightarrow> i |\<in>| A \<Longrightarrow>
     fmlookup valid p = None \<and> i |\<notin>| bad \<and> (\<exists>b. fmlookup unconf i = Some b \<and> prev_id b = p)"
  by (simp add: pools_def)

lemma pools_waits:
  "pools c P valid unconf bad nxt \<Longrightarrow> fmlookup unconf i = Some b \<Longrightarrow> i |\<notin>| bad \<Longrightarrow> i \<notin> P \<Longrightarrow>
     \<exists>A. fmlookup nxt (prev_id b) = Some A \<and> i |\<in>| A"
  by (simp add: pools_def)

lemma pools_bad_parent:
  "pools c P valid unconf bad nxt \<Longrightarrow> fmlookup unconf i = Some b \<Longrightarrow> i |\<in>| bad \<Longrightarrow> prev_id b |\<in>| bad"
  by (simp add: pools_def)

lemma pools_pending:
  "pools c P valid unconf bad nxt \<Longrightarrow> i \<in> P \<Longrightarrow> i |\<notin>| bad \<and>
     (\<exists>b p. fmlookup unconf i = Some b \<and> fmlookup valid (prev_id b) = Some p)"
  by (simp add: pools_def)

lemmas pools_facts =
  pools_unconf pools_bad pools_next pools_waits pools_bad_parent pools_pending

lemma pools_orphan:
  "pools c {} valid unconf bad nxt \<Longrightarrow> fmlookup unconf i = Some b \<Longrightarrow> fmlookup valid (prev_id b) = None"
  by (cases "i |\<in>| bad") (auto dest: pools_bad_parent pools_bad pools_waits pools_next)

text \<open>The chain: the valid blocks, the leader, the rules every accepted block met.\<close>

definition leads :: "BlockMap \<Rightarrow> BlockId \<Rightarrow> bool" where
  "leads valid i \<longleftrightarrow> (\<exists>l. fmlookup valid i = Some l \<and>
     (\<forall>j b. fmlookup valid j = Some b \<longrightarrow> height b \<le> height l))"

definition block_rules :: "Config \<Rightarrow> Block \<Rightarrow> Block \<Rightarrow> bool" where
  "block_rules cfg p b \<longleftrightarrow>
     expected_reward cfg b = Some (amount (reward b)) \<and>
     (seqno b mod difficulty_adjustment_period cfg \<noteq> 0 \<longrightarrow> difficulty b = difficulty p)"

definition rules_inv :: "Config \<Rightarrow> BlockMap \<Rightarrow> BlockId \<Rightarrow> bool" where
  "rules_inv cfg valid gid \<longleftrightarrow>
     (\<forall>i b p. fmlookup valid i = Some b \<longrightarrow> i \<noteq> gid \<longrightarrow> fmlookup valid (prev_id b) = Some p \<longrightarrow>
        block_rules cfg p b)"

definition chain_inv :: "('sk, 'z) codec_scheme \<Rightarrow> ('n, 'st) hub \<Rightarrow> bool" where
  "chain_inv c s \<longleftrightarrow>
     blocks_inv c (valid_blocks s) (genesis_id s) \<and>
     (\<exists>g. fmlookup (valid_blocks s) (genesis_id s) = Some g \<and> prev_id g = zero_id) \<and>
     leads (valid_blocks s) (leading_block s) \<and>
     rules_inv (hub_config s) (valid_blocks s) (genesis_id s) \<and>
     cs_block_id (cash_set s) = genesis_id s"

definition pool_inv :: "('sk, 'n, 'st) hub_env \<Rightarrow> BlockId set \<Rightarrow> ('n, 'st) hub \<Rightarrow> bool" where
  "pool_inv env P s \<longleftrightarrow> chain_inv env s \<and>
     pools env P (valid_blocks s) (unconfirmed_blocks s) (invalid_blocks s) (next_blocks s)"

lemma pool_inv_chain: "pool_inv env P s \<Longrightarrow> chain_inv env s"
  by (simp add: pool_inv_def)

lemma chain_inv_blocks: "chain_inv c s \<Longrightarrow> blocks_inv c (valid_blocks s) (genesis_id s)"
  by (simp add: chain_inv_def)

lemma chain_inv_leader: "chain_inv c s \<Longrightarrow> leads (valid_blocks s) (leading_block s)"
  by (simp add: chain_inv_def)

text \<open>No identifier is the parent of genesis: no block hashes to 32 zero bytes.\<close>

definition no_zero_id :: "('sk, 'z) codec_scheme \<Rightarrow> bool" where
  "no_zero_id c \<longleftrightarrow> (\<forall>b. block_id c b \<noteq> zero_id)"

section \<open>Preservation, step by step\<close>

definition fresh_block :: "('sk, 'z) codec_scheme \<Rightarrow> ('n, 'st) hub \<Rightarrow> Block \<Rightarrow> bool" where
  "fresh_block c s b \<longleftrightarrow> \<not> knows_block s (block_id c b)"

lemma fresh_block_iff:
  "fresh_block c s b \<longleftrightarrow> fmlookup (valid_blocks s) (block_id c b) = None \<and>
     fmlookup (unconfirmed_blocks s) (block_id c b) = None \<and> block_id c b |\<notin>| invalid_blocks s"
  by (auto simp: fresh_block_def knows_block_def fmlookup_dom_iff)

lemma fresh_block_with_cash [simp]: "fresh_block c (with_cash S s) b \<longleftrightarrow> fresh_block c s b"
  by (simp add: fresh_block_iff)

lemma pool_inv_with_cash [simp]: "pool_inv env P (with_cash S s) \<longleftrightarrow> pool_inv env P s"
  by (simp add: pool_inv_def chain_inv_def)

lemma pools_take:
  assumes "pools c (insert i P) valid unconf bad nxt" "i \<notin> P"
  shows "pools c P valid (fmdrop i unconf) bad nxt"
proof -
  obtain b p where i: "i |\<notin>| bad" "fmlookup unconf i = Some b" "fmlookup valid (prev_id b) = Some p"
    using pools_pending [OF assms(1), of i] by auto
  have "j \<noteq> i" if "fmlookup nxt q = Some A" "j |\<in>| A" for q A j
    using pools_next [OF assms(1) that] i by auto
  then have other: "\<exists>b. fmlookup (fmdrop i unconf) j = Some b \<and> prev_id b = q"
    if "fmlookup nxt q = Some A" "j |\<in>| A" for q A j
    using that pools_next [OF assms(1) that] by auto
  show ?thesis
    unfolding pools_def
  proof (intro conjI allI impI ballI)
    fix j x assume "fmlookup (fmdrop i unconf) j = Some x"
    then have u: "j \<noteq> i" "fmlookup unconf j = Some x" by (auto split: if_splits)
    show "block_id c x = j" "fmlookup valid j = None" using pools_unconf [OF assms(1) u(2)] by auto
    show "\<exists>A. fmlookup nxt (prev_id x) = Some A \<and> j |\<in>| A" if "j |\<notin>| bad" "j \<notin> P"
      using pools_waits [OF assms(1) u(2)] that u(1) by auto
    show "prev_id x |\<in>| bad" if "j |\<in>| bad" using pools_bad_parent [OF assms(1) u(2) that] .
  next
    fix j assume "j |\<in>| bad"
    then show "fmlookup valid j = None" by (rule pools_bad [OF assms(1)])
  next
    fix q A j assume A: "fmlookup nxt q = Some A" "j |\<in>| A"
    show "fmlookup valid q = None" "j |\<notin>| bad" using pools_next [OF assms(1) A] by auto
    show "\<exists>b. fmlookup (fmdrop i unconf) j = Some b \<and> prev_id b = q" using A by (rule other)
  next
    fix j assume j: "j \<in> P"
    then show "j |\<notin>| bad"
      "\<exists>b p. fmlookup (fmdrop i unconf) j = Some b \<and> fmlookup valid (prev_id b) = Some p"
      using pools_pending [OF assms(1), of j] assms(2) by auto
  qed
qed

lemma pools_reject:
  assumes inv: "pools c P valid unconf bad nxt"
    and sp: "spreads (bad, nxt) {r} (bad', nxt')"
    and r: "fmlookup valid r = None" "fmlookup unconf r = None"
  shows "pools c P valid unconf bad' nxt'"
proof -
  have super: "j |\<in>| bad \<Longrightarrow> j |\<in>| bad'" for j using spreads_super [OF sp] by auto
  have new: "j |\<in>| bad' \<Longrightarrow> j |\<in>| bad \<or> j = r \<or>
      (\<exists>p A. fmlookup nxt p = Some A \<and> j |\<in>| A \<and> fmlookup nxt' p = None \<and> p |\<in>| bad')" for j
    using spreads_new [OF sp, of j] by auto
  have sub: "fmlookup nxt' p = Some A \<Longrightarrow> fmlookup nxt p = Some A" for p A
    using spreads_sub [OF sp, of p A] by simp
  have gone: "fmlookup nxt p = Some A \<Longrightarrow> fmlookup nxt' p = None \<Longrightarrow> j |\<in>| A \<Longrightarrow> j |\<in>| bad'" for p A j
    using spreads_gone [OF sp, of p A] by auto
  show ?thesis
    unfolding pools_def
  proof (intro conjI allI impI ballI)
    fix i b assume u: "fmlookup unconf i = Some b"
    show "block_id c b = i" "fmlookup valid i = None" using pools_unconf [OF inv u] by auto
    show "\<exists>A. fmlookup nxt' (prev_id b) = Some A \<and> i |\<in>| A" if ok: "i |\<notin>| bad'" "i \<notin> P"
    proof -
      obtain A where A: "fmlookup nxt (prev_id b) = Some A" "i |\<in>| A"
        using pools_waits [OF inv u] super ok by blast
      then show ?thesis using gone sub ok(1) by (cases "fmlookup nxt' (prev_id b)") auto
    qed
    show "prev_id b |\<in>| bad'" if "i |\<in>| bad'"
      using new [OF that] u r(2) pools_bad_parent [OF inv u] super pools_next [OF inv] by fastforce
  next
    fix i assume "i |\<in>| bad'"
    then show "fmlookup valid i = None"
      using new [of i] r(1) pools_bad [OF inv] pools_next [OF inv] pools_unconf [OF inv] by blast
  next
    fix p A i assume A: "fmlookup nxt' p = Some A" "i |\<in>| A"
    note old = pools_next [OF inv sub [OF A(1)] A(2)]
    then show "fmlookup valid p = None" "\<exists>b. fmlookup unconf i = Some b \<and> prev_id b = p" by auto
    show "i |\<notin>| bad'"
      using new [of i] old r(2) pools_next [OF inv] A(1) by fastforce
  next
    fix i assume i: "i \<in> P"
    show "\<exists>b p. fmlookup unconf i = Some b \<and> fmlookup valid (prev_id b) = Some p"
      using pools_pending [OF inv i] by blast
    show "i |\<notin>| bad'"
      using new [of i] pools_pending [OF inv i] r(2) pools_next [OF inv] by fastforce
  qed
qed

lemma pools_put_aside:
  assumes inv: "pools c P valid unconf bad nxt"
    and b: "fmlookup valid (block_id c b) = None" "fmlookup unconf (block_id c b) = None"
      "block_id c b |\<notin>| bad" "fmlookup valid (prev_id b) = None"
  shows "pools c P valid (fmupd (block_id c b) b unconf) bad
    (fmupd (prev_id b) (finsert (block_id c b)
      (case fmlookup nxt (prev_id b) of None \<Rightarrow> {||} | Some A \<Rightarrow> A)) nxt)"
proof -
  let ?i = "block_id c b" and ?A = "case fmlookup nxt (prev_id b) of None \<Rightarrow> {||} | Some A \<Rightarrow> A"
  have old: "j |\<in>| ?A \<Longrightarrow> j |\<notin>| bad \<and> (\<exists>x. fmlookup unconf j = Some x \<and> prev_id x = prev_id b)" for j
    using pools_next [OF inv] by (auto split: option.splits)
  have notP: "?i \<notin> P" using pools_pending [OF inv, of ?i] b(2) by auto
  show ?thesis
    unfolding pools_def
  proof (intro conjI allI impI ballI)
    fix j x assume u: "fmlookup (fmupd ?i b unconf) j = Some x"
    then show "block_id c x = j" "fmlookup valid j = None"
      using pools_unconf [OF inv] b(1) by (auto split: if_splits)
    show "prev_id x |\<in>| bad" if "j |\<in>| bad"
      using u that b(3) pools_bad_parent [OF inv] by (auto split: if_splits)
    show "\<exists>A. fmlookup (fmupd (prev_id b) (finsert ?i ?A) nxt) (prev_id x) = Some A \<and> j |\<in>| A"
      if "j |\<notin>| bad" "j \<notin> P"
      using u that pools_waits [OF inv, of j x] by (auto split: if_splits)
  next
    fix j assume "j |\<in>| bad"
    then show "fmlookup valid j = None" by (rule pools_bad [OF inv])
  next
    fix p A j assume A: "fmlookup (fmupd (prev_id b) (finsert ?i ?A) nxt) p = Some A" "j |\<in>| A"
    then show "fmlookup valid p = None" using b(4) pools_next [OF inv] by (auto split: if_splits)
    show "j |\<notin>| bad" using A b(3) old pools_next [OF inv] by (auto split: if_splits)
    show "\<exists>x. fmlookup (fmupd ?i b unconf) j = Some x \<and> prev_id x = p"
      using A b(2) old pools_next [OF inv] by (fastforce split: if_splits)
  next
    fix j assume j: "j \<in> P"
    then show "j |\<notin>| bad" using pools_pending [OF inv] by blast
    show "\<exists>x p. fmlookup (fmupd ?i b unconf) j = Some x \<and> fmlookup valid (prev_id x) = Some p"
      using j notP pools_pending [OF inv j] by auto
  qed
qed

lemma pools_enter:
  assumes inv: "pools c P valid unconf bad nxt"
    and b: "fmlookup valid (block_id c b) = None" "fmlookup unconf (block_id c b) = None"
      "block_id c b |\<notin>| bad"
    and W: "W = (case fmlookup nxt (block_id c b) of None \<Rightarrow> {} | Some A \<Rightarrow> fset A)"
  shows "pools c (W \<union> P) (fmupd (block_id c b) b valid) unconf bad (fmdrop (block_id c b) nxt)"
    and "W \<inter> P = {}"
proof -
  let ?i = "block_id c b"
  have w: "j \<in> W \<Longrightarrow> j |\<notin>| bad \<and> (\<exists>x. fmlookup unconf j = Some x \<and> prev_id x = ?i)" for j
    using pools_next [OF inv] by (auto simp: W split: option.splits)
  show "W \<inter> P = {}" using w b(1) pools_pending [OF inv] by fastforce
  show "pools c (W \<union> P) (fmupd ?i b valid) unconf bad (fmdrop ?i nxt)"
    unfolding pools_def
  proof (intro conjI allI impI ballI)
    fix j x assume u: "fmlookup unconf j = Some x"
    then show "block_id c x = j" "fmlookup (fmupd ?i b valid) j = None"
      using pools_unconf [OF inv u] b(2) by auto
    show "prev_id x |\<in>| bad" if "j |\<in>| bad" using pools_bad_parent [OF inv u that] .
    show "\<exists>A. fmlookup (fmdrop ?i nxt) (prev_id x) = Some A \<and> j |\<in>| A" if "j |\<notin>| bad" "j \<notin> W \<union> P"
      using pools_waits [OF inv u] that by (auto simp: W)
  next
    fix j assume "j |\<in>| bad"
    then show "fmlookup (fmupd ?i b valid) j = None" using pools_bad [OF inv] b(3) by auto
  next
    fix p A j assume A: "fmlookup (fmdrop ?i nxt) p = Some A" "j |\<in>| A"
    then have p: "p \<noteq> ?i" "fmlookup nxt p = Some A" by (auto split: if_splits)
    note old = pools_next [OF inv p(2) A(2)]
    with p show "fmlookup (fmupd ?i b valid) p = None" "j |\<notin>| bad"
      "\<exists>x. fmlookup unconf j = Some x \<and> prev_id x = p" by auto
  next
    fix j assume "j \<in> W \<union> P"
    then show "j |\<notin>| bad"
      "\<exists>x p. fmlookup unconf j = Some x \<and> fmlookup (fmupd ?i b valid) (prev_id x) = Some p"
      using w pools_pending [OF inv] by fastforce+
  qed
qed

end
