(* ===== verification/Validation_Steps.thy ===== *)
theory Validation_Steps
  imports Pool_Invariant
begin

text \<open>
  The steps of validation as a work-list machine, and what \<open>validate_block\<close> does as a run of it:
  the invariant is kept, blocks only become valid by passing every check, the identifiers returned
  are those of the blocks that became valid, and the leader stays the highest block.
\<close>

section \<open>Accepting a block\<close>

text \<open>Everything an accepted block satisfied, with the cash set it was checked against.\<close>

definition accepts :: "('sk, 'n, 'st) hub_env \<Rightarrow> ('n, 'st) hub \<Rightarrow> Block \<Rightarrow> ('n, 'st) hub \<Rightarrow> bool" where
  "accepts env s b s1 \<longleftrightarrow>
     (\<exists>prev cash. fmlookup (valid_blocks s) (prev_id b) = Some prev \<and>
        timestamp prev \<le> timestamp b \<and> height b = Suc (height prev) \<and>
        expected_difficulty s b prev = Some (difficulty b) \<and>
        cash_set_at env s (prev_id b) = Some (Some cash, s1) \<and> \<not> missing_input (cs_set cash) b \<and>
        expected_reward (hub_config s) b = Some (amount (reward b)))"

lemma cash_set_at_config: "cash_set_at c s i = Some (r, s1) \<Longrightarrow> hub_config s1 = hub_config s"
  using cash_set_at_frame by fastforce

lemma check_block_Accepted:
  "check_block env s b = Some (Accepted, s1) \<longleftrightarrow> accepts env s b s1"
proof (cases "fmlookup (valid_blocks s) (prev_id b)")
  case None
  then show ?thesis by (simp add: check_block_def accepts_def)
next
  case (Some prev)
  have one: "checked_add (seqno prev) 1 = Some n \<Longrightarrow> seqno b = n \<longleftrightarrow> height b = Suc (height prev)" for n
    by (auto simp: checked_add_Some word_unat_eq_iff)
  have cash: "check_cash env s b = Some (Accepted, s1) \<longleftrightarrow>
      (\<exists>cash. cash_set_at env s (prev_id b) = Some (Some cash, s1) \<and> \<not> missing_input (cs_set cash) b \<and>
        expected_reward (hub_config s) b = Some (amount (reward b)))"
  proof (cases "cash_set_at env s (prev_id b)")
    case None
    then show ?thesis by (simp add: check_cash_def)
  next
    case (Some r)
    obtain found s0 where r: "r = (found, s0)" by (cases r)
    have "hub_config s0 = hub_config s" using Some r cash_set_at_config by blast
    then show ?thesis
      using Some r by (cases found; cases "expected_reward (hub_config s) b") (auto simp: check_cash_def)
  qed
  show ?thesis
  proof (cases "checked_add (seqno prev) 1")
    case None
    then have "height b \<noteq> Suc (height prev)"
      using checked_add_Some [of "seqno prev" 1 "seqno b"] by auto
    with Some None show ?thesis by (auto simp: check_block_def accepts_def)
  next
    case n: (Some n)
    show ?thesis
      using Some n one [OF n] cash
      by (cases "expected_difficulty s b prev") (auto simp: check_block_def accepts_def not_less)
  qed
qed

lemma accepts_with_cash: "accepts env s b s1 \<Longrightarrow> \<exists>S. s1 = with_cash S s"
  unfolding accepts_def using cash_set_at_frame by blast

section \<open>Entering a block\<close>

lemma enter_block_leads:
  assumes "leads (valid_blocks s) (leading_block s)" "fmlookup (valid_blocks s) (block_id env b) = None"
  shows "\<exists>l. fmlookup (valid_blocks s) (leading_block s) = Some l \<and>
    enter_block env s b =
      Some (next_children (id_order env) (next_blocks s) (block_id env b),
        s\<lparr>mempool := fmfilter (\<lambda>t. \<not> list_ex (\<lambda>x. txn_id env x = t) (transactions b)) (mempool s),
          valid_blocks := fmupd (block_id env b) b (valid_blocks s),
          leading_block := (if height l < height b then block_id env b else leading_block s),
          next_blocks := fmdrop (block_id env b) (next_blocks s)\<rparr>)"
proof -
  obtain l where l: "fmlookup (valid_blocks s) (leading_block s) = Some l"
    using assms(1) by (auto simp: leads_def)
  with assms(2) have "leading_block s \<noteq> block_id env b" by auto
  with l show ?thesis
    by (simp add: enter_block_def leading_block_seqno_def Let_def word_less_nat_alt)
qed

lemma leads_insert:
  assumes "leads m i" "fmlookup m i = Some l" "fmlookup m j = None"
  shows "leads (fmupd j b m) (if height l < height b then j else i)"
  using assms by (fastforce simp: leads_def)

lemma blocks_inv_insert:
  assumes inv: "blocks_inv c m g" "fmlookup m g = Some gb" "prev_id gb = zero_id" "no_zero_id c"
    and b: "fmlookup m (block_id c b) = None" "fmlookup m (prev_id b) = Some p"
      "height b = Suc (height p)" "timestamp p \<le> timestamp b"
  shows "blocks_inv c (fmupd (block_id c b) b m) g"
proof -
  have ne: "g \<noteq> block_id c b" "block_id c b \<noteq> zero_id" "prev_id b \<noteq> block_id c b"
    using inv b by (auto simp: no_zero_id_def)
  have parent: "\<exists>q. fmlookup (fmupd (block_id c b) b m) (prev_id x) = Some q \<and>
      height x = Suc (height q) \<and> timestamp q \<le> timestamp x"
    if "fmlookup m i = Some x" "i \<noteq> g" for i x
  proof -
    obtain q where q: "fmlookup m (prev_id x) = Some q" "height x = Suc (height q)"
        "timestamp q \<le> timestamp x"
      using blocks_inv_parent [OF inv(1) \<open>fmlookup m i = Some x\<close> \<open>i \<noteq> g\<close>] by blast
    moreover have "prev_id x \<noteq> block_id c b" using q(1) b(1) by auto
    ultimately show ?thesis by simp
  qed
  show ?thesis
    unfolding blocks_inv_def
  proof (intro conjI allI impI)
    show "block_id c x = i" if "fmlookup (fmupd (block_id c b) b m) i = Some x" for i x
      using that blocks_inv_id [OF inv(1)] by (auto split: if_splits)
    show "\<exists>x. fmlookup (fmupd (block_id c b) b m) g = Some x \<and> seqno x = 0 \<and>
        fmlookup (fmupd (block_id c b) b m) (prev_id x) = None"
      using inv(2,3) blocks_inv_genesis [OF inv(1)] ne by auto
    show "\<exists>q. fmlookup (fmupd (block_id c b) b m) (prev_id x) = Some q \<and>
        height x = Suc (height q) \<and> timestamp q \<le> timestamp x"
      if "fmlookup (fmupd (block_id c b) b m) i = Some x" "i \<noteq> g" for i x
    proof (cases "i = block_id c b")
      case True
      with that b ne show ?thesis by simp
    next
      case False
      with that have "fmlookup m i = Some x" by simp
      from parent [OF this that(2)] show ?thesis .
    qed
  qed
qed

lemma rules_inv_insert:
  assumes "rules_inv cfg m g" "blocks_inv c m g" "fmlookup m (block_id c b) = None"
    and "fmlookup m (prev_id b) = Some p" "block_rules cfg p b"
  shows "rules_inv cfg (fmupd (block_id c b) b m) g"
  unfolding rules_inv_def
proof (intro allI impI)
  fix i x q
  assume i: "fmlookup (fmupd (block_id c b) b m) i = Some x" "i \<noteq> g"
    and q: "fmlookup (fmupd (block_id c b) b m) (prev_id x) = Some q"
  show "block_rules cfg q x"
  proof (cases "i = block_id c b")
    case True
    with i q assms(3-5) show ?thesis by (auto split: if_splits)
  next
    case False
    with i have x: "fmlookup m i = Some x" by simp
    obtain p' where "fmlookup m (prev_id x) = Some p'"
      using blocks_inv_parent [OF assms(2) x i(2)] by blast
    with assms(1,3) x i(2) q show ?thesis by (auto simp: rules_inv_def split: if_splits)
  qed
qed

lemma expected_difficulty_plain:
  "expected_difficulty s b p = Some d \<Longrightarrow>
     seqno b mod difficulty_adjustment_period (hub_config s) \<noteq> 0 \<Longrightarrow> d = difficulty p"
  by (auto simp: expected_difficulty_def checked_rem_Some)

lemma accepts_rules: "accepts env s b s1 \<Longrightarrow> fmlookup (valid_blocks s) (prev_id b) = Some p \<Longrightarrow>
    block_rules (hub_config s) p b \<and> height b = Suc (height p) \<and> timestamp p \<le> timestamp b"
  by (auto simp: accepts_def block_rules_def dest: expected_difficulty_plain)

lemma enter_accepted:
  assumes ord: "orders_ok env" and nz: "no_zero_id env"
    and inv: "pool_inv env P s" and fresh: "fresh_block env s b" and acc: "accepts env s b s1"
  shows "\<exists>w s2. enter_block env s1 b = Some (w, s2) \<and> distinct w \<and> set w \<inter> P = {} \<and>
    pool_inv env (set w \<union> P) s2 \<and> valid_blocks s2 = fmupd (block_id env b) b (valid_blocks s)"
proof -
  obtain S where s1: "s1 = with_cash S s" using accepts_with_cash [OF acc] by blast
  let ?i = "block_id env b" and ?m = "valid_blocks s"
  let ?w = "next_children (id_order env) (next_blocks s) ?i"
  have chain: "chain_inv env s" and ps: "pools env P ?m (unconfirmed_blocks s) (invalid_blocks s) (next_blocks s)"
    using inv by (simp_all add: pool_inv_def)
  have i: "fmlookup ?m ?i = None" "fmlookup (unconfirmed_blocks s) ?i = None" "?i |\<notin>| invalid_blocks s"
    using fresh by (simp_all add: fresh_block_iff)
  obtain l where l: "fmlookup ?m (leading_block s) = Some l"
    and enter: "enter_block env s1 b = Some (?w, s1\<lparr>
          mempool := fmfilter (\<lambda>t. \<not> list_ex (\<lambda>x. txn_id env x = t) (transactions b)) (mempool s),
          valid_blocks := fmupd ?i b ?m,
          leading_block := (if height l < height b then ?i else leading_block s),
          next_blocks := fmdrop ?i (next_blocks s)\<rparr>)"
  proof -
    have "leads (valid_blocks s1) (leading_block s1)" "fmlookup (valid_blocks s1) ?i = None"
      using chain_inv_leader [OF chain] i(1) s1 by simp_all
    from enter_block_leads [OF this] obtain l where
      l: "fmlookup (valid_blocks s1) (leading_block s1) = Some l"
      and e: "enter_block env s1 b = Some (next_children (id_order env) (next_blocks s1) ?i,
        s1\<lparr>mempool := fmfilter (\<lambda>t. \<not> list_ex (\<lambda>x. txn_id env x = t) (transactions b)) (mempool s1),
          valid_blocks := fmupd ?i b (valid_blocks s1),
          leading_block := (if height l < height b then ?i else leading_block s1),
          next_blocks := fmdrop ?i (next_blocks s1)\<rparr>)"
      by blast
    have same: "valid_blocks s1 = ?m" "leading_block s1 = leading_block s"
      "next_blocks s1 = next_blocks s" "mempool s1 = mempool s"
      by (simp_all add: s1)
    show thesis by (rule that [OF l [unfolded same] e [unfolded same]])
  qed
  have W: "set ?w = (case fmlookup (next_blocks s) ?i of None \<Rightarrow> {} | Some A \<Rightarrow> fset A)"
    using set_next_children [OF orders_ok_id [OF ord]] by simp
  obtain p where p: "fmlookup ?m (prev_id b) = Some p" using acc by (auto simp: accepts_def)
  note rules = accepts_rules [OF acc p]
  obtain g where g: "fmlookup ?m (genesis_id s) = Some g" "prev_id g = zero_id"
    using chain by (auto simp: chain_inv_def)
  have "chain_inv env (s1\<lparr>
          mempool := fmfilter (\<lambda>t. \<not> list_ex (\<lambda>x. txn_id env x = t) (transactions b)) (mempool s),
          valid_blocks := fmupd ?i b ?m,
          leading_block := (if height l < height b then ?i else leading_block s),
          next_blocks := fmdrop ?i (next_blocks s)\<rparr>)"
    using blocks_inv_insert [OF chain_inv_blocks [OF chain] g nz i(1) p] rules
      rules_inv_insert [OF _ chain_inv_blocks [OF chain] i(1) p, of "hub_config s"]
      leads_insert [OF chain_inv_leader [OF chain] l i(1), of b] chain g i(1) s1
    by (auto simp: chain_inv_def)
  moreover have "pools env (set ?w \<union> P) (fmupd ?i b ?m) (unconfirmed_blocks s) (invalid_blocks s)
      (fmdrop ?i (next_blocks s))"
    by (rule pools_enter(1) [OF ps i W])
  ultimately show ?thesis
    using enter pools_enter(2) [OF ps i W] distinct_next_children [OF orders_ok_id [OF ord]] s1
    by (simp add: pool_inv_def)
qed

section \<open>Rejecting and putting aside\<close>

lemma reject_pool_inv:
  assumes "orders_ok env" "pool_inv env P s" "fmlookup (valid_blocks s) i = None"
    "fmlookup (unconfirmed_blocks s) i = None"
  shows "pool_inv env P (reject env s i)"
  using assms pools_reject [OF _ reject_spreads [OF assms(1)], of env P "valid_blocks s"
      "unconfirmed_blocks s" s i]
  by (simp add: pool_inv_def chain_inv_def)

lemma put_aside_pool_inv:
  assumes "pool_inv env P s" "fresh_block env s b" "fmlookup (valid_blocks s) (prev_id b) = None"
  shows "pool_inv env P (put_aside env s b)"
  using assms pools_put_aside [of env P "valid_blocks s" "unconfirmed_blocks s" "invalid_blocks s"
      "next_blocks s" b]
  by (simp add: pool_inv_def chain_inv_def fresh_block_iff put_aside_def)

lemma take_pool_inv:
  assumes "pool_inv env (insert i P) s" "i \<notin> P"
  shows "\<exists>b p. fmlookup (unconfirmed_blocks s) i = Some b \<and> block_id env b = i \<and>
    fmlookup (valid_blocks s) (prev_id b) = Some p \<and>
    pool_inv env P (take_unconfirmed i s) \<and> fresh_block env (take_unconfirmed i s) b"
proof -
  have ps: "pools env (insert i P) (valid_blocks s) (unconfirmed_blocks s) (invalid_blocks s) (next_blocks s)"
    using assms(1) by (simp add: pool_inv_def)
  obtain b p where b: "i |\<notin>| invalid_blocks s" "fmlookup (unconfirmed_blocks s) i = Some b"
      "fmlookup (valid_blocks s) (prev_id b) = Some p"
    using pools_pending [OF ps, of i] by blast
  have id: "block_id env b = i" "fmlookup (valid_blocks s) i = None"
    using pools_unconf [OF ps b(2)] by auto
  have "pool_inv env P (take_unconfirmed i s)"
    using pools_take [OF ps assms(2)] assms(1) by (simp add: pool_inv_def chain_inv_def)
  with b id show ?thesis by (auto simp: fresh_block_iff)
qed

section \<open>Validation as a work-list machine\<close>

text \<open>
  A configuration is the set of pending blocks with the state of the hub. A step takes one pending
  block out of the unconfirmed blocks and refuses it, or accepts it and makes the blocks that
  waited for it pending; the label lists the block that became valid.
\<close>

inductive vstep ::
    "('sk, 'n, 'st) hub_env \<Rightarrow> BlockId set \<times> ('n, 'st) hub \<Rightarrow> BlockId list \<Rightarrow>
     BlockId set \<times> ('n, 'st) hub \<Rightarrow> bool" for env where
  refuse: "\<lbrakk>i \<notin> P; fmlookup (unconfirmed_blocks s) i = Some b;
     check_block env (take_unconfirmed i s) b = Some (Rejected, s1)\<rbrakk> \<Longrightarrow>
     vstep env (insert i P, s) [] (P, s1)"
| accept: "\<lbrakk>i \<notin> P; fmlookup (unconfirmed_blocks s) i = Some b;
     accepts env (take_unconfirmed i s) b s1; enter_block env s1 b = Some (w, s2)\<rbrakk> \<Longrightarrow>
     vstep env (insert i P, s) [block_id env b] (set w \<union> P, s2)"

inductive vsteps ::
    "('sk, 'n, 'st) hub_env \<Rightarrow> BlockId set \<times> ('n, 'st) hub \<Rightarrow> BlockId list \<Rightarrow>
     BlockId set \<times> ('n, 'st) hub \<Rightarrow> bool" for env where
  stop: "vsteps env c [] c"
| go: "vstep env c ids c1 \<Longrightarrow> vsteps env c1 ids' c2 \<Longrightarrow> vsteps env c (ids @ ids') c2"

inductive_cases vstepE: "vstep env (Q, s) ids (P, s')"

lemma vsteps_trans: "vsteps env c ids c1 \<Longrightarrow> vsteps env c1 ids' c2 \<Longrightarrow> vsteps env c (ids @ ids') c2"
proof (induction rule: vsteps.induct)
  case (stop c)
  then show ?case by simp
next
  case (go c ids c1 ids1 c3)
  then show ?case using vsteps.go [OF go.hyps(1)] by (simp add: append_assoc)
qed

lemma vsteps_invariant:
  assumes "vsteps env c ids c'" "I c"
    and "\<And>c ids c'. I c \<Longrightarrow> vstep env c ids c' \<Longrightarrow> I c'"
  shows "I c'"
  using assms by (induction rule: vsteps.induct) blast+

text \<open>The two outcomes for a block whose parent is valid; both keep the invariant.\<close>

lemma check_block_outcome:
  assumes "orders_ok env" "no_zero_id env" "pool_inv env P s" "fresh_block env s b"
    and "check_block env s b = Some (v, s1)"
  shows "(v = Ambiguous \<and> fmlookup (valid_blocks s) (prev_id b) = None \<and> pool_inv env P s1 \<and>
      s1 = put_aside env s b) \<or>
    (v = Rejected \<and> fmlookup (valid_blocks s) (prev_id b) \<noteq> None \<and> pool_inv env P s1 \<and>
      (\<exists>S. s1 = reject env (with_cash S s) (block_id env b))) \<or>
    (v = Accepted \<and> accepts env s b s1 \<and>
      (\<exists>w s2. enter_block env s1 b = Some (w, s2) \<and> distinct w \<and> set w \<inter> P = {} \<and>
         pool_inv env (set w \<union> P) s2 \<and> valid_blocks s2 = fmupd (block_id env b) b (valid_blocks s)))"
  using check_block_cases [OF assms(5)]
proof (elim disjE conjE exE)
  assume v: "v = Ambiguous" "fmlookup (valid_blocks s) (prev_id b) = None" "s1 = put_aside env s b"
  then show ?thesis using put_aside_pool_inv [OF assms(3,4)] by blast
next
  fix S assume v: "v = Rejected" "fmlookup (valid_blocks s) (prev_id b) \<noteq> None"
    "s1 = reject env (with_cash S s) (block_id env b)"
  have "pool_inv env P s1"
    unfolding v(3) using assms by (intro reject_pool_inv) (simp_all add: fresh_block_iff)
  with v show ?thesis by blast
next
  fix S assume v: "v = Accepted"
  then have acc: "accepts env s b s1" using assms(5) by (simp add: check_block_Accepted)
  show ?thesis using enter_accepted [OF assms(1-4) acc] v acc by blast
qed

lemma vstep_pool_inv:
  assumes "orders_ok env" "no_zero_id env" "pool_inv env (fst c) (snd c)" "vstep env c ids c'"
  shows "pool_inv env (fst c') (snd c')"
  using assms(4,3)
proof (cases rule: vstep.cases)
  case (refuse i P s b s1)
  then have "pool_inv env P (take_unconfirmed i s)" "fresh_block env (take_unconfirmed i s) b"
    using take_pool_inv [of env i P s] assms(3) by auto
  from check_block_outcome [OF assms(1,2) this refuse(6)] refuse(3) show ?thesis by simp
next
  case (accept i P s b s1 w s2)
  then have "pool_inv env P (take_unconfirmed i s)" "fresh_block env (take_unconfirmed i s) b"
    using take_pool_inv [of env i P s] assms(3) by auto
  from enter_accepted [OF assms(1,2) this accept(6)] accept(3,7) show ?thesis by simp
qed

lemma vsteps_pool_inv:
  assumes "orders_ok env" "no_zero_id env" "vsteps env (P, s) ids (P', s')" "pool_inv env P s"
  shows "pool_inv env P' s'"
  using vsteps_invariant [OF assms(3), of "\<lambda>c. pool_inv env (fst c) (snd c)"] assms(4)
    vstep_pool_inv [OF assms(1,2)] by simp

text \<open>The loop of \<open>add_valid_block\<close> is a run of the machine that empties its list.\<close>

lemma validate_next_run:
  "validate_next env s is = Some (ids, s') \<Longrightarrow> orders_ok env \<Longrightarrow> no_zero_id env \<Longrightarrow>
    pool_inv env (set is \<union> P) s \<Longrightarrow> distinct is \<Longrightarrow> set is \<inter> P = {} \<Longrightarrow>
    vsteps env (set is \<union> P, s) ids (P, s')"
proof (induction env s "is" arbitrary: ids s' P rule: validate_next.induct)
  case (1 env s)
  then show ?case by (simp add: vsteps.stop)
next
  case (2 env s i "is")
  note env = "2.prems"(2,3)
  let ?Q = "set is \<union> P"
  have Q: "pool_inv env (insert i ?Q) s" "i \<notin> ?Q" "set is \<inter> P = {}" "distinct is"
    using "2.prems" by auto
  then obtain b where b: "fmlookup (unconfirmed_blocks s) i = Some b"
    and taken: "pool_inv env ?Q (take_unconfirmed i s)" "fresh_block env (take_unconfirmed i s) b"
    and parent: "fmlookup (valid_blocks s) (prev_id b) \<noteq> None"
    using take_pool_inv [OF Q(1,2)] by auto
  from "2.prems"(1) b obtain v s1 where chk: "check_block env (take_unconfirmed i s) b = Some (v, s1)"
    by (auto simp: bind_eq_Some_conv)
  from check_block_outcome [OF env taken chk] parent consider
      (rejected) "v = Rejected" "pool_inv env ?Q s1"
    | (accepted) w s2 where "v = Accepted" "accepts env (take_unconfirmed i s) b s1"
        "enter_block env s1 b = Some (w, s2)" "distinct w" "set w \<inter> ?Q = {}"
        "pool_inv env (set w \<union> ?Q) s2"
    by auto
  then show ?case
  proof cases
    case rejected
    have "validate_next env s1 is = Some (ids, s')" using "2.prems"(1) b chk rejected(1) by auto
    then have "vsteps env (?Q, s1) ids (P, s')"
      using "2.IH"(3) [OF b chk refl, of "([], s1)" "[]" s1] rejected env Q(3,4) by simp
    from vsteps.go [OF vstep.refuse [OF Q(2) b] this] chk rejected(1) show ?thesis by simp
  next
    case accepted
    from "2.prems"(1) b chk accepted(1,3) obtain more s4 rest where
      w: "validate_next env s2 w = Some (more, s4)"
      and r: "validate_next env s4 is = Some (rest, s')" and ids: "ids = block_id env b # more @ rest"
      by auto
    have one: "vsteps env (set w \<union> ?Q, s2) more (?Q, s4)"
      using "2.IH"(2) [OF b chk refl accepted(1,3) refl w env accepted(6,4,5)] .
    have "pool_inv env ?Q s4" using vsteps_pool_inv [OF env one accepted(6)] .
    then have two: "vsteps env (?Q, s4) rest (P, s')"
      using "2.IH"(3) [OF b chk refl _ refl r env] accepted(1,3) w Q(3,4) by simp
    from vsteps.go [OF vstep.accept [OF Q(2) b accepted(2,3)] vsteps_trans [OF one two]]
    show ?thesis by (simp add: ids)
  qed
qed

end
