(* ===== verification/Block_Admission.thy ===== *)
theory Block_Admission
  imports Validation_Steps
begin

text \<open>
  What one call of \<open>validate_block\<close> does to the hub as a whole: the invariant of the pools, the
  blocks that became valid and the identifiers returned for them, the mempool and the leader.
\<close>

section \<open>Growth of the valid chain\<close>

text \<open>\<open>same_node\<close>: the parts of the state that validation never touches.\<close>

definition same_node :: "('n, 'st) hub \<Rightarrow> ('n, 'st) hub \<Rightarrow> bool" where
  "same_node s s' \<longleftrightarrow> hub_config s' = hub_config s \<and> genesis_id s' = genesis_id s \<and>
     peers s' = peers s \<and> annoucements s' = annoucements s \<and> local_node_id s' = local_node_id s"

text \<open>\<open>mined_in c s ids t\<close>: transaction \<open>t\<close> is in one of the valid blocks \<open>ids\<close>.\<close>

definition mined_in :: "('sk, 'z) codec_scheme \<Rightarrow> BlockMap \<Rightarrow> BlockId list \<Rightarrow> TransactionId \<Rightarrow> bool" where
  "mined_in c m ids t \<longleftrightarrow> (\<exists>j \<in> set ids. \<exists>b. fmlookup m j = Some b \<and>
     (\<exists>x \<in> set (transactions b). txn_id c x = t))"

definition adds_blocks :: "BlockMap \<Rightarrow> BlockId list \<Rightarrow> BlockMap \<Rightarrow> bool" where
  "adds_blocks m ids m' \<longleftrightarrow> distinct ids \<and> (\<forall>j \<in> set ids. fmlookup m j = None) \<and>
     (\<forall>j. fmlookup m' j = None \<longleftrightarrow> fmlookup m j = None \<and> j \<notin> set ids) \<and>
     (\<forall>j b. fmlookup m j = Some b \<longrightarrow> fmlookup m' j = Some b)"

text \<open>The leader only ever moves to a strictly higher new block.\<close>

definition leader_moves :: "BlockMap \<Rightarrow> BlockId \<Rightarrow> BlockId list \<Rightarrow> BlockMap \<Rightarrow> BlockId \<Rightarrow> bool" where
  "leader_moves m i ids m' i' \<longleftrightarrow> i' = i \<or> (i' \<in> set ids \<and>
     (\<forall>l l'. fmlookup m i = Some l \<longrightarrow> fmlookup m' i' = Some l' \<longrightarrow> height l < height l'))"

definition grows ::
    "('sk, 'n, 'st) hub_env \<Rightarrow> ('n, 'st) hub \<Rightarrow> BlockId list \<Rightarrow> ('n, 'st) hub \<Rightarrow> bool" where
  "grows env s ids s' \<longleftrightarrow> same_node s s' \<and>
     adds_blocks (valid_blocks s) ids (valid_blocks s') \<and>
     leader_moves (valid_blocks s) (leading_block s) ids (valid_blocks s') (leading_block s') \<and>
     (\<forall>t. fmlookup (mempool s') t =
        (if mined_in env (valid_blocks s') ids t then None else fmlookup (mempool s) t))"

lemma same_node_trans: "same_node s s1 \<Longrightarrow> same_node s1 s2 \<Longrightarrow> same_node s s2"
  by (simp add: same_node_def)

lemma adds_blocks_kept:
  "adds_blocks m ids m' \<Longrightarrow> fmlookup m j = Some b \<Longrightarrow> fmlookup m' j = Some b"
  by (simp add: adds_blocks_def)

lemma adds_blocks_new: "adds_blocks m ids m' \<Longrightarrow> j \<in> set ids \<Longrightarrow> \<exists>b. fmlookup m' j = Some b"
  by (cases "fmlookup m' j") (auto simp: adds_blocks_def)

lemma adds_blocks_refl: "adds_blocks m [] m"
  by (simp add: adds_blocks_def)

lemma adds_blocks_insert: "fmlookup m i = None \<Longrightarrow> adds_blocks m [i] (fmupd i b m)"
  by (auto simp: adds_blocks_def)

lemma adds_blocks_trans:
  "adds_blocks m ids m1 \<Longrightarrow> adds_blocks m1 ids' m2 \<Longrightarrow> adds_blocks m (ids @ ids') m2"
  unfolding adds_blocks_def by auto

lemma leader_moves_trans:
  assumes "leader_moves m i ids m1 i1" "leader_moves m1 i1 ids' m2 i2"
    and "adds_blocks m ids m1" "adds_blocks m1 ids' m2"
  shows "leader_moves m i (ids @ ids') m2 i2"
proof (cases "i1 = i \<or> i2 = i1")
  case True
  with assms show ?thesis
    using adds_blocks_kept [OF assms(3)] adds_blocks_kept [OF assms(4)] adds_blocks_new [OF assms(3)]
    by (fastforce simp: leader_moves_def)
next
  case False
  with assms(1,2) have "i1 \<in> set ids" "i2 \<in> set ids'" by (auto simp: leader_moves_def)
  moreover obtain b where "fmlookup m1 i1 = Some b" using adds_blocks_new [OF assms(3) calculation(1)] by auto
  ultimately show ?thesis using assms(1,2) False by (fastforce simp: leader_moves_def)
qed

lemma mined_in_append:
  assumes "adds_blocks m ids m1" "adds_blocks m1 ids' m2"
  shows "mined_in c m2 (ids @ ids') t \<longleftrightarrow> mined_in c m1 ids t \<or> mined_in c m2 ids' t"
proof -
  have "fmlookup m2 j = fmlookup m1 j" if "j \<in> set ids" for j
    using adds_blocks_new [OF assms(1) that] adds_blocks_kept [OF assms(2)] by auto
  then show ?thesis by (fastforce simp: mined_in_def)
qed

lemma grows_same: "grows env s ids s' \<Longrightarrow> same_node s s'"
  and grows_adds: "grows env s ids s' \<Longrightarrow> adds_blocks (valid_blocks s) ids (valid_blocks s')"
  and grows_leader: "grows env s ids s' \<Longrightarrow>
    leader_moves (valid_blocks s) (leading_block s) ids (valid_blocks s') (leading_block s')"
  and grows_mempool: "grows env s ids s' \<Longrightarrow> fmlookup (mempool s') t =
    (if mined_in env (valid_blocks s') ids t then None else fmlookup (mempool s) t)"
  by (simp_all add: grows_def)

lemma grows_trans: "grows env s ids s1 \<Longrightarrow> grows env s1 ids' s2 \<Longrightarrow> grows env s (ids @ ids') s2"
  using mined_in_append [OF grows_adds grows_adds, of env s ids s1 env ids' s2 env]
    same_node_trans [of s s1 s2] leader_moves_trans [OF grows_leader grows_leader grows_adds grows_adds,
      of env s ids s1 env ids' s2 env env]
    adds_blocks_trans [of "valid_blocks s" ids "valid_blocks s1" ids']
  by (auto simp: grows_def)

lemma grows_still:
  "same_node s s' \<Longrightarrow> valid_blocks s' = valid_blocks s \<Longrightarrow> mempool s' = mempool s \<Longrightarrow>
     leading_block s' = leading_block s \<Longrightarrow> grows env s [] s'"
  by (simp add: grows_def leader_moves_def adds_blocks_refl mined_in_def)

lemma accepts_frame:
  assumes "accepts env s b s1"
  shows "same_node s s1" "valid_blocks s1 = valid_blocks s" "mempool s1 = mempool s"
    "unconfirmed_blocks s1 = unconfirmed_blocks s" "leading_block s1 = leading_block s"
  using accepts_with_cash [OF assms] by (auto simp: same_node_def)

lemma enter_block_grows:
  assumes e: "enter_block env s b = Some (w, s')" and new: "fmlookup (valid_blocks s) (block_id env b) = None"
  shows "grows env s [block_id env b] s'"
proof -
  have "same_node s s'" "valid_blocks s' = fmupd (block_id env b) b (valid_blocks s)"
      "mempool s' = fmfilter (\<lambda>t. \<not> list_ex (\<lambda>x. txn_id env x = t) (transactions b)) (mempool s)"
    using e by (auto simp: enter_block_def same_node_def Let_def)
  moreover have "leader_moves (valid_blocks s) (leading_block s) [block_id env b] (valid_blocks s') (leading_block s')"
    using e new by (auto simp: enter_block_def leading_block_seqno_def Let_def leader_moves_def word_less_nat_alt
        split: if_splits)
  ultimately show ?thesis
    using adds_blocks_insert [OF new, of b] by (auto simp: grows_def mined_in_def list_ex_iff)
qed

lemma reject_grows: "grows env s [] (reject env (with_cash S s) i)"
  by (intro grows_still) (simp_all add: same_node_def)

lemma take_grows: "grows env s [] (take_unconfirmed i s)"
  by (intro grows_still) (simp_all add: same_node_def)

lemma put_aside_grows: "grows env s [] (put_aside env s b)"
  by (intro grows_still) (simp_all add: same_node_def put_aside_def)

lemma accepted_grows:
  assumes "accepts env s b s1" "enter_block env s1 b = Some (w, s2)"
    and "fmlookup (valid_blocks s) (block_id env b) = None"
  shows "grows env s [block_id env b] s2"
  using grows_trans [OF grows_still [OF accepts_frame(1,2,3,5) [OF assms(1)]] enter_block_grows [OF assms(2)]]
    assms(3) accepts_frame(2) [OF assms(1)] by simp

lemma vstep_grows:
  assumes inv: "pool_inv env (fst c) (snd c)" and step: "vstep env c ids c'"
  shows "grows env (snd c) ids (snd c')"
  using step
proof (cases rule: vstep.cases)
  case (refuse i P s b s1)
  obtain S where "s1 = reject env (with_cash S (take_unconfirmed i s)) (block_id env b)"
    using check_block_cases [OF refuse(6)] by auto
  then show ?thesis
    using refuse grows_trans [OF take_grows reject_grows, of env s S i "block_id env b"] by simp
next
  case (accept i P s b s1 w s2)
  have "fresh_block env (take_unconfirmed i s) b"
    using take_pool_inv [of env i P s] inv accept by auto
  then have "grows env (take_unconfirmed i s) [block_id env b] s2"
    by (intro accepted_grows [OF accept(6,7)]) (simp add: fresh_block_iff)
  from grows_trans [OF take_grows this] accept show ?thesis by simp
qed

lemma vsteps_grows:
  assumes "orders_ok env" "no_zero_id env"
  shows "vsteps env c ids c' \<Longrightarrow> pool_inv env (fst c) (snd c) \<Longrightarrow> grows env (snd c) ids (snd c')"
proof (induction rule: vsteps.induct)
  case (stop c)
  show ?case by (intro grows_still) (simp_all add: same_node_def)
next
  case (go c ids c1 ids' c2)
  show ?case
    using grows_trans [OF vstep_grows [OF go.prems go.hyps(1)] go.IH]
      vstep_pool_inv [OF assms go.prems go.hyps(1)] by simp
qed

section \<open>One call of \<open>validate_block\<close>\<close>

text \<open>The three ways a call can end, for a block the hub does not know yet.\<close>

lemma validate_block_outcome:
  assumes env: "orders_ok env" "no_zero_id env" and inv: "pool_inv env {} s"
    and fresh: "fresh_block env s b" and call: "validate_block env s b = Some (ids, s')"
  obtains (ambiguous) "ids = []" "fmlookup (valid_blocks s) (prev_id b) = None" "s' = put_aside env s b"
    | (rejected) S where "ids = []" "check_block env s b = Some (Rejected, s')"
        "s' = reject env (with_cash S s) (block_id env b)"
    | (accepted) s1 w s2 more where "accepts env s b s1" "enter_block env s1 b = Some (w, s2)"
        "ids = block_id env b # more" "pool_inv env (set w) s2" "vsteps env (set w, s2) more ({}, s')"
proof -
  from call obtain v s1 where chk: "check_block env s b = Some (v, s1)"
    by (auto simp: validate_block_def)
  from check_block_outcome [OF env inv fresh chk] show thesis
  proof (elim disjE conjE exE)
    assume "v = Ambiguous" "fmlookup (valid_blocks s) (prev_id b) = None" "s1 = put_aside env s b"
    with call chk show thesis by (intro ambiguous) (auto simp: validate_block_def)
  next
    fix S assume "v = Rejected" "s1 = reject env (with_cash S s) (block_id env b)"
    with call chk show thesis by (intro rejected [of S]) (auto simp: validate_block_def)
  next
    fix w s2
    assume acc: "v = Accepted" "accepts env s b s1" and e: "enter_block env s1 b = Some (w, s2)"
      and w: "distinct w" and pinv: "pool_inv env (set w \<union> {}) s2"
    from call chk acc(1) e obtain more where
      more: "validate_next env s2 w = Some (more, s')" and ids: "ids = block_id env b # more"
      by (auto simp: validate_block_def add_valid_block_def)
    have "vsteps env (set w, s2) more ({}, s')"
      using validate_next_run [OF more env pinv w] by simp
    with acc e ids pinv show thesis by (intro accepted) auto
  qed
qed

lemma validate_block_pool_inv:
  assumes "orders_ok env" "no_zero_id env" "pool_inv env {} s" "fresh_block env s b"
    and "validate_block env s b = Some (ids, s')"
  shows "pool_inv env {} s'"
  using assms
proof (cases rule: validate_block_outcome)
  case ambiguous
  then show ?thesis using put_aside_pool_inv assms(3,4) by blast
next
  case (rejected S)
  then show ?thesis
    using reject_pool_inv [OF assms(1), of "{}" "with_cash S s" "block_id env b"] assms(3,4)
    by (simp add: fresh_block_iff)
next
  case (accepted s1 w s2 more)
  then show ?thesis using vsteps_pool_inv [OF assms(1,2)] by blast
qed

lemma validate_block_grows:
  assumes "orders_ok env" "no_zero_id env" "pool_inv env {} s" "fresh_block env s b"
    and "validate_block env s b = Some (ids, s')"
  shows "grows env s ids s'"
  using assms
proof (cases rule: validate_block_outcome)
  case ambiguous
  then show ?thesis by (simp add: put_aside_grows)
next
  case (rejected S)
  then show ?thesis by (simp add: reject_grows)
next
  case (accepted s1 w s2 more)
  have "grows env s [block_id env b] s2"
    using accepted_grows [OF accepted(1,2)] assms(4) by (simp add: fresh_block_iff)
  from grows_trans [OF this] vsteps_grows [OF assms(1,2) accepted(5)] accepted show ?thesis by simp
qed

end
