(* ===== verification/Peer_Hub.thy ===== *)
theory Peer_Hub
  imports Block_Admission Chain_Walks
begin

text \<open>
  The hub actor of \<open>src/src/peerhub.rs\<close>: sending to peers, the messages the actor receives and its
  handler, one definition per arm. An arm returns \<open>None\<close> where the code panics or does not return,
  and otherwise the \<open>Result\<close> of the handler, with the value sent on the reply port, and the state.
  A reply port is modelled by whether its receiver still waits.
\<close>

section \<open>Sending\<close>

datatype hub_error =
    NoSuchPeer
  | EncodeFailed
  | WriteFailed
  | NoSuchTransaction
  | NoSuchBlock
  | ReplyDropped

definition write_frame :: "('sk, 'n, 'st) hub_env \<Rightarrow> 'st \<Rightarrow> u8 list \<Rightarrow> 'st \<times> bool" where
  "write_frame env st encoded =
     (case write_all env st (to_be_bytes 4 (of_nat (length encoded) :: u32)) of
        (st1, False) \<Rightarrow> (st1, False)
      | (st1, True) \<Rightarrow>
          (case write_all env st1 encoded of
             (st2, False) \<Rightarrow> (st2, False)
           | (st2, True) \<Rightarrow> flush_stream env st2))"

definition send_to_peer ::
    "('sk, 'n, 'st) hub_env \<Rightarrow> ('n, 'st) hub \<Rightarrow> 'n PeerMessage \<Rightarrow> 'n \<Rightarrow>
     (hub_error + unit) \<times> ('n, 'st) hub" where
  "send_to_peer env s msg node_id =
     (case fmlookup (peers s) node_id of
        None \<Rightarrow> (Inl NoSuchPeer, s)
      | Some st \<Rightarrow>
          (case enc_message env msg of
             None \<Rightarrow> (Inl EncodeFailed, s)
           | Some encoded \<Rightarrow>
               (case write_frame env st encoded of
                  (st', done_ok) \<Rightarrow>
                    (if done_ok then Inr () else Inl WriteFailed,
                     s\<lparr>peers := fmupd node_id st' (peers s)\<rparr>))))"

fun broadcast_loop ::
    "('sk, 'n, 'st) hub_env \<Rightarrow> 'n \<Rightarrow> u8 list \<Rightarrow> 'n list \<Rightarrow> ('n, 'st) fmap \<Rightarrow>
     (hub_error + unit) \<times> ('n, 'st) fmap" where
  "broadcast_loop env node_id encoded [] m = (Inr (), m)"
| "broadcast_loop env node_id encoded (i # is) m =
     (if i = node_id then broadcast_loop env node_id encoded is m
      else case fmlookup m i of
        None \<Rightarrow> broadcast_loop env node_id encoded is m
      | Some st \<Rightarrow>
          (case write_frame env st encoded of
             (st', False) \<Rightarrow> (Inl WriteFailed, fmupd i st' m)
           | (st', True) \<Rightarrow> broadcast_loop env node_id encoded is (fmupd i st' m)))"

definition broadcast ::
    "('sk, 'n, 'st) hub_env \<Rightarrow> ('n, 'st) hub \<Rightarrow> 'n \<Rightarrow> BroadcastMessage \<Rightarrow>
     (hub_error + unit) \<times> ('n, 'st) hub" where
  "broadcast env s node_id msg =
     (case enc_message env (Broadcast msg) of
        None \<Rightarrow> (Inl EncodeFailed, s)
      | Some encoded \<Rightarrow>
          (case broadcast_loop env node_id encoded (peer_order env (fmdom (peers s))) (peers s) of
             (r, m) \<Rightarrow> (r, s\<lparr>peers := m\<rparr>)))"

text \<open>The loop of \<open>NewBlock\<close> that announces every block that became valid.\<close>

fun announce_blocks ::
    "('sk, 'n, 'st) hub_env \<Rightarrow> ('n, 'st) hub \<Rightarrow> BlockId list \<Rightarrow>
     (hub_error + unit) \<times> ('n, 'st) hub" where
  "announce_blocks env s [] = (Inr (), s)"
| "announce_blocks env s (i # is) =
     (case broadcast env s (local_node_id s) (BroadcastBlock i) of
        (Inl e, s1) \<Rightarrow> (Inl e, s1)
      | (Inr _, s1) \<Rightarrow> announce_blocks env s1 is)"

section \<open>Messages to the actor\<close>

datatype 'n reply =
    BoolReply bool
  | TransactionReply "Transaction option"
  | TransactionsReply "Transaction option list"
  | DepthReply "u64 option"
  | DepthsReply "u64 option list"
  | BlockReply "Block option"
  | PeersReply "'n list"
  | NodeIdReply 'n
  | MemPoolReply "(TransactionId \<times> u64) list"
  | BlockIdReply BlockId
  | TimestampReply Timestamp
  | CashSetReply "Cash fset"

type_synonym reply_port = bool

datatype ('n, 'st) PeerHubActorMessage =
    ShouldConnect 'n reply_port
  | NewPeer 'n 'st bool reply_port
  | AnnounceTransaction 'n TransactionId
  | AnnounceBlock 'n BlockId
  | GetTransaction 'n TransactionId
  | GetBlock 'n BlockId
  | NewTransaction Transaction
  | NewBlock "'n option" Block
  | QueryTransaction TransactionId reply_port
  | QueryTransactions "TransactionId list" reply_port
  | QueryTransactionDepth TransactionId reply_port
  | QueryTransactionDepths "TransactionId list" reply_port
  | QueryBlock BlockId reply_port
  | QueryPeers reply_port
  | QueryLocalNodeId reply_port
  | QueryMemPool reply_port
  | QueryLeadingBlock reply_port
  | QueryDifficultyAdjustTime SequenceNo reply_port
  | QueryLeadingCashSet reply_port

type_synonym ('n, 'st) handled = "((hub_error + 'n reply option) \<times> ('n, 'st) hub) option"

definition send_reply :: "reply_port \<Rightarrow> 'n reply \<Rightarrow> hub_error + 'n reply option" where
  "send_reply port r = (if port then Inr (Some r) else Inl ReplyDropped)"

text \<open>An arm that ends with a send: its \<open>Result\<close> without a reply.\<close>

definition no_reply :: "(hub_error + unit) \<times> ('n, 'st) hub \<Rightarrow> ('n, 'st) handled" where
  "no_reply r = Some (map_prod (map_sum id (\<lambda>_. None)) id r)"

section \<open>The arms of the handler\<close>

definition PEER_SIZE_LIMIT :: nat where "PEER_SIZE_LIMIT = 3"

definition should_connect :: "('n, 'st) hub \<Rightarrow> 'n \<Rightarrow> bool" where
  "should_connect s node_id =
     (if PEER_SIZE_LIMIT \<le> fcard (fmdom (peers s)) then False
      else node_id |\<notin>| fmdom (peers s))"

text \<open>Node identifiers are ordered; a connection from both sides is kept by the smaller one.\<close>

definition new_peer ::
    "('n::linorder, 'st) hub \<Rightarrow> 'n \<Rightarrow> 'st \<Rightarrow> bool \<Rightarrow> reply_port \<Rightarrow> ('n, 'st) handled" where
  "new_peer s node_id send_stream connecting port =
     (if PEER_SIZE_LIMIT \<le> fcard (fmdom (peers s)) then Some (send_reply port (BoolReply False), s)
      else if node_id |\<notin>| fmdom (peers s) \<or> \<not> ((local_node_id s < node_id) \<noteq> connecting)
      then Some (send_reply port (BoolReply True),
                 s\<lparr>peers := fmupd node_id send_stream (peers s)\<rparr>)
      else Some (send_reply port (BoolReply False), s))"

definition announce_transaction ::
    "('sk, 'n, 'st) hub_env \<Rightarrow> ('n, 'st) hub \<Rightarrow> 'n \<Rightarrow> TransactionId \<Rightarrow> ('n, 'st) handled" where
  "announce_transaction env s node_id t =
     (if knows_transaction s t then Some (Inr None, s)
      else no_reply (send_to_peer env (s\<lparr>annoucements := fmupd t node_id (annoucements s)\<rparr>)
             (GetTransactionRequest t) node_id))"

definition new_transaction ::
    "('sk, 'n, 'st) hub_env \<Rightarrow> ('n, 'st) hub \<Rightarrow> Transaction \<Rightarrow> ('n, 'st) handled" where
  "new_transaction env s txn =
     (let t = txn_id env txn in
      if t |\<in>| fmdom (mempool s) then Some (Inr None, s)
      else case broadcast env (s\<lparr>mempool := fmupd t txn (mempool s)\<rparr>) (local_node_id s)
                  (BroadcastTransaction t) of
        (Inl e, s1) \<Rightarrow> Some (Inl e, s1)
      | (Inr _, s1) \<Rightarrow> Some (Inr None, s1\<lparr>annoucements := fmdrop t (annoucements s1)\<rparr>))"

definition get_transaction ::
    "('sk, 'n, 'st) hub_env \<Rightarrow> ('n, 'st) hub \<Rightarrow> 'n \<Rightarrow> TransactionId \<Rightarrow> ('n, 'st) handled" where
  "get_transaction env s node_id t =
     (case fmlookup (mempool s) t of
        None \<Rightarrow> Some (Inl NoSuchTransaction, s)
      | Some txn \<Rightarrow> no_reply (send_to_peer env s (GetTransactionResponse txn) node_id))"

definition announce_block ::
    "('sk, 'n, 'st) hub_env \<Rightarrow> ('n, 'st) hub \<Rightarrow> 'n \<Rightarrow> BlockId \<Rightarrow> ('n, 'st) handled" where
  "announce_block env s node_id i =
     (if knows_block s i then Some (Inr None, s)
      else no_reply (send_to_peer env s (GetBlockRequest i) node_id))"

definition get_block ::
    "('sk, 'n, 'st) hub_env \<Rightarrow> ('n, 'st) hub \<Rightarrow> 'n \<Rightarrow> BlockId \<Rightarrow> ('n, 'st) handled" where
  "get_block env s node_id i =
     (case fmlookup (valid_blocks s) i of
        None \<Rightarrow> Some (Inl NoSuchBlock, s)
      | Some b \<Rightarrow> no_reply (send_to_peer env s (GetBlockResponse (local_node_id s) b) node_id))"

text \<open>After \<open>validate_block\<close>: ask for what is missing, or announce what became valid.\<close>

definition after_validation ::
    "('sk, 'n, 'st) hub_env \<Rightarrow> ('n, 'st) hub \<Rightarrow> 'n option \<Rightarrow> BlockId \<Rightarrow> BlockId \<Rightarrow> BlockId list \<Rightarrow>
     ('n, 'st) handled" where
  "after_validation env s node_id i prev valid_ids =
     (if valid_ids = [] then
        (if i |\<in>| fmdom (unconfirmed_blocks s) then do {
           missing_root \<leftarrow> block_root s prev;
           (if missing_root = genesis_id s then None
            else case node_id of
              Some node \<Rightarrow> no_reply (send_to_peer env s (GetBlockRequest missing_root) node)
            | None \<Rightarrow> Some (Inr None, s)) }
         else Some (Inr None, s))
      else no_reply (announce_blocks env s valid_ids))"

definition new_block ::
    "('sk, 'n, 'st) hub_env \<Rightarrow> Timestamp \<Rightarrow> ('n, 'st) hub \<Rightarrow> 'n option \<Rightarrow> Block \<Rightarrow>
     ('n, 'st) handled" where
  "new_block env now s node_id b =
     (if block_id env b |\<in>| invalid_blocks s then Some (Inr None, s)
      else if knows_block s (block_id env b) then Some (Inr None, s)
      else if now < timestamp b then Some (Inr None, reject env s (block_id env b))
      else do {
        (valid_ids, s1) \<leftarrow> validate_block env s b;
        after_validation env s1 node_id (block_id env b) (prev_id b) valid_ids })"

text \<open>\<open>collect\<close> over an iterator whose closure may panic.\<close>

fun collect :: "('a \<Rightarrow> 'b option) \<Rightarrow> 'a list \<Rightarrow> 'b list option" where
  "collect f [] = Some []"
| "collect f (x # xs) = do { y \<leftarrow> f x; ys \<leftarrow> collect f xs; Some (y # ys) }"

definition mempool_fee :: "('n, 'st) hub \<Rightarrow> TransactionId \<Rightarrow> (TransactionId \<times> u64) option" where
  "mempool_fee s t =
     (case fmlookup (mempool s) t of
        None \<Rightarrow> None
      | Some txn \<Rightarrow> map_option (Pair t) (fee txn))"

definition query_mempool ::
    "('sk, 'n, 'st) hub_env \<Rightarrow> ('n, 'st) hub \<Rightarrow> (TransactionId \<times> u64) list option" where
  "query_mempool env s = collect (mempool_fee s) (txn_order env (fmdom (mempool s)))"

definition query_depth ::
    "('sk, 'n, 'st) hub_env \<Rightarrow> ('n, 'st) hub \<Rightarrow> TransactionId \<Rightarrow> u64 option option" where
  "query_depth env s t = map_option (\<lambda>chain. transaction_depth env chain t) (confirmed_chain s)"

definition query_depths ::
    "('sk, 'n, 'st) hub_env \<Rightarrow> ('n, 'st) hub \<Rightarrow> TransactionId list \<Rightarrow> u64 option list option" where
  "query_depths env s ts =
     map_option (\<lambda>chain. map (transaction_depth env chain) ts) (confirmed_chain s)"

text \<open>\<open>unwrap\<close> on \<open>cash_set_at\<close>: \<open>None\<close> panics.\<close>

definition query_leading_cash ::
    "('sk, 'n, 'st) hub_env \<Rightarrow> ('n, 'st) hub \<Rightarrow> (Cash fset \<times> ('n, 'st) hub) option" where
  "query_leading_cash env s = do {
     (found, s1) \<leftarrow> cash_set_at env s (leading_block s);
     (case found of
        None \<Rightarrow> None
      | Some cash \<Rightarrow> Some (cs_set cash, s1)) }"

section \<open>The handler\<close>

fun handle ::
    "('sk, 'n::linorder, 'st) hub_env \<Rightarrow> Timestamp \<Rightarrow> ('n, 'st) hub \<Rightarrow>
     ('n, 'st) PeerHubActorMessage \<Rightarrow> ('n, 'st) handled" where
  "handle env now s (ShouldConnect node_id port) =
     Some (send_reply port (BoolReply (should_connect s node_id)), s)"
| "handle env now s (AnnounceTransaction node_id t) = announce_transaction env s node_id t"
| "handle env now s (NewPeer node_id send_stream connecting port) =
     new_peer s node_id send_stream connecting port"
| "handle env now s (NewTransaction txn) = new_transaction env s txn"
| "handle env now s (GetTransaction node_id t) = get_transaction env s node_id t"
| "handle env now s (QueryTransaction t port) =
     Some (send_reply port (TransactionReply (fmlookup (mempool s) t)), s)"
| "handle env now s (QueryPeers port) =
     Some (send_reply port (PeersReply (peer_order env (fmdom (peers s)))), s)"
| "handle env now s (AnnounceBlock node_id i) = announce_block env s node_id i"
| "handle env now s (GetBlock node_id i) = get_block env s node_id i"
| "handle env now s (NewBlock node_id b) = new_block env now s node_id b"
| "handle env now s (QueryBlock i port) =
     Some (send_reply port (BlockReply (fmlookup (valid_blocks s) i)), s)"
| "handle env now s (QueryLocalNodeId port) =
     Some (send_reply port (NodeIdReply (local_node_id s)), s)"
| "handle env now s (QueryMemPool port) =
     map_option (\<lambda>amounts. (send_reply port (MemPoolReply amounts), s)) (query_mempool env s)"
| "handle env now s (QueryTransactions ts port) =
     Some (send_reply port (TransactionsReply (map (fmlookup (mempool s)) ts)), s)"
| "handle env now s (QueryLeadingBlock port) =
     Some (send_reply port (BlockIdReply (leading_block s)), s)"
| "handle env now s (QueryTransactionDepth t port) =
     map_option (\<lambda>d. (send_reply port (DepthReply d), s)) (query_depth env s t)"
| "handle env now s (QueryTransactionDepths ts port) =
     map_option (\<lambda>ds. (send_reply port (DepthsReply ds), s)) (query_depths env s ts)"
| "handle env now s (QueryDifficultyAdjustTime n port) =
     map_option (\<lambda>b. (send_reply port (TimestampReply (timestamp b)), s))
       (prev_difficulty_adjusted_block s n)"
| "handle env now s (QueryLeadingCashSet port) =
     map_option (\<lambda>(cash, s1). (send_reply port (CashSetReply cash), s1)) (query_leading_cash env s)"

end
