(* ===== verification/Actor.thy ===== *)
theory Actor
  imports Prelude
begin

text \<open>
  The interface the actor framework gives: a state built from the arguments by \<open>pre_start\<close>, then
  messages handled one at a time, each by a step from state to state. An invariant that holds at the
  start and is kept by every message of the right type holds in every state the actor reaches.
\<close>

inductive reachable :: "('s \<Rightarrow> bool) \<Rightarrow> ('m \<Rightarrow> bool) \<Rightarrow> ('s \<Rightarrow> 'm \<Rightarrow> 's \<Rightarrow> bool) \<Rightarrow> 's \<Rightarrow> bool"
  for start typed step where
  started: "start s \<Longrightarrow> reachable start typed step s"
| handled: "reachable start typed step s \<Longrightarrow> typed m \<Longrightarrow> step s m s' \<Longrightarrow> reachable start typed step s'"

text \<open>Reachability only grows when the start, the types or the steps are weakened.\<close>

lemma reachable_mono:
  assumes "reachable start typed step s"
    and "\<And>s. start s \<Longrightarrow> start' s" "\<And>m. typed m \<Longrightarrow> typed' m" "\<And>s m s'. step s m s' \<Longrightarrow> step' s m s'"
  shows "reachable start' typed' step' s"
  using assms(1) by (induction rule: reachable.induct) (blast intro: reachable.intros assms(2-4))+

locale actor =
  fixes start :: "'s \<Rightarrow> bool"
    and typed :: "'m \<Rightarrow> bool"
    and step :: "'s \<Rightarrow> 'm \<Rightarrow> 's \<Rightarrow> bool"
    and inv :: "'s \<Rightarrow> bool"
  assumes start_inv: "start s \<Longrightarrow> inv s"
    and step_inv: "inv s \<Longrightarrow> typed m \<Longrightarrow> step s m s' \<Longrightarrow> inv s'"
begin

lemma reachable_inv: "reachable start typed step s \<Longrightarrow> inv s"
  by (induction rule: reachable.induct) (blast intro: start_inv step_inv)+

text \<open>What every step preserves from an invariant state, and every start has, holds throughout.\<close>

lemma reachable_also:
  assumes "reachable start typed step s"
    and "\<And>s. start s \<Longrightarrow> Q s"
    and "\<And>s m s'. inv s \<Longrightarrow> Q s \<Longrightarrow> typed m \<Longrightarrow> step s m s' \<Longrightarrow> Q s'"
  shows "Q s"
  using assms(1)
proof (induction rule: reachable.induct)
  case (started s)
  then show ?case by (rule assms(2))
next
  case (handled s m s')
  then show ?case using assms(3) reachable_inv by blast
qed

end

text \<open>An actor refines a specification if every message it handles is a run of the specification.\<close>

locale refining_actor = actor start typed step inv
  for start :: "'s \<Rightarrow> bool" and typed :: "'m \<Rightarrow> bool" and step :: "'s \<Rightarrow> 'm \<Rightarrow> 's \<Rightarrow> bool"
    and inv :: "'s \<Rightarrow> bool" +
  fixes abstraction :: "'s \<Rightarrow> 'a"
    and spec_step :: "'a \<Rightarrow> 'a \<Rightarrow> bool"
  assumes step_refines: "inv s \<Longrightarrow> typed m \<Longrightarrow> step s m s' \<Longrightarrow>
    spec_step\<^sup>*\<^sup>* (abstraction s) (abstraction s')"
begin

lemma reachable_refines:
  assumes "reachable ((=) s0) typed step s" "start s0"
  shows "spec_step\<^sup>*\<^sup>* (abstraction s0) (abstraction s)"
  using assms(1)
proof (induction rule: reachable.induct)
  case (started s)
  then show ?case by simp
next
  case (handled s m s')
  have "reachable start typed step s"
    by (rule reachable_mono [OF handled.hyps(1)]) (use assms(2) in auto)
  then have "spec_step\<^sup>*\<^sup>* (abstraction s) (abstraction s')"
    using step_refines [OF reachable_inv] handled.hyps by blast
  with handled.IH show ?case by (rule rtranclp_trans)
qed

end

end
