(* ===== verification/Hub_Invariant.thy ===== *)
theory Hub_Invariant
  imports Peer_Hub Actor
begin

text \<open>
  The invariant of the hub actor, kept by every message, and its consequences for the arms of the
  handler: no panic in the arms that rely on it.
\<close>

section \<open>Sending only touches the streams\<close>

definition same_but_streams :: "('n, 'st) hub \<Rightarrow> ('n, 'st) hub \<Rightarrow> bool" where
  "same_but_streams s s' \<longleftrightarrow> (\<exists>m. s' = s\<lparr>peers := m\<rparr> \<and> fmdom m = fmdom (peers s))"

lemma same_but_streams_refl: "same_but_streams s s"
  unfolding same_but_streams_def by (rule exI [of _ "peers s"]) simp

lemma same_but_streams_trans:
  "same_but_streams s s1 \<Longrightarrow> same_but_streams s1 s2 \<Longrightarrow> same_but_streams s s2"
  unfolding same_but_streams_def by auto

lemma fmdom_update: "fmlookup m i = Some x \<Longrightarrow> fmdom (fmupd i y m) = fmdom m"
  by (auto intro: fmdomI)

lemma same_but_streams_upd:
  "fmlookup (peers s) i = Some x \<Longrightarrow> same_but_streams s (s\<lparr>peers := fmupd i y (peers s)\<rparr>)"
  unfolding same_but_streams_def by (rule exI, rule conjI, rule refl, rule fmdom_update)

lemma send_to_peer_frame: "send_to_peer env s msg i = (r, s') \<Longrightarrow> same_but_streams s s'"
  by (auto simp: send_to_peer_def same_but_streams_refl same_but_streams_upd
      split: option.splits prod.splits)

lemma broadcast_loop_frame:
  "broadcast_loop env i bs is m = (r, m') \<Longrightarrow> fmdom m' = fmdom m"
  by (induction env i bs "is" m rule: broadcast_loop.induct)
     (auto simp: fmdom_update simp del: fmdom_fmupd
        split: if_splits option.splits prod.splits bool.splits)

lemma broadcast_frame: "broadcast env s i msg = (r, s') \<Longrightarrow> same_but_streams s s'"
  using same_but_streams_refl
  by (auto simp: broadcast_def same_but_streams_def dest!: broadcast_loop_frame
      split: option.splits prod.splits)

lemma announce_blocks_frame: "announce_blocks env s is = (r, s') \<Longrightarrow> same_but_streams s s'"
proof (induction env s "is" rule: announce_blocks.induct)
  case (1 env s)
  then show ?case by (simp add: same_but_streams_refl)
next
  case (2 env s i "is")
  obtain r1 s1 where b: "broadcast env s (local_node_id s) (BroadcastBlock i) = (r1, s1)"
    by (cases "broadcast env s (local_node_id s) (BroadcastBlock i)")
  show ?case
  proof (cases r1)
    case (Inl e)
    with 2 b show ?thesis using broadcast_frame [OF b] by simp
  next
    case (Inr u)
    with 2 b show ?thesis using same_but_streams_trans [OF broadcast_frame [OF b]] by simp
  qed
qed

lemma no_reply_Some: "no_reply p = Some (r, s') \<longleftrightarrow> (\<exists>q. p = (q, s') \<and> r = map_sum id (\<lambda>_. None) q)"
  by (cases p) (auto simp: no_reply_def)

section \<open>Stored blocks\<close>

definition stored :: "('n, 'st) hub \<Rightarrow> Block set" where
  "stored s = {b. \<exists>i. fmlookup (valid_blocks s) i = Some b \<or> fmlookup (unconfirmed_blocks s) i = Some b}"

lemma enter_block_stored:
  "enter_block env s b = Some (w, s') \<Longrightarrow> stored s' \<subseteq> insert b (stored s)"
  by (auto simp: enter_block_def Let_def stored_def split: if_splits)

lemma put_aside_stored: "stored (put_aside env s b) \<subseteq> insert b (stored s)"
  by (auto simp: stored_def put_aside_def split: if_splits)

lemma take_stored: "stored (take_unconfirmed i s) \<subseteq> stored s"
  by (auto simp: stored_def split: if_splits)

lemma unconfirmed_stored: "fmlookup (unconfirmed_blocks s) i = Some b \<Longrightarrow> b \<in> stored s"
  by (auto simp: stored_def)

lemma stored_other [simp]:
  "stored (s\<lparr>peers := m\<rparr>) = stored s" "stored (s\<lparr>annoucements := a\<rparr>) = stored s"
  "stored (s\<lparr>mempool := q\<rparr>) = stored s" "stored (with_cash S s) = stored s"
  "stored (reject env s i) = stored s"
  by (simp_all add: stored_def)

lemma vstep_stored:
  assumes "vstep env c ids c'"
  shows "stored (snd c') \<subseteq> stored (snd c)"
  using assms
proof (cases rule: vstep.cases)
  case (refuse i P s b s1)
  obtain S where "s1 = reject env (with_cash S (take_unconfirmed i s)) (block_id env b)"
    using check_block_cases [OF refuse(6)] by auto
  then show ?thesis using refuse take_stored [of i s] by simp
next
  case (accept i P s b s1 w s2)
  obtain S where "s1 = with_cash S (take_unconfirmed i s)" using accepts_with_cash [OF accept(6)] by blast
  with enter_block_stored [OF accept(7)] have "stored s2 \<subseteq> insert b (stored s)"
    using take_stored [of i s] by auto
  with unconfirmed_stored [OF accept(5)] accept(1,3) show ?thesis by auto
qed

lemma vsteps_stored: "vsteps env (P, s) ids (P', s') \<Longrightarrow> stored s' \<subseteq> stored s"
  using vsteps_invariant [of env "(P, s)" ids "(P', s')" "\<lambda>c. stored (snd c) \<subseteq> stored s"]
    vstep_stored by fastforce

lemma validate_block_stored:
  assumes "orders_ok env" "no_zero_id env" "pool_inv env {} s" "fresh_block env s b"
    and "validate_block env s b = Some (ids, s')"
  shows "stored s' \<subseteq> insert b (stored s)"
  using assms
proof (cases rule: validate_block_outcome)
  case ambiguous
  then show ?thesis
    using put_aside_stored by simp
next
  case (rejected S)
  then show ?thesis by auto
next
  case (accepted s1 w s2 more)
  have "stored s1 = stored s" using accepts_with_cash [OF accepted(1)] by auto
  with vsteps_stored [OF accepted(5)] enter_block_stored [OF accepted(2)] show ?thesis by blast
qed

section \<open>The invariant\<close>

definition sound_block :: "('sk, 'z) codec_scheme \<Rightarrow> Block \<Rightarrow> bool" where
  "sound_block c b \<longleftrightarrow> block_valid c b \<and> list_all (transaction_valid c) (transactions b)"

definition mempool_inv :: "('sk, 'z) codec_scheme \<Rightarrow> ('n, 'st) hub \<Rightarrow> bool" where
  "mempool_inv c s \<longleftrightarrow> (\<forall>t x. fmlookup (mempool s) t = Some x \<longrightarrow> txn_id c x = t \<and> transaction_valid c x)"

definition hub_inv :: "('sk, 'n, 'st) hub_env \<Rightarrow> ('n, 'st) hub \<Rightarrow> bool" where
  "hub_inv env s \<longleftrightarrow> pool_inv env {} s \<and> mempool_inv env s \<and>
     (\<forall>b \<in> stored s. sound_block env b) \<and> fcard (fmdom (peers s)) \<le> PEER_SIZE_LIMIT"

text \<open>A value of type \<open>Transaction\<close> or \<open>Block\<close> has been through its validator.\<close>

fun message_ok :: "('sk, 'z) codec_scheme \<Rightarrow> ('n, 'st) PeerHubActorMessage \<Rightarrow> bool" where
  "message_ok c (NewTransaction t) = transaction_valid c t"
| "message_ok c (NewBlock _ b) = sound_block c b"
| "message_ok c _ = True"

text \<open>What the environment must provide: iteration orders, and no block hashing to the zero id.\<close>

definition env_ok :: "('sk, 'n, 'st) hub_env \<Rightarrow> bool" where
  "env_ok env \<longleftrightarrow> orders_ok env \<and> no_zero_id env"

lemma env_ok_dest: "env_ok env \<Longrightarrow> orders_ok env" "env_ok env \<Longrightarrow> no_zero_id env"
  by (simp_all add: env_ok_def)

lemma pool_inv_other [simp]:
  "pool_inv env P (s\<lparr>peers := m\<rparr>) \<longleftrightarrow> pool_inv env P s"
  "pool_inv env P (s\<lparr>annoucements := a\<rparr>) \<longleftrightarrow> pool_inv env P s"
  "pool_inv env P (s\<lparr>mempool := q\<rparr>) \<longleftrightarrow> pool_inv env P s"
  by (simp_all add: pool_inv_def chain_inv_def)

lemma mempool_inv_other [simp]:
  "mempool_inv c (s\<lparr>peers := m\<rparr>) \<longleftrightarrow> mempool_inv c s"
  "mempool_inv c (s\<lparr>annoucements := a\<rparr>) \<longleftrightarrow> mempool_inv c s"
  "mempool_inv c (with_cash S s) \<longleftrightarrow> mempool_inv c s"
  "mempool_inv c (reject env s i) \<longleftrightarrow> mempool_inv c s"
  by (simp_all add: mempool_inv_def)

lemma hub_inv_streams: "hub_inv env s \<Longrightarrow> same_but_streams s s' \<Longrightarrow> hub_inv env s'"
  by (auto simp: hub_inv_def same_but_streams_def)

lemma hub_inv_annoucements [simp]: "hub_inv env (s\<lparr>annoucements := a\<rparr>) \<longleftrightarrow> hub_inv env s"
  by (simp add: hub_inv_def)

lemma hub_inv_asked:
  "hub_inv env s \<Longrightarrow> same_but_streams (s\<lparr>annoucements := a\<rparr>) s' \<Longrightarrow> hub_inv env s'"
  using hub_inv_streams hub_inv_annoucements by blast

lemma hub_inv_with_cash [simp]: "hub_inv env (with_cash S s) \<longleftrightarrow> hub_inv env s"
  by (simp add: hub_inv_def)

lemma hub_inv_pools: "hub_inv env s \<Longrightarrow> pool_inv env {} s"
  by (simp add: hub_inv_def)

lemma hub_inv_pool:
  "hub_inv env s \<Longrightarrow> transaction_valid env x \<Longrightarrow>
     hub_inv env (s\<lparr>mempool := fmupd (txn_id env x) x (mempool s)\<rparr>)"
  by (auto simp: hub_inv_def mempool_inv_def)

section \<open>Every arm keeps the invariant\<close>

lemma new_peer_inv:
  assumes "hub_inv env s" "new_peer s i st conn port = Some (r, s')"
  shows "hub_inv env s'"
proof -
  have "fcard (finsert i (fmdom (peers s))) \<le> Suc (fcard (fmdom (peers s)))"
    by (simp add: fcard_finsert_if)
  with assms show ?thesis by (auto simp: hub_inv_def new_peer_def not_le split: if_splits)
qed

lemma validate_block_hub_inv:
  assumes env: "env_ok env" and inv: "hub_inv env s" and b: "fresh_block env s b" "sound_block env b"
    and call: "validate_block env s b = Some (ids, s')"
  shows "hub_inv env s'"
proof -
  note ok = env_ok_dest [OF env] hub_inv_pools [OF inv] b(1) call
  have "grows env s ids s'" by (rule validate_block_grows [OF ok])
  then have "mempool_inv env s'" "peers s' = peers s"
    using inv grows_mempool [OF \<open>grows env s ids s'\<close>]
    by (auto simp: hub_inv_def mempool_inv_def same_node_def dest: grows_same split: if_splits)
  moreover have "\<forall>b \<in> stored s'. sound_block env b"
    using validate_block_stored [OF ok] inv b(2) by (auto simp: hub_inv_def)
  ultimately show ?thesis
    using validate_block_pool_inv [OF ok] inv by (simp add: hub_inv_def)
qed

lemma fresh_reject_inv:
  assumes "env_ok env" "hub_inv env s" "fresh_block env s b"
  shows "hub_inv env (reject env s (block_id env b))"
  using assms reject_pool_inv [OF env_ok_dest(1), of env "{}" s "block_id env b"]
  by (simp add: hub_inv_def fresh_block_iff)

lemma after_validation_streams:
  "after_validation env s node i prev ids = Some (r, s') \<Longrightarrow> same_but_streams s s'"
  by (auto simp: after_validation_def no_reply_Some bind_eq_Some_conv same_but_streams_refl
      dest: send_to_peer_frame announce_blocks_frame split: if_splits option.splits)

lemma new_block_inv:
  assumes "env_ok env" "hub_inv env s" "sound_block env b" "new_block env now s node b = Some (r, s')"
  shows "hub_inv env s'"
proof (cases "knows_block s (block_id env b)")
  case True
  with assms show ?thesis by (auto simp: new_block_def split: if_splits)
next
  case False
  then have fresh: "fresh_block env s b" by (simp add: fresh_block_def)
  show ?thesis
  proof (cases "now < timestamp b")
    case True
    with assms False fresh show ?thesis
      by (auto simp: new_block_def intro: fresh_reject_inv split: if_splits)
  next
    case now: False
    have "block_id env b |\<notin>| invalid_blocks s" using fresh by (simp add: fresh_block_iff)
    with assms(4) False now obtain ids s1 where
      v: "validate_block env s b = Some (ids, s1)"
      and a: "after_validation env s1 node (block_id env b) (prev_id b) ids = Some (r, s')"
      by (auto simp: new_block_def)
    show ?thesis
      using hub_inv_streams [OF validate_block_hub_inv [OF assms(1,2) fresh assms(3) v]
        after_validation_streams [OF a]] .
  qed
qed

lemma new_transaction_inv:
  assumes "hub_inv env s" "transaction_valid env x" "new_transaction env s x = Some (r, s')"
  shows "hub_inv env s'"
proof (cases "txn_id env x |\<in>| fmdom (mempool s)")
  case True
  with assms show ?thesis by (simp add: new_transaction_def Let_def)
next
  case False
  let ?s = "s\<lparr>mempool := fmupd (txn_id env x) x (mempool s)\<rparr>"
  obtain q s1 where b: "broadcast env ?s (local_node_id s) (BroadcastTransaction (txn_id env x)) = (q, s1)"
    by (cases "broadcast env ?s (local_node_id s) (BroadcastTransaction (txn_id env x))")
  have "hub_inv env s1"
    using hub_inv_streams [OF hub_inv_pool [OF assms(1,2)] broadcast_frame [OF b]] .
  with assms(3) False b show ?thesis by (auto simp: new_transaction_def Let_def split: sum.splits)
qed

lemma handle_inv:
  assumes "env_ok env" "hub_inv env s" "message_ok env msg" "handle env now s msg = Some (r, s')"
  shows "hub_inv env s'"
proof (cases msg)
  case (AnnounceTransaction i t)
  with assms show ?thesis
    by (auto simp: announce_transaction_def no_reply_Some dest!: send_to_peer_frame
        intro: hub_inv_asked split: if_splits)
next
  case (GetTransaction i t)
  with assms show ?thesis
    by (auto simp: get_transaction_def no_reply_Some dest!: send_to_peer_frame
        intro: hub_inv_streams split: option.splits)
next
  case (AnnounceBlock i t)
  with assms show ?thesis
    by (auto simp: announce_block_def no_reply_Some dest!: send_to_peer_frame
        intro: hub_inv_streams split: if_splits)
next
  case (GetBlock i t)
  with assms show ?thesis
    by (auto simp: get_block_def no_reply_Some dest!: send_to_peer_frame
        intro: hub_inv_streams split: option.splits)
next
  case (QueryLeadingCashSet port)
  with assms show ?thesis
    by (auto simp: query_leading_cash_def dest!: cash_set_at_frame split: option.splits)
qed (use assms in \<open>auto intro: new_peer_inv new_transaction_inv new_block_inv\<close>)

section \<open>The initial state\<close>

lemma create_genesis_sound:
  "signatures_verify c \<Longrightarrow> create_genesis c d ts subsidy = Some b \<Longrightarrow> sound_block c b"
  using create_genesis_valid [of c d ts subsidy b] create_genesis_Some [of c d ts subsidy b]
  by (simp add: sound_block_def)

lemma hub_new_inv:
  assumes "env_ok env" "signatures_verify env" "hub_new env i cfg = Some s"
  shows "hub_inv env s"
proof -
  obtain g where g: "create_genesis env (genesis_difficulty cfg) (genesis_timestamp cfg)
      (initial_block_subsidy cfg) = Some g"
    and s: "valid_blocks s = fmupd (block_id env g) g fmempty" "genesis_id s = block_id env g"
      "leading_block s = block_id env g" "unconfirmed_blocks s = fmempty" "invalid_blocks s = {||}"
      "next_blocks s = fmempty" "mempool s = fmempty" "peers s = fmempty"
      "cs_block_id (cash_set s) = block_id env g"
    using assms(3) by (auto simp: hub_new_def Let_def CashSet_new_def)
  note gb = create_genesis_Some [OF g]
  have nz: "block_id env g \<noteq> zero_id" using assms(1) by (simp add: env_ok_def no_zero_id_def)
  have "chain_inv env s"
    using nz by (auto simp: chain_inv_def blocks_inv_def leads_def rules_inv_def s gb)
  moreover have "stored s = {g}" by (auto simp: stored_def s)
  ultimately show ?thesis
    using create_genesis_sound [OF assms(2) g]
    by (simp add: hub_inv_def pool_inv_def pools_def mempool_inv_def s fcard.rep_eq)
qed

section \<open>The hub as an actor\<close>

inductive hub_step ::
    "('sk, 'n::linorder, 'st) hub_env \<Rightarrow> ('n, 'st) hub \<Rightarrow> ('n, 'st) PeerHubActorMessage \<Rightarrow>
     ('n, 'st) hub \<Rightarrow> bool" for env where
  handles: "handle env now s msg = Some (r, s') \<Longrightarrow> hub_step env s msg s'"

definition hub_start :: "('sk, 'n, 'st) hub_env \<Rightarrow> Config \<Rightarrow> ('n, 'st) hub \<Rightarrow> bool" where
  "hub_start env cfg s \<longleftrightarrow> (\<exists>i. hub_new env i cfg = Some s)"

interpretation hub: actor "hub_start env cfg" "message_ok env" "hub_step env"
    "\<lambda>s. env_ok env \<longrightarrow> signatures_verify env \<longrightarrow> hub_inv env s" for env cfg
  by unfold_locales (auto simp: hub_start_def elim!: hub_step.cases intro: hub_new_inv handle_inv)

inductive_cases hub_stepE: "hub_step env s msg s'"

lemma reachable_hub_inv:
  "reachable (hub_start env cfg) (message_ok env) (hub_step env) s \<Longrightarrow>
     env_ok env \<Longrightarrow> signatures_verify env \<Longrightarrow> hub_inv env s"
  using hub.reachable_inv by blast

end
