(* ===== verification/Handler_Results.thy ===== *)
theory Handler_Results
  imports Hub_Invariant
begin

text \<open>
  What the arms of the handler compute in the states the hub reaches: the answers to queries, the
  verdict on a block, the request for a missing parent, the connections from both sides, and the
  bytes a broadcast writes.
\<close>

section \<open>What the arms do under the invariant\<close>

lemma hub_inv_blocks: "hub_inv env s \<Longrightarrow> blocks_inv env (valid_blocks s) (genesis_id s)"
  and hub_inv_leader: "hub_inv env s \<Longrightarrow> leads (valid_blocks s) (leading_block s)"
  and hub_inv_cash: "hub_inv env s \<Longrightarrow> cs_block_id (cash_set s) = genesis_id s"
  by (simp_all add: hub_inv_def pool_inv_def chain_inv_def)

lemma hub_inv_mempool: "hub_inv env s \<Longrightarrow> mempool_inv env s"
  by (simp add: hub_inv_def)

section \<open>The confirmed chain\<close>

text \<open>A chain from genesis to a tip: heights count up and each block names the one before it.\<close>

definition linked_chain :: "('sk, 'z) codec_scheme \<Rightarrow> BlockId \<Rightarrow> BlockId \<Rightarrow> Block list \<Rightarrow> bool" where
  "linked_chain c gid tip chain \<longleftrightarrow> chain \<noteq> [] \<and> block_id c (hd chain) = gid \<and>
     block_id c (last chain) = tip \<and> (\<forall>k < length chain. height (chain ! k) = k) \<and>
     (\<forall>k. Suc k < length chain \<longrightarrow> prev_id (chain ! Suc k) = block_id c (chain ! k))"

lemma branch_linked:
  assumes inv: "blocks_inv c m g" and i: "fmlookup m i = Some b"
  shows "linked_chain c g i (branch m i)"
  unfolding linked_chain_def
proof (intro conjI allI impI)
  show "branch m i \<noteq> []" using assms by (rule branch_nonempty)
  show "block_id c (hd (branch m i)) = g" using blocks_inv_id [OF inv branch_hd [OF inv i]] .
  show "block_id c (last (branch m i)) = i"
    using blocks_inv_id [OF inv i] branch_last [OF inv i] by simp
  show "height (branch m i ! k) = k" if "k < length (branch m i)" for k
    using that branch_nth_height [OF inv i] branch_length [OF inv i] by auto
  show "prev_id (branch m i ! Suc k) = block_id c (branch m i ! k)" if "Suc k < length (branch m i)" for k
    using that branch_nth_parent [OF inv i] branch_length [OF inv i] blocks_inv_id [OF inv] by auto
qed

lemma hub_confirmed_chain:
  assumes inv: "hub_inv env s" and l: "fmlookup (valid_blocks s) (leading_block s) = Some l" "seqno l \<noteq> - 1"
  shows "\<exists>chain. confirmed_chain s = Some chain \<and> length chain = Suc (height l) \<and>
    linked_chain env (genesis_id s) (leading_block s) chain"
  using confirmed_chain_branch [OF hub_inv_blocks [OF inv] l] branch_length [OF hub_inv_blocks [OF inv] l(1)]
    branch_linked [OF hub_inv_blocks [OF inv] l(1)] by auto

section \<open>Queries\<close>

lemma query_depth_spec:
  assumes inv: "hub_inv env s" and l: "fmlookup (valid_blocks s) (leading_block s) = Some l" "seqno l \<noteq> - 1"
  shows "\<exists>d. query_depth env s t = Some d \<and>
    (case d of
       None \<Rightarrow> \<forall>b \<in> set (branch (valid_blocks s) (leading_block s)). \<not> has_txn env t b
     | Some n \<Rightarrow> \<exists>b \<in> set (branch (valid_blocks s) (leading_block s)).
         has_txn env t b \<and> height b + unat n = height l \<and>
         (\<forall>x \<in> set (branch (valid_blocks s) (leading_block s)). has_txn env t x \<longrightarrow> height b \<le> height x))"
proof -
  let ?br = "branch (valid_blocks s) (leading_block s)"
  note b = hub_inv_blocks [OF inv]
  have len: "length ?br = Suc (height l)" by (rule branch_length [OF b l(1)])
  have h: "k < length ?br \<Longrightarrow> height (?br ! k) = k" for k
    using branch_nth_height [OF b l(1)] len by auto
  have small: "length ?br < 2 ^ 64" using unat_next [OF l(2)] unat_bound [of "seqno l + 1"] len by simp
  have c: "confirmed_chain s = Some ?br" by (rule confirmed_chain_branch [OF b l])
  show ?thesis
  proof (cases "transaction_depth env ?br t")
    case None
    moreover from this have "\<forall>b \<in> set ?br. \<not> has_txn env t b" by (simp add: transaction_depth_None)
    ultimately show ?thesis using c by (simp add: query_depth_def)
  next
    case (Some n)
    then obtain i where i: "i < length ?br" "has_txn env t (?br ! i)"
      "\<forall>k < i. \<not> has_txn env t (?br ! k)" "i + unat n = length ?br - 1"
      using transaction_depth_Some [OF small] by blast
    have "height (?br ! i) \<le> height x" if "x \<in> set ?br" "has_txn env t x" for x
      using that i h by (metis in_set_conv_nth linorder_not_le)
    moreover have "height (?br ! i) + unat n = height l" using i h len by simp
    ultimately show ?thesis using c Some i by (auto simp: query_depth_def intro!: bexI [of _ "?br ! i"])
  qed
qed

lemma collect_total:
  "(\<And>x. x \<in> set xs \<Longrightarrow> f x = Some (g x)) \<Longrightarrow> collect f xs = Some (map g xs)"
  by (induction xs) auto

lemma query_mempool_spec:
  assumes env: "orders_ok env" and inv: "hub_inv env s"
  shows "\<exists>amounts. query_mempool env s = Some amounts \<and> distinct (map fst amounts) \<and>
    (\<forall>t f. (t, f) \<in> set amounts \<longleftrightarrow>
       (\<exists>x. fmlookup (mempool s) t = Some x \<and>
          cash_sum (inputs x) = cash_sum (outputs x) + unat f))"
proof -
  let ?order = "txn_order env (fmdom (mempool s))"
  let ?fee = "\<lambda>t. of_nat (fee_value (the (fmlookup (mempool s) t))) :: u64"
  have order: "set ?order = fset (fmdom (mempool s))" "distinct ?order"
    using env by (simp_all add: orders_ok_def)
  have ok: "amounts_ok (inputs x) (outputs x)" if "fmlookup (mempool s) t = Some x" for t x
    using hub_inv_mempool [OF inv] that by (simp add: mempool_inv_def valid_transaction)
  have fee: "mempool_fee s t = Some (t, ?fee t)" if t: "t \<in> set ?order" for t
  proof -
    obtain x where x: "fmlookup (mempool s) t = Some x" using t order by (auto simp: fmlookup_dom_iff)
    with valid_transaction_fee [OF ok [OF x]] show ?thesis by (simp add: mempool_fee_def fee_value_def del: of_nat_diff)
  qed
  have amount_iff: "f = ?fee t \<longleftrightarrow> cash_sum (inputs x) = cash_sum (outputs x) + unat f"
    if "fmlookup (mempool s) t = Some x" for t x and f :: u64
  proof -
    have u: "unat (?fee t) = cash_sum (inputs x) - cash_sum (outputs x)"
      using ok [OF that] that by (simp add: amounts_ok_def fee_value_def unat_of_diff del: of_nat_diff)
    with ok [OF that] show ?thesis by (auto simp: amounts_ok_def word_unat_eq_iff)
  qed
  have "query_mempool env s = Some (map (\<lambda>t. (t, ?fee t)) ?order)"
    unfolding query_mempool_def by (rule collect_total) (rule fee)
  moreover have "(t, f) \<in> set (map (\<lambda>t. (t, ?fee t)) ?order) \<longleftrightarrow>
      (\<exists>x. fmlookup (mempool s) t = Some x \<and> cash_sum (inputs x) = cash_sum (outputs x) + unat f)" for t f
  proof -
    have "(t, f) \<in> set (map (\<lambda>t. (t, ?fee t)) ?order) \<longleftrightarrow> t |\<in>| fmdom (mempool s) \<and> f = ?fee t"
      by (auto simp: order)
    then show ?thesis using amount_iff [of t] by (cases "fmlookup (mempool s) t") (auto intro: fmdomI dest: fmdom_notI)
  qed
  ultimately show ?thesis using order by (auto simp: comp_def)
qed

lemma query_leading_cash_spec:
  assumes inv: "hub_inv env s"
  shows "\<exists>S. query_leading_cash env s = Some (S, with_cash S s) \<and>
    fset S = fset (unspent (branch (valid_blocks s) (leading_block s))) \<union>
      (fset (cs_set (cash_set s)) - touched (branch (valid_blocks s) (leading_block s)))"
proof -
  obtain l where l: "fmlookup (valid_blocks s) (leading_block s) = Some l"
    using hub_inv_leader [OF inv] by (auto simp: leads_def)
  show ?thesis
    using cash_set_at_replays [OF hub_inv_blocks [OF inv] l hub_inv_cash [OF inv]]
    by (simp add: query_leading_cash_def Let_def replay_members)
qed

section \<open>A block whose parent is missing\<close>

lemma block_root_loop_genesis:
  assumes "block_root_loop gid m bid cur = Some r" "cur \<noteq> gid"
    and "\<And>i b. fmlookup m i = Some b \<Longrightarrow> prev_id b \<noteq> gid"
  shows "r = bid"
proof -
  have "cur \<noteq> gid \<longrightarrow> (\<forall>i b. fmlookup m i = Some b \<longrightarrow> prev_id b \<noteq> gid) \<longrightarrow> r = bid"
    by (rule block_root_loop.raw_induct
        [where P = "\<lambda>gid m bid cur r. cur \<noteq> gid \<longrightarrow>
          (\<forall>i b. fmlookup m i = Some b \<longrightarrow> prev_id b \<noteq> gid) \<longrightarrow> r = bid", OF _ assms(1)])
       (auto split: if_splits option.splits)
  with assms show ?thesis by blast
qed

lemma hub_inv_orphan:
  assumes "hub_inv env s" "fmlookup (unconfirmed_blocks s) i = Some b"
  shows "fmlookup (valid_blocks s) (prev_id b) = None"
  using assms pools_orphan by (auto simp: hub_inv_def pool_inv_def)

lemma block_root_argument:
  assumes inv: "hub_inv env s" and "fmlookup (valid_blocks s) i = None" "block_root s i = Some r"
  shows "r = i"
proof -
  obtain g where "fmlookup (valid_blocks s) (genesis_id s) = Some g"
    using blocks_inv_genesis [OF hub_inv_blocks [OF inv]] by blast
  then have "i \<noteq> genesis_id s" "fmlookup (unconfirmed_blocks s) j = Some b \<Longrightarrow> prev_id b \<noteq> genesis_id s" for j b
    using assms(2) hub_inv_orphan [OF inv] by fastforce+
  with assms(3) show ?thesis unfolding block_root_def by (rule block_root_loop_genesis)
qed

lemma validate_block_orphan:
  "fmlookup (valid_blocks s) (prev_id b) = None \<Longrightarrow> validate_block env s b = Some ([], put_aside env s b)"
  by (simp add: validate_block_def check_block_def)

lemma new_block_orphan:
  assumes env: "env_ok env" and inv: "hub_inv env s" and b: "fresh_block env s b" "sound_block env b"
    and time: "timestamp b \<le> now" and missing: "fmlookup (valid_blocks s) (prev_id b) = None"
    and acyclic: "wf (parent_rel (unconfirmed_blocks (put_aside env s b)))"
  shows "new_block env now s (Some n) b =
      no_reply (send_to_peer env (put_aside env s b) (GetBlockRequest (prev_id b)) n)"
    and "new_block env now s None b = Some (Inr None, put_aside env s b)"
proof -
  let ?s = "put_aside env s b"
  note v = validate_block_orphan [OF missing, of env]
  have inv': "hub_inv env ?s" by (rule validate_block_hub_inv [OF env inv b v])
  have same: "valid_blocks ?s = valid_blocks s" "genesis_id ?s = genesis_id s"
    "block_id env b |\<in>| fmdom (unconfirmed_blocks ?s)" by (simp_all add: put_aside_def)
  obtain r where r: "block_root ?s (prev_id b) = Some r"
    using block_root_loop_returns [OF acyclic, of "genesis_id ?s" "prev_id b" "prev_id b"]
    unfolding block_root_def by blast
  with block_root_argument [OF inv'] missing same have "r = prev_id b" by simp
  moreover have "prev_id b \<noteq> genesis_id s"
    using blocks_inv_genesis [OF hub_inv_blocks [OF inv]] missing by auto
  ultimately have a: "after_validation env ?s node (block_id env b) (prev_id b) [] =
      (case node of Some n \<Rightarrow> no_reply (send_to_peer env ?s (GetBlockRequest (prev_id b)) n)
       | None \<Rightarrow> Some (Inr None, ?s))" for node
    using r same by (simp add: after_validation_def)
  have fresh: "\<not> knows_block s (block_id env b)" "block_id env b |\<notin>| invalid_blocks s"
    using b(1) by (auto simp: fresh_block_def knows_block_def)
  then have "new_block env now s node b = after_validation env ?s node (block_id env b) (prev_id b) []" for node
    using time v by (simp add: new_block_def not_less [symmetric])
  with a show "new_block env now s (Some n) b =
      no_reply (send_to_peer env ?s (GetBlockRequest (prev_id b)) n)"
    and "new_block env now s None b = Some (Inr None, ?s)" by simp_all
qed

section \<open>Connections from both sides\<close>

text \<open>
  The stream a hub keeps for a peer after two connections with it, one it started (\<open>active\<close>) and
  one it accepted (\<open>passive\<close>), in the order they are reported.
\<close>

definition two_connections ::
    "('n::linorder, 'st) hub \<Rightarrow> 'n \<Rightarrow> 'st \<times> bool \<Rightarrow> 'st \<times> bool \<Rightarrow> 'st option" where
  "two_connections s n c1 c2 =
     (case new_peer s n (fst c1) (snd c1) True of
        None \<Rightarrow> None
      | Some (_, s1) \<Rightarrow>
          (case new_peer s1 n (fst c2) (snd c2) True of
             None \<Rightarrow> None
           | Some (_, s2) \<Rightarrow> fmlookup (peers s2) n))"

lemma two_connections_kept:
  assumes "fcard (fmdom (peers s)) \<le> 1" "n |\<notin>| fmdom (peers s)"
  shows "two_connections s n (active, True) (passive, False) =
      Some (if local_node_id s < n then active else passive)"
    and "two_connections s n (passive, False) (active, True) =
      Some (if local_node_id s < n then active else passive)"
  using assms by (simp_all add: two_connections_def new_peer_def PEER_SIZE_LIMIT_def fcard_finsert_disjoint)

text \<open>With two peers already, the first connection fills the table and the second is refused.\<close>

lemma two_connections_full:
  assumes "fcard (fmdom (peers s)) = 2" "n |\<notin>| fmdom (peers s)"
  shows "two_connections s n (st1, conn1) (st2, conn2) = Some st1"
  using assms by (simp add: two_connections_def new_peer_def PEER_SIZE_LIMIT_def fcard_finsert_disjoint)

section \<open>What a broadcast writes\<close>

text \<open>\<open>writes_ok\<close>: no stream fails.\<close>

definition writes_ok :: "('sk, 'n, 'st) hub_env \<Rightarrow> bool" where
  "writes_ok env \<longleftrightarrow> (\<forall>st bs. snd (write_all env st bs)) \<and> (\<forall>st. snd (flush_stream env st))"

lemma write_frame_ok:
  assumes "writes_ok env"
  shows "write_frame env st bs =
    (fst (flush_stream env (fst (write_all env
       (fst (write_all env st (to_be_bytes 4 (of_nat (length bs) :: u32)))) bs))), True)"
proof -
  obtain st1 where 1: "write_all env st (to_be_bytes 4 (of_nat (length bs) :: u32)) = (st1, True)"
    using assms by (metis prod.collapse writes_ok_def)
  obtain st2 where 2: "write_all env st1 bs = (st2, True)"
    using assms by (metis prod.collapse writes_ok_def)
  obtain st3 where "flush_stream env st2 = (st3, True)"
    using assms by (metis prod.collapse writes_ok_def)
  with 1 2 show ?thesis by (simp add: write_frame_def)
qed

lemma broadcast_loop_ok:
  assumes "writes_ok env"
  shows "distinct is \<Longrightarrow> \<exists>m'. broadcast_loop env node bs is m = (Inr (), m') \<and>
    (\<forall>j. fmlookup m' j = (if j \<in> set is \<and> j \<noteq> node
       then map_option (\<lambda>st. fst (write_frame env st bs)) (fmlookup m j) else fmlookup m j))"
proof (induction "is" arbitrary: m)
  case Nil
  then show ?case by simp
next
  case (Cons i "is")
  let ?goal = "\<lambda>k m. \<exists>m'. broadcast_loop env node bs k m = (Inr (), m') \<and>
    (\<forall>j. fmlookup m' j = (if j \<in> set k \<and> j \<noteq> node
       then map_option (\<lambda>st. fst (write_frame env st bs)) (fmlookup m j) else fmlookup m j))"
  have IH: "?goal is m'" for m' using Cons by simp
  show ?case
  proof (cases "i = node \<or> fmlookup m i = None")
    case True
    then have step: "broadcast_loop env node bs (i # is) m = broadcast_loop env node bs is m" by auto
    obtain m' where m': "broadcast_loop env node bs is m = (Inr (), m')"
      and look: "\<And>j. fmlookup m' j = (if j \<in> set is \<and> j \<noteq> node
       then map_option (\<lambda>st. fst (write_frame env st bs)) (fmlookup m j) else fmlookup m j)"
      using IH [of m] by blast
    have "fmlookup m' j = (if j \<in> set (i # is) \<and> j \<noteq> node
       then map_option (\<lambda>st. fst (write_frame env st bs)) (fmlookup m j) else fmlookup m j)" for j
      using look [of j] True by auto
    with step m' show ?thesis by auto
  next
    case False
    then obtain st where st: "i \<noteq> node" "fmlookup m i = Some st" by auto
    obtain st' where w: "write_frame env st bs = (st', True)" by (simp add: write_frame_ok [OF assms])
    have "broadcast_loop env node bs (i # is) m =
        broadcast_loop env node bs is (fmupd i (fst (write_frame env st bs)) m)"
      using st w by simp
    with IH [of "fmupd i (fst (write_frame env st bs)) m"] st Cons.prems show ?thesis by auto
  qed
qed

lemma broadcast_ok:
  assumes "orders_ok env" "writes_ok env" "enc_message env (Broadcast msg) = Some bs"
  shows "\<exists>m'. broadcast env s node msg = (Inr (), s\<lparr>peers := m'\<rparr>) \<and>
    (\<forall>j. fmlookup m' j = (if j = node then fmlookup (peers s) j
       else map_option (\<lambda>st. fst (write_frame env st bs)) (fmlookup (peers s) j)))"
proof -
  let ?order = "peer_order env (fmdom (peers s))"
  have order: "set ?order = fset (fmdom (peers s))" "distinct ?order"
    using assms(1) by (simp_all add: orders_ok_def)
  obtain m' where m': "broadcast_loop env node bs ?order (peers s) = (Inr (), m')"
    and look: "\<forall>j. fmlookup m' j = (if j \<in> set ?order \<and> j \<noteq> node
       then map_option (\<lambda>st. fst (write_frame env st bs)) (fmlookup (peers s) j)
       else fmlookup (peers s) j)"
    using broadcast_loop_ok [OF assms(2) order(2)] by blast
  have "fmlookup m' j = (if j = node then fmlookup (peers s) j
       else map_option (\<lambda>st. fst (write_frame env st bs)) (fmlookup (peers s) j))" for j
    using look order(1) fmdom_notD [of j "peers s"] by auto
  with m' assms(3) show ?thesis by (auto simp: broadcast_def)
qed

section \<open>The pool of transactions\<close>

lemma new_transaction_known:
  "txn_id env x |\<in>| fmdom (mempool s) \<Longrightarrow> new_transaction env s x = Some (Inr None, s)"
  by (simp add: new_transaction_def Let_def)

lemma new_transaction_new:
  assumes "orders_ok env" "writes_ok env" "enc_message env (Broadcast (BroadcastTransaction (txn_id env x))) = Some bs"
    and "txn_id env x |\<notin>| fmdom (mempool s)"
  shows "\<exists>m'. new_transaction env s x = Some (Inr None, s\<lparr>peers := m',
      mempool := fmupd (txn_id env x) x (mempool s), annoucements := fmdrop (txn_id env x) (annoucements s)\<rparr>) \<and>
    (\<forall>j. fmlookup m' j = (if j = local_node_id s then fmlookup (peers s) j
       else map_option (\<lambda>st. fst (write_frame env st bs)) (fmlookup (peers s) j)))"
proof -
  let ?s = "s\<lparr>mempool := fmupd (txn_id env x) x (mempool s)\<rparr>"
  obtain m' where m': "broadcast env ?s (local_node_id s) (BroadcastTransaction (txn_id env x)) =
      (Inr (), ?s\<lparr>peers := m'\<rparr>)"
    and look: "\<forall>j. fmlookup m' j = (if j = local_node_id s then fmlookup (peers s) j
       else map_option (\<lambda>st. fst (write_frame env st bs)) (fmlookup (peers s) j))"
    using broadcast_ok [OF assms(1-3), of ?s "local_node_id s"] by auto
  have "new_transaction env s x = Some (Inr None, s\<lparr>peers := m',
      mempool := fmupd (txn_id env x) x (mempool s), annoucements := fmdrop (txn_id env x) (annoucements s)\<rparr>)"
    using assms(4) m' by (simp add: new_transaction_def Let_def)
  with look show ?thesis by blast
qed

section \<open>The verdict on a block\<close>

lemma validate_block_verdict:
  assumes env: "orders_ok env" "no_zero_id env" and inv: "pool_inv env {} s"
    and fresh: "fresh_block env s b" and call: "validate_block env s b = Some (ids, s')"
  shows "if fmlookup (valid_blocks s) (prev_id b) = None
      then ids = [] \<and> s' = put_aside env s b
      else if \<exists>s1. accepts env s b s1 then ids \<noteq> [] \<and> hd ids = block_id env b
      else ids = [] \<and> block_id env b |\<in>| invalid_blocks s'"
  using env inv fresh call
proof (cases rule: validate_block_outcome)
  case ambiguous
  then show ?thesis by simp
next
  case (rejected S)
  have "\<not> accepts env s b s1" for s1
    using rejected(2) by (simp add: check_block_Accepted [symmetric])
  moreover have "fmlookup (valid_blocks s) (prev_id b) \<noteq> None"
    using check_block_cases [OF rejected(2)] by auto
  moreover have "block_id env b |\<in>| invalid_blocks s'"
    using spreads_super [OF reject_spreads [OF env(1), of "with_cash S s" "block_id env b"]] rejected(3)
    by auto
  ultimately show ?thesis using rejected(1) by auto
next
  case (accepted s1 w s2 more)
  then have "fmlookup (valid_blocks s) (prev_id b) \<noteq> None" by (auto simp: accepts_def)
  with accepted show ?thesis by auto
qed

section \<open>The cash set along one branch\<close>

lemma fold_unspent: "fset S \<subseteq> touched bs \<Longrightarrow> fold apply_block bs S = unspent bs"
  using replay_members [of bs S] by (metis Diff_eq_empty_iff Un_empty_right fset_inject)

lemma unspent_touched: "fset (unspent bs) \<subseteq> touched bs"
proof -
  have "x |\<in>| unspent bs \<Longrightarrow> x \<in> fst ` set (concat (map block_ops bs))" for x
    unfolding unspent_def run_blocks member_fold_run_op
    using final_op_None [of "concat (map block_ops bs)" x] by (auto split: option.splits)
  then show ?thesis using touched_ops by blast
qed

lemma cash_set_exact:
  assumes inv: "hub_inv env s" and b: "fmlookup (valid_blocks s) i = Some b"
    and on: "fset (cs_set (cash_set s)) \<subseteq> touched (branch (valid_blocks s) i)"
  shows "cash_set_at env s i =
    Some (Some \<lparr>cs_block_id = genesis_id s, cs_set = unspent (branch (valid_blocks s) i)\<rparr>,
          with_cash (unspent (branch (valid_blocks s) i)) s)"
  using cash_set_at_replays [OF hub_inv_blocks [OF inv] b hub_inv_cash [OF inv]] fold_unspent [OF on]
    hub_inv_cash [OF inv] by (simp add: Let_def with_cash_def)

end
