(* ===== verification/Peer_Wire.thy ===== *)
theory Peer_Wire
  imports Handler_Results
begin

text \<open>
  The receiving side of a connection (\<open>Peer::run\<close> of \<open>src/src/peer.rs\<close>): frames of a four-byte
  big-endian length and a payload, decoding with validation, and the messages cast to the hub.
  The binary decoder (\<open>bincode\<close>) is a parameter that gives the fields read; the \<open>TryFrom\<close>
  validation the derived deserialisers run on them is modelled here.
\<close>

section \<open>Frames\<close>

text \<open>A codec of frames: what is written is read back, whatever follows it.\<close>

locale frame_codec =
  fixes frame :: "'p \<Rightarrow> u8 list"
    and read :: "u8 list \<Rightarrow> ('p \<times> u8 list) option"
    and fits :: "'p \<Rightarrow> bool"
  assumes read_frame: "fits p \<Longrightarrow> read (frame p @ rest) = Some (p, rest)"
    and read_consumes: "read bs = Some (p, rest) \<Longrightarrow> length rest < length bs"
begin

function read_all :: "u8 list \<Rightarrow> 'p list \<times> u8 list" where
  "read_all bs =
     (case read bs of
        None \<Rightarrow> ([], bs)
      | Some (p, rest) \<Rightarrow> (case read_all rest of (ps, left) \<Rightarrow> (p # ps, left)))"
  by pat_completeness auto
termination
  by (relation "measure length") (auto dest: read_consumes)

declare read_all.simps [simp del]

lemma read_all_frames:
  "list_all fits ps \<Longrightarrow> read rest = None \<Longrightarrow> read_all (concat (map frame ps) @ rest) = (ps, rest)"
proof (induction ps)
  case Nil
  then show ?case by (simp add: read_all.simps [of rest])
next
  case (Cons p ps)
  then show ?case
    by (simp add: read_all.simps [of "frame p @ concat (map frame ps) @ rest"] read_frame)
qed

end

definition frame_bytes :: "u8 list \<Rightarrow> u8 list" where
  "frame_bytes payload = to_be_bytes 4 (of_nat (length payload) :: u32) @ payload"

text \<open>\<open>read_exact\<close> on the bytes that are still to come: \<open>None\<close> is an early end of the stream.\<close>

definition read_exact :: "nat \<Rightarrow> u8 list \<Rightarrow> (u8 list \<times> u8 list) option" where
  "read_exact n bs = (if n \<le> length bs then Some (take n bs, drop n bs) else None)"

definition read_message :: "u8 list \<Rightarrow> (u8 list \<times> u8 list) option" where
  "read_message bs = do {
     (len_buf, rest) \<leftarrow> read_exact 4 bs;
     let size = unat (from_be_bytes len_buf :: u32);
     read_exact size rest }"

lemma read_message_frame:
  assumes "length payload < 2 ^ 32"
  shows "read_message (frame_bytes payload @ rest) = Some (payload, rest)"
proof -
  have "unat (of_nat (length payload) :: u32) = length payload"
    using assms by (intro unat_of_nat_small) simp
  then show ?thesis
    by (simp add: read_message_def read_exact_def frame_bytes_def from_to_be_bytes)
qed

lemma read_message_consumes: "read_message bs = Some (p, rest) \<Longrightarrow> length rest < length bs"
  by (auto simp: read_message_def read_exact_def Let_def split: if_splits)

interpretation frames: frame_codec frame_bytes read_message "\<lambda>p. length p < 2 ^ 32"
  by unfold_locales (auto simp: read_message_frame dest: read_message_consumes)

text \<open>The hub writes such a frame.\<close>

lemma write_frame_bytes:
  "write_all env = (\<lambda>st bs. (st @ bs, True)) \<Longrightarrow> flush_stream env = (\<lambda>st. (st, True)) \<Longrightarrow>
     write_frame env st payload = (st @ frame_bytes payload, True)"
  by (simp add: write_frame_def frame_bytes_def)

section \<open>Decoding\<close>

text \<open>The fields of a block as they are read: its transactions are not validated yet.\<close>

record RawBlock =
  rb_seqno :: SequenceNo
  rb_difficulty :: Difficulty
  rb_prev_id :: BlockId
  rb_transactions :: "TransactionValidator list"
  rb_reward :: Cash
  rb_miner :: CoinAddress
  rb_timestamp :: Timestamp
  rb_nonce :: u64
  rb_signature :: Signature

datatype 'n RawMessage =
    RawBroadcast BroadcastMessage
  | RawGetTransactionRequest TransactionId
  | RawGetTransactionResponse TransactionValidator
  | RawGetBlockRequest BlockId
  | RawGetBlockResponse 'n RawBlock

datatype decode_error = Malformed | BadTransaction txn_error | BadBlock block_error

definition block_of_raw :: "RawBlock \<Rightarrow> Transaction list \<Rightarrow> BlockValidator" where
  "block_of_raw r ts =
     \<lparr>bv_inner = \<lparr>bi_seqno = rb_seqno r, bi_difficulty = rb_difficulty r, bi_prev_id = rb_prev_id r,
                  bi_transactions = ts, bi_reward = rb_reward r, bi_miner = rb_miner r,
                  bi_timestamp = rb_timestamp r, bi_nonce = rb_nonce r\<rparr>,
      bv_signature = rb_signature r\<rparr>"

text \<open>The fields of a block as they are written.\<close>

definition raw_of_block :: "Block \<Rightarrow> RawBlock" where
  "raw_of_block b =
     \<lparr>rb_seqno = seqno b, rb_difficulty = difficulty b, rb_prev_id = prev_id b,
      rb_transactions = map transaction_raw (transactions b), rb_reward = reward b, rb_miner = miner b,
      rb_timestamp = timestamp b, rb_nonce = bi_nonce (blk_inner b), rb_signature = blk_signature b\<rparr>"

text \<open>Each transaction is validated while the vector is read, the block when all of it is.\<close>

definition decode_block ::
    "('sk, 'z) codec_scheme \<Rightarrow> RawBlock \<Rightarrow> (decode_error + Block) option" where
  "decode_block c r = do {
     txns \<leftarrow> try_all (transaction_try_from c) (rb_transactions r);
     Some (case txns of
        Inl e \<Rightarrow> Inl (BadTransaction e)
      | Inr ts \<Rightarrow> map_sum BadBlock id (block_try_from c (block_of_raw r ts))) }"

fun decode_raw :: "('sk, 'z) codec_scheme \<Rightarrow> 'n RawMessage \<Rightarrow> (decode_error + 'n PeerMessage) option" where
  "decode_raw c (RawBroadcast m) = Some (Inr (Broadcast m))"
| "decode_raw c (RawGetTransactionRequest t) = Some (Inr (GetTransactionRequest t))"
| "decode_raw c (RawGetTransactionResponse v) =
     map_option (map_sum BadTransaction GetTransactionResponse) (transaction_try_from c v)"
| "decode_raw c (RawGetBlockRequest i) = Some (Inr (GetBlockRequest i))"
| "decode_raw c (RawGetBlockResponse n r) =
     map_option (map_sum id (GetBlockResponse n)) (decode_block c r)"

definition transport_decode ::
    "('sk, 'z) codec_scheme \<Rightarrow> (u8 list \<Rightarrow> 'n RawMessage option) \<Rightarrow> u8 list \<Rightarrow>
     (decode_error + 'n PeerMessage) option" where
  "transport_decode c parse buf =
     (case parse buf of
        None \<Rightarrow> Some (Inl Malformed)
      | Some raw \<Rightarrow> decode_raw c raw)"

section \<open>The loop of a peer\<close>

fun peer_cast :: "'n \<Rightarrow> 'n PeerMessage \<Rightarrow> ('n, 'st) PeerHubActorMessage" where
  "peer_cast node_id (Broadcast (BroadcastTransaction t)) = AnnounceTransaction node_id t"
| "peer_cast node_id (Broadcast (BroadcastBlock i)) = AnnounceBlock node_id i"
| "peer_cast node_id (GetTransactionRequest t) = GetTransaction node_id t"
| "peer_cast node_id (GetTransactionResponse t) = NewTransaction t"
| "peer_cast node_id (GetBlockRequest i) = GetBlock node_id i"
| "peer_cast node_id (GetBlockResponse n b) = NewBlock (Some n) b"

text \<open>How the loop ends; it returns only with an error.\<close>

datatype peer_end = StreamEnded | DecodeFailed decode_error | DecodePanicked | HubGone

text \<open>
  The messages cast and how the loop ends, on the bytes the stream will deliver. \<open>alive k\<close> tells
  whether the hub still takes the \<open>k\<close>-th cast.
\<close>

function peer_run ::
    "('sk, 'z) codec_scheme \<Rightarrow> (u8 list \<Rightarrow> 'n RawMessage option) \<Rightarrow> (nat \<Rightarrow> bool) \<Rightarrow> 'n \<Rightarrow> nat \<Rightarrow>
     u8 list \<Rightarrow> ('n, 'st) PeerHubActorMessage list \<times> peer_end" where
  "peer_run c parse alive node_id k bs =
     (case read_message bs of
        None \<Rightarrow> ([], StreamEnded)
      | Some (buf, rest) \<Rightarrow>
          (case transport_decode c parse buf of
             None \<Rightarrow> ([], DecodePanicked)
           | Some (Inl e) \<Rightarrow> ([], DecodeFailed e)
           | Some (Inr message) \<Rightarrow>
               if \<not> alive k then ([], HubGone)
               else case peer_run c parse alive node_id (Suc k) rest of
                 (casts, why) \<Rightarrow> (peer_cast node_id message # casts, why)))"
  by pat_completeness auto
termination
  by (relation "measure (\<lambda>(c, parse, alive, node_id, k, bs). length bs)")
     (auto dest: read_message_consumes)

declare peer_run.simps [simp del]

section \<open>What the hub is sent is well formed\<close>

lemma decode_block_sound:
  assumes "decode_block c r = Some (Inr b)"
  shows "sound_block c b"
proof -
  obtain txns where t: "try_all (transaction_try_from c) (rb_transactions r) = Some txns"
    using assms by (auto simp: decode_block_def)
  with assms obtain ts where ts: "txns = Inr ts" and b: "block_try_from c (block_of_raw r ts) = Inr b"
    by (cases txns) (auto simp: decode_block_def map_sum_Inr)
  have "transactions b = ts"
    using b by (auto simp: block_try_from_Inr transactions_def block_of_raw_def)
  moreover have "block_valid c b" by (rule blk.validated_valid [where r = "block_of_raw r ts"]) (simp add: b)
  ultimately show ?thesis using t ts by (simp add: sound_block_def txn.validated_list)
qed

text \<open>A sound block is read back as it was written.\<close>

lemma block_of_raw_of_block: "block_of_raw (raw_of_block b) (transactions b) = block_raw b"
  by (simp add: block_of_raw_def raw_of_block_def block_raw_def seqno_def difficulty_def prev_id_def
      transactions_def reward_def miner_def timestamp_def)

lemma decode_block_of_raw:
  assumes "sound_block c b"
  shows "decode_block c (raw_of_block b) = Some (Inr b)"
proof -
  have "try_all (transaction_try_from c) (rb_transactions (raw_of_block b)) = Some (Inr (transactions b))"
    using assms by (simp add: txn.validated_list sound_block_def raw_of_block_def)
  then show ?thesis
    using assms by (simp add: decode_block_def block_of_raw_of_block sound_block_def block_valid_def)
qed

lemma broadcast_ok_message: "message_ok c (peer_cast n (Broadcast m))"
  by (cases m) auto

lemma decode_raw_ok: "decode_raw c raw = Some (Inr m) \<Longrightarrow> message_ok c (peer_cast n m)"
  by (cases raw)
     (auto simp: map_sum_Inr broadcast_ok_message intro: decode_block_sound txn.validated_valid)

lemma transport_decode_ok:
  "transport_decode c parse buf = Some (Inr m) \<Longrightarrow> message_ok c (peer_cast n m)"
  by (auto simp: transport_decode_def intro: decode_raw_ok split: option.splits)

lemma peer_run_ok: "peer_run c parse alive n k bs = (casts, why) \<Longrightarrow> list_all (message_ok c) casts"
proof (induction c parse alive n k bs arbitrary: casts why rule: peer_run.induct)
  case (1 c parse alive n k bs)
  show ?case
  proof (cases casts)
    case (Cons m ms)
    from 1(2) Cons obtain buf rest message where
      r: "read_message bs = Some (buf, rest)" "transport_decode c parse buf = Some (Inr message)"
        "alive k" "m = peer_cast n message" "peer_run c parse alive n (Suc k) rest = (ms, why)"
      by (subst (asm) peer_run.simps) (auto split: option.splits sum.splits if_splits prod.splits)
    have "list_all (message_ok c) ms"
      using 1(1) [OF r(1) refl r(2) refl _ r(5)] r(3) by simp
    with r transport_decode_ok [OF r(2)] Cons show ?thesis by simp
  qed simp
qed

section \<open>From one hub to another\<close>

text \<open>The frames of messages that decode to themselves are cast one by one, in order.\<close>

lemma peer_run_frames:
  assumes "\<forall>m \<in> set ms. \<exists>buf. enc m = Some buf \<and> length buf < 2 ^ 32 \<and>
      transport_decode c parse buf = Some (Inr m)"
  shows "peer_run c parse (\<lambda>_. True) n k (concat (map (\<lambda>m. frame_bytes (the (enc m))) ms)) =
    (map (peer_cast n) ms, StreamEnded)"
  using assms
proof (induction ms arbitrary: k)
  case Nil
  then show ?case by (simp add: peer_run.simps read_message_def read_exact_def)
next
  case (Cons m ms)
  then obtain buf where "enc m = Some buf" "length buf < 2 ^ 32" "transport_decode c parse buf = Some (Inr m)"
    by auto
  with Cons show ?case
    by (subst peer_run.simps) (simp add: read_message_frame)
qed

end
