(* ===== verification/Hub_Helper.thy ===== *)
theory Hub_Helper
  imports Peer_Wire
begin

text \<open>
  The client side of the hub (\<open>src/src/hub_helper.rs\<close>): the transfer that picks cash of the sender
  and sends the new transaction to the hub (its queries are in theory Hub_Client). The order in which the cash set
  is iterated and the two fresh identifiers are arguments.
\<close>

section \<open>Picking cash\<close>

fun select_inputs :: "CoinAddress \<Rightarrow> u64 \<Rightarrow> u64 \<Rightarrow> Cash list \<Rightarrow> Cash list \<Rightarrow> Cash list option" where
  "select_inputs sender a f acc [] = Some acc"
| "select_inputs sender a f acc (c # cs) =
     (if owner c \<noteq> sender then select_inputs sender a f acc cs
      else do {
        total \<leftarrow> checked_sum (map amount (acc @ [c]));
        need \<leftarrow> checked_add a f;
        (if need \<le> total then Some (acc @ [c])
         else select_inputs sender a f (acc @ [c]) cs) })"

datatype transfer_error = InsufficientCash | TransferTransaction txn_error

definition build_transfer ::
    "('sk, 'z) codec_scheme \<Rightarrow> Cash list \<Rightarrow> 'sk \<Rightarrow> CoinAddress \<Rightarrow> u64 \<Rightarrow> u64 \<Rightarrow> Uuid \<Rightarrow> Uuid \<Rightarrow>
     (transfer_error + Transaction) option" where
  "build_transfer c cash_list signer receiver a f uuid1 uuid2 = do {
     let sender = from_signer c signer;
     ins \<leftarrow> select_inputs sender a f [] cash_list;
     total \<leftarrow> checked_sum (map amount ins);
     need \<leftarrow> checked_add a f;
     (if total < need then Some (Inl InsufficientCash)
      else do {
        rest \<leftarrow> checked_sub total a;
        remaining_amount \<leftarrow> checked_sub rest f;
        txn \<leftarrow> Transaction_new c signer ins
                 [Cash_new uuid1 a receiver, Cash_new uuid2 remaining_amount sender];
        Some (map_sum TransferTransaction id txn) }) }"

text \<open>The transfer on a hub in state \<open>s\<close>: its result, the message it casts, and the hub after the query.\<close>

definition new_transfer ::
    "('sk, 'n, 'st) hub_env \<Rightarrow> (Cash fset \<Rightarrow> Cash list) \<Rightarrow> ('n, 'st) hub \<Rightarrow> 'sk \<Rightarrow> CoinAddress \<Rightarrow>
     u64 \<Rightarrow> u64 \<Rightarrow> Uuid \<Rightarrow> Uuid \<Rightarrow>
     ((transfer_error + TransactionId \<times> ('n, 'st) PeerHubActorMessage) \<times> ('n, 'st) hub) option" where
  "new_transfer env cash_order s signer receiver a f uuid1 uuid2 = do {
     (cash, s1) \<leftarrow> query_leading_cash env s;
     built \<leftarrow> build_transfer env (cash_order cash) signer receiver a f uuid1 uuid2;
     Some (map_sum id (\<lambda>t. (txn_id env t, NewTransaction t)) built, s1) }"

section \<open>What is picked\<close>

definition owned :: "CoinAddress \<Rightarrow> Cash list \<Rightarrow> Cash list" where
  "owned sender cs = filter (\<lambda>c. owner c = sender) cs"

lemma select_inputs_spec:
  assumes "select_inputs sender a f acc cs = Some ins"
    and "cash_sum acc < unat a + unat f \<or> acc = []"
  shows "\<exists>picked left. ins = acc @ picked \<and> owned sender cs = picked @ left \<and>
    (left \<noteq> [] \<longrightarrow> unat a + unat f \<le> cash_sum ins) \<and>
    (picked \<noteq> [] \<longrightarrow> cash_sum (butlast ins) < unat a + unat f \<or> ins = [last ins])"
  using assms
proof (induction sender a f acc cs rule: select_inputs.induct)
  case (1 sender a f acc)
  then show ?case by (simp add: owned_def)
next
  case (2 sender a f acc c cs)
  show ?case
  proof (cases "owner c = sender")
    case False
    with 2 show ?thesis by (simp add: owned_def)
  next
    case True
    with 2(3) obtain total need :: u64 where
      t: "unat total = cash_sum (acc @ [c])" "checked_sum (map amount (acc @ [c])) = Some total"
      and n: "checked_add a f = Some need" "unat need = unat a + unat f"
      and r: "(if need \<le> total then Some (acc @ [c]) else select_inputs sender a f (acc @ [c]) cs) = Some ins"
      by (auto simp: checked_add_Some checked_sum_amounts(1) simp del: map_append)
    show ?thesis
    proof (cases "need \<le> total")
      case enough: True
      with r have "ins = acc @ [c]" by simp
      with enough t n True 2(4) have "ins = acc @ [c] \<and>
          owned sender (c # cs) = [c] @ owned sender cs \<and> unat a + unat f \<le> cash_sum ins \<and>
          (cash_sum (butlast ins) < unat a + unat f \<or> ins = [last ins])"
        by (auto simp: owned_def word_le_nat_alt comp_def)
      then show ?thesis by blast
    next
      case False
      then have less: "cash_sum (acc @ [c]) < unat a + unat f" using t n by (simp add: word_le_nat_alt)
      have sel: "select_inputs sender a f (acc @ [c]) cs = Some ins" using False r by simp
      have nn: "\<not> owner c \<noteq> sender" using True by simp
      obtain picked left where
        "ins = (acc @ [c]) @ picked" "owned sender cs = picked @ left"
        "left \<noteq> [] \<longrightarrow> unat a + unat f \<le> cash_sum ins"
        "picked \<noteq> [] \<longrightarrow> cash_sum (butlast ins) < unat a + unat f \<or> ins = [last ins]"
        using 2(2) [OF nn t(2) n(1) False sel disjI1 [OF less]] by blast
      moreover from this less have "cash_sum (butlast ins) < unat a + unat f \<or> ins = [last ins]"
        by (cases "picked = []") (use 2(4) in auto)
      ultimately have "ins = acc @ (c # picked) \<and> owned sender (c # cs) = (c # picked) @ left \<and>
          (left \<noteq> [] \<longrightarrow> unat a + unat f \<le> cash_sum ins) \<and>
          (cash_sum (butlast ins) < unat a + unat f \<or> ins = [last ins])"
        using True by (simp add: owned_def)
      then show ?thesis by blast
    qed
  qed
qed

lemma build_transfer_Inr:
  assumes "build_transfer c cs signer receiver a f u1 u2 = Some (Inr t)"
  shows "amounts_ok (inputs t) (outputs t)" "set (inputs t) \<subseteq> set cs"
    "\<forall>i \<in> set (inputs t). owner i = from_signer c signer" "fee t = Some f"
    "\<exists>r. outputs t = [Cash_new u1 a receiver, Cash_new u2 r (from_signer c signer)] \<and>
       cash_sum (inputs t) = unat a + unat r + unat f"
    "Transaction_new c signer (inputs t) (outputs t) = Some (Inr t)"
proof -
  obtain ins total need rest r where
    sel: "select_inputs (from_signer c signer) a f [] cs = Some ins"
    and t: "unat (total :: u64) = cash_sum ins" and need: "unat (need :: u64) = unat a + unat f"
    and r: "unat total = unat a + unat (rest :: u64)" "unat rest = unat f + unat (r :: u64)"
    and new: "Transaction_new c signer ins [Cash_new u1 a receiver, Cash_new u2 r (from_signer c signer)] = Some (Inr t)"
    using assms
    by (auto simp: build_transfer_def Let_def checked_sum_amounts(1) checked_add_Some checked_sub_Some map_sum_Inr
        split: if_splits)
  have io: "inputs t = ins" "outputs t = [Cash_new u1 a receiver, Cash_new u2 r (from_signer c signer)]"
    using new by (auto simp: Transaction_new_Inr inputs_def outputs_def)
  have own: "set ins \<subseteq> set cs" "\<forall>i \<in> set ins. owner i = from_signer c signer"
  proof -
    obtain left where "owned (from_signer c signer) cs = ins @ left"
      using select_inputs_spec [OF sel] by auto
    then have "set ins \<subseteq> set (owned (from_signer c signer) cs)" by simp
    then show "set ins \<subseteq> set cs" "\<forall>i \<in> set ins. owner i = from_signer c signer"
      by (auto simp: owned_def)
  qed
  show "amounts_ok (inputs t) (outputs t)" using new io by (auto simp: Transaction_new_Inr)
  show "set (inputs t) \<subseteq> set cs" "\<forall>i \<in> set (inputs t). owner i = from_signer c signer" using own io by auto
  have sum: "cash_sum ins = unat a + unat r + unat f" using t r by simp
  with io show "\<exists>r. outputs t = [Cash_new u1 a receiver, Cash_new u2 r (from_signer c signer)] \<and>
       cash_sum (inputs t) = unat a + unat r + unat f" by auto
  show "fee t = Some f"
    using sum io t unat_bound [of total] by (simp add: fee_Some Cash_new_def)
  show "Transaction_new c signer (inputs t) (outputs t) = Some (Inr t)" using new io by simp
qed

end
