(* ===== verification/Miner.thy ===== *)
theory Miner
  imports Handler_Results
begin

text \<open>
  One round of the miner (\<open>MinerConfig::run\<close> of \<open>src/src/bin/miner.rs\<close>): it asks the hub for the
  leading block, the fees and the transactions, builds the next block, searches a nonce, and casts
  the block to the hub. The answers of the hub are arguments of the round; \<open>mine_on\<close> takes all of
  them from one state of the hub.
\<close>

definition pick_transactions :: "nat \<Rightarrow> (TransactionId \<times> u64) list \<Rightarrow> TransactionId list" where
  "pick_transactions limit fees = map fst (take limit (sort_key snd fees))"

definition found_transactions :: "Transaction option list \<Rightarrow> Transaction list" where
  "found_transactions txns = map the (filter (\<lambda>t. t \<noteq> None) txns)"

datatype mine_error = BuildFailed new_block_error | ConfirmFailed BlockValidationError

definition mine_round ::
    "('sk, 'z) codec_scheme \<Rightarrow> Timestamp \<Rightarrow> Uuid \<Rightarrow> Config \<Rightarrow> 'sk \<Rightarrow> CoinAddress \<Rightarrow> Block \<Rightarrow>
     (TransactionId \<times> u64) list \<Rightarrow> (TransactionId list \<Rightarrow> Transaction option list) \<Rightarrow>
     (SequenceNo \<Rightarrow> Timestamp option) \<Rightarrow> (mine_error + Block) option" where
  "mine_round c now uuid config signing_key own leading fees query_txns query_adjust = do {
     let top_ids = pick_transactions (unat (block_txn_limit config)) fees;
     let txns = found_transactions (query_txns top_ids);
     new_seqno \<leftarrow> checked_add (seqno leading) 1;
     r \<leftarrow> checked_rem new_seqno (difficulty_adjustment_period config);
     built \<leftarrow> (if r = 0 then do {
                  prev_adjustment_time \<leftarrow> query_adjust new_seqno;
                  UnconfirmedBlock_new c now uuid leading own txns (Some prev_adjustment_time) config }
                else UnconfirmedBlock_new c now uuid leading own txns None config);
     (case built of
        Inl e \<Rightarrow> Some (Inl (BuildFailed e))
      | Inr unconfirmed_block \<Rightarrow>
          map_option (map_sum ConfirmFailed id) (try_confirm c unconfirmed_block signing_key)) }"

definition mine_on ::
    "('sk, 'n, 'st) hub_env \<Rightarrow> Timestamp \<Rightarrow> Uuid \<Rightarrow> 'sk \<Rightarrow> ('n, 'st) hub \<Rightarrow> (mine_error + Block) option" where
  "mine_on env now uuid signing_key s = do {
     leading \<leftarrow> fmlookup (valid_blocks s) (leading_block s);
     fees \<leftarrow> query_mempool env s;
     mine_round env now uuid (hub_config s) signing_key (from_signer env signing_key) leading fees
       (map (fmlookup (mempool s)))
       (\<lambda>n. map_option timestamp (prev_difficulty_adjusted_block s n)) }"

section \<open>Which transactions are picked\<close>

lemma pick_transactions_lowest:
  assumes "(t, f) \<in> set (take limit (sort_key snd fees))" "(u, g) \<in> set (drop limit (sort_key snd fees))"
  shows "f \<le> g"
proof -
  let ?s = "map snd (sort_key snd fees)"
  have "sorted (map snd (take limit (sort_key snd fees)) @ map snd (drop limit (sort_key snd fees)))"
    by (simp add: map_append [symmetric] del: map_append)
  then have "\<forall>x \<in> set (map snd (take limit (sort_key snd fees))).
      \<forall>y \<in> set (map snd (drop limit (sort_key snd fees))). x \<le> y"
    by (simp only: sorted_append) blast
  with assms show ?thesis by force
qed

lemma length_pick_transactions: "length (pick_transactions limit fees) = min (length fees) limit"
  by (simp add: pick_transactions_def)

lemma set_found_transactions: "t \<in> set (found_transactions txns) \<longleftrightarrow> Some t \<in> set txns"
  by (force simp: found_transactions_def)

section \<open>The new block\<close>

lemma UnconfirmedBlock_new_Inr:
  assumes "UnconfirmedBlock_new c now uuid prev own txns adj cfg = Some (Inr ub)"
  shows "ub_prev_id ub = block_id c prev" "ub_transactions ub = txns" "ub_miner ub = own"
    "ub_timestamp ub = now" "checked_add (seqno prev) 1 = Some (ub_seqno ub)"
    "\<exists>subsidy fees total. block_subsidy cfg (ub_seqno ub) = Some subsidy \<and> total_fees txns = Some fees \<and>
       checked_add subsidy fees = Some total \<and> ub_reward ub = Cash_new uuid total own"
    "\<exists>r. checked_rem (ub_seqno ub) (difficulty_adjustment_period cfg) = Some r \<and>
       (if r = 0 then \<exists>t span. adj = Some t \<and> checked_sub now t = Some span \<and>
            adjust_with_actual_span (difficulty prev) span cfg = Some (ub_difficulty ub)
        else ub_difficulty ub = difficulty prev)"
proof -
  obtain n where n: "checked_add (seqno prev) 1 = Some n"
    using assms by (cases "checked_add (seqno prev) 1") (simp_all add: UnconfirmedBlock_new_def)
  obtain r where r: "checked_rem n (difficulty_adjustment_period cfg) = Some r"
    using assms n
    by (cases "checked_rem n (difficulty_adjustment_period cfg)") (simp_all add: UnconfirmedBlock_new_def)
  let ?dif = "if r = 0 then
              (case adj of
                 None \<Rightarrow> Some (Inl AdjustmentTimeRequired)
               | Some t \<Rightarrow> do {
                   span \<leftarrow> checked_sub now t;
                   d \<leftarrow> adjust_with_actual_span (difficulty prev) span cfg;
                   Some (Inr d) })
            else Some (Inr (difficulty prev))"
  obtain dif where dif: "?dif = Some dif"
    using assms n r by (cases ?dif) (simp_all add: UnconfirmedBlock_new_def)
  have new: "UnconfirmedBlock_new c now uuid prev own txns adj cfg =
      (case dif of
         Inl e \<Rightarrow> Some (Inl e)
       | Inr d \<Rightarrow> do {
           subsidy \<leftarrow> block_subsidy cfg n;
           fees \<leftarrow> total_fees txns;
           total \<leftarrow> checked_add subsidy fees;
           Some (Inr
             \<lparr>ub_seqno = n, ub_difficulty = d, ub_prev_id = block_id c prev,
              ub_transactions = txns, ub_reward = Cash_new uuid total own,
              ub_miner = own, ub_timestamp = now\<rparr>) })"
    unfolding UnconfirmedBlock_new_def n r Option.bind.bind_lunit dif ..
  obtain d where d: "dif = Inr d" using assms new by (cases dif) auto
  obtain subsidy fees total where money: "block_subsidy cfg n = Some subsidy" "total_fees txns = Some fees"
      "checked_add subsidy fees = Some total"
    and ub: "ub = \<lparr>ub_seqno = n, ub_difficulty = d, ub_prev_id = block_id c prev,
              ub_transactions = txns, ub_reward = Cash_new uuid total own,
              ub_miner = own, ub_timestamp = now\<rparr>"
    using assms new d by auto
  show "ub_prev_id ub = block_id c prev" "ub_transactions ub = txns" "ub_miner ub = own"
    "ub_timestamp ub = now" "checked_add (seqno prev) 1 = Some (ub_seqno ub)"
    by (simp_all add: ub n)
  show "\<exists>subsidy fees total. block_subsidy cfg (ub_seqno ub) = Some subsidy \<and> total_fees txns = Some fees \<and>
       checked_add subsidy fees = Some total \<and> ub_reward ub = Cash_new uuid total own"
    using money by (simp add: ub)
  show "\<exists>r. checked_rem (ub_seqno ub) (difficulty_adjustment_period cfg) = Some r \<and>
       (if r = 0 then \<exists>t span. adj = Some t \<and> checked_sub now t = Some span \<and>
            adjust_with_actual_span (difficulty prev) span cfg = Some (ub_difficulty ub)
        else ub_difficulty ub = difficulty prev)"
    using r dif d by (cases adj) (auto simp: ub split: if_splits)
qed

lemma checked_add_commute: "checked_add a b = checked_add b a"
  by (simp add: checked_add_def add.commute)

lemma mine_round_Inr:
  assumes "mine_round c now uuid cfg sk own leading fees query adjust = Some (Inr b)"
  shows "\<exists>ub adj. UnconfirmedBlock_new c now uuid leading own
      (found_transactions (query (pick_transactions (unat (block_txn_limit cfg)) fees))) adj cfg = Some (Inr ub) \<and>
    try_confirm c ub sk = Some (Inr b) \<and>
    (adj = None \<or> (\<exists>t. adjust (ub_seqno ub) = Some t \<and> adj = Some t))"
proof -
  let ?txns = "found_transactions (query (pick_transactions (unat (block_txn_limit cfg)) fees))"
  obtain n where n: "checked_add (seqno leading) 1 = Some n"
    using assms by (cases "checked_add (seqno leading) 1") (simp_all add: mine_round_def Let_def)
  obtain r where r: "checked_rem n (difficulty_adjustment_period cfg) = Some r"
    using assms n by (cases "checked_rem n (difficulty_adjustment_period cfg)") (simp_all add: mine_round_def Let_def)
  obtain adj built where adj: "adj = None \<or> (\<exists>t. adjust n = Some t \<and> adj = Some t)"
    and built: "UnconfirmedBlock_new c now uuid leading own ?txns adj cfg = Some built"
    and final: "(case built of Inl e \<Rightarrow> Some (Inl (BuildFailed e))
      | Inr ub \<Rightarrow> map_option (map_sum ConfirmFailed id) (try_confirm c ub sk)) = Some (Inr b)"
    using assms n r by (auto simp: mine_round_def Let_def split: if_splits)
  obtain ub where ub: "built = Inr ub" using final by (cases built) auto
  have "ub_seqno ub = n" using UnconfirmedBlock_new_Inr(5) [OF built [unfolded ub]] n by simp
  moreover have "try_confirm c ub sk = Some (Inr b)" using final ub by (auto simp: map_sum_Inr)
  ultimately show ?thesis using adj built ub by blast
qed

lemma mine_on_Inr:
  assumes "mine_on env now uuid sk s = Some (Inr b)"
  shows "\<exists>leading ub adj txns. fmlookup (valid_blocks s) (leading_block s) = Some leading \<and>
    UnconfirmedBlock_new env now uuid leading (from_signer env sk) txns adj (hub_config s) = Some (Inr ub) \<and>
    (\<forall>t \<in> set txns. \<exists>i. fmlookup (mempool s) i = Some t) \<and> try_confirm env ub sk = Some (Inr b) \<and>
    (adj = None \<or> (\<exists>p. prev_difficulty_adjusted_block s (ub_seqno ub) = Some p \<and> adj = Some (timestamp p)))"
proof -
  obtain leading fees where l: "fmlookup (valid_blocks s) (leading_block s) = Some leading"
    and fees: "query_mempool env s = Some fees"
    and round: "mine_round env now uuid (hub_config s) sk (from_signer env sk) leading fees
       (map (fmlookup (mempool s))) (\<lambda>n. map_option timestamp (prev_difficulty_adjusted_block s n)) = Some (Inr b)"
    using assms by (auto simp: mine_on_def)
  show ?thesis
    using mine_round_Inr [OF round] l by (fastforce simp: set_found_transactions)
qed

text \<open>
  A block built on a valid block, with the adjustment time the hub asks for if one was given, passes
  every check of the hub, provided the clock has not gone back behind the parent and the
  transactions spend cash that is unspent on its branch.
\<close>

lemma confirmed_block_accepted:
  assumes inv: "hub_inv env s" and l: "fmlookup (valid_blocks s) i = Some l"
    and ub: "UnconfirmedBlock_new env now uuid l own txns adj (hub_config s) = Some (Inr ub)"
    and conf: "try_confirm env ub sk = Some (Inr b)"
    and adj: "adj = None \<or>
      (\<exists>p. prev_difficulty_adjusted_block s (ub_seqno ub) = Some p \<and> adj = Some (timestamp p))"
    and time: "timestamp l \<le> now"
    and spends: "\<forall>t \<in> set (transactions b). set (inputs t) \<subseteq> fset (unspent (branch (valid_blocks s) i))"
  shows "\<exists>s1. accepts env s b s1" "prev_id b = i" "height b = Suc (height l)"
proof -
  let ?br = "branch (valid_blocks s) i"
  note blocks = hub_inv_blocks [OF inv]
  note b = try_confirm_block [OF conf] and new = UnconfirmedBlock_new_Inr [OF ub]
  show prev: "prev_id b = i" using b new blocks_inv_id [OF blocks l] by simp
  show h: "height b = Suc (height l)" using new(5) b by (simp add: checked_add_Some)
  have diff: "expected_difficulty s b l = Some (difficulty b)"
    using new(7) adj b new(4) by (fastforce simp: expected_difficulty_def)
  have rew: "expected_reward (hub_config s) b = Some (amount (reward b))"
    using new(6) b new(2) by (auto simp: expected_reward_def checked_add_commute Cash_new_def)
  let ?S = "fold apply_block ?br (cs_set (cash_set s))"
  have cash: "cash_set_at env s (prev_id b) = Some (Some (cash_set (with_cash ?S s)), with_cash ?S s)"
    using cash_set_at_replays [OF blocks l hub_inv_cash [OF inv]] prev by (simp add: Let_def)
  have "\<not> missing_input ?S b"
    using spends replay_members [of ?br "cs_set (cash_set s)"] by (fastforce simp: missing_input_def list_ex_iff)
  with prev l time h diff rew cash b new(4) have "accepts env s b (with_cash ?S s)"
    by (auto simp: accepts_def)
  then show "\<exists>s1. accepts env s b s1" by blast
qed

lemma mined_block_accepted:
  assumes inv: "hub_inv env s" and mined: "mine_on env now uuid sk s = Some (Inr b)"
    and l: "fmlookup (valid_blocks s) (leading_block s) = Some l" and time: "timestamp l \<le> now"
    and spends: "\<forall>t \<in> set (transactions b).
      set (inputs t) \<subseteq> fset (unspent (branch (valid_blocks s) (leading_block s)))"
  shows "\<exists>s1. accepts env s b s1" "prev_id b = leading_block s" "height b = Suc (height l)"
proof -
  obtain ub adj txns where "UnconfirmedBlock_new env now uuid l (from_signer env sk) txns adj (hub_config s) = Some (Inr ub)"
    "try_confirm env ub sk = Some (Inr b)"
    "adj = None \<or> (\<exists>p. prev_difficulty_adjusted_block s (ub_seqno ub) = Some p \<and> adj = Some (timestamp p))"
    using mine_on_Inr [OF mined] l by auto
  from confirmed_block_accepted [OF inv l this time spends]
  show "\<exists>s1. accepts env s b s1" "prev_id b = leading_block s" "height b = Suc (height l)" .
qed

end
