(* ===== verification/Sample_Node.thy ===== *)
theory Sample_Node
  imports Handler_Results Peer_Wire Hub_Helper Miner "HOL-Library.List_Lexorder"
begin

text \<open>
  A concrete environment on which the properties are evaluated: short encodings that keep apart the
  blocks and transactions of the examples, a hash that keeps the first 32 bytes, signatures that
  are the key followed by the message, and streams that collect the bytes written to them.
\<close>

section \<open>An order on identifiers, to iterate over sets of them\<close>

instantiation Sha256Hash :: linorder
begin

definition less_eq_Sha256Hash :: "Sha256Hash \<Rightarrow> Sha256Hash \<Rightarrow> bool" where
  "less_eq_Sha256Hash a b \<longleftrightarrow> hash_bytes a \<le> hash_bytes b"

definition less_Sha256Hash :: "Sha256Hash \<Rightarrow> Sha256Hash \<Rightarrow> bool" where
  "less_Sha256Hash a b \<longleftrightarrow> hash_bytes a < hash_bytes b"

instance
  by standard (auto simp: less_eq_Sha256Hash_def less_Sha256Hash_def Sha256Hash.expand)

end

section \<open>The environment\<close>

definition sample_sha256 :: "u8 list \<Rightarrow> u8 list" where
  "sample_sha256 bs = take 32 bs"

definition sample_cash_bytes :: "Cash list \<Rightarrow> u8 list" where
  "sample_cash_bytes cs = of_nat (length cs) # concat (map (\<lambda>c. [ucast (cash_id c), ucast (amount c)]) cs)"

definition sample_inner_bytes :: "TransactionInner \<Rightarrow> u8 list" where
  "sample_inner_bytes t = 2 # sample_cash_bytes (txn_inputs t) @ sample_cash_bytes (txn_outputs t)"

definition sample_block_bytes :: "u64 \<Rightarrow> Timestamp \<Rightarrow> Transaction list \<Rightarrow> Cash \<Rightarrow> BlockId \<Rightarrow> u8 list" where
  "sample_block_bytes n ts txns r p =
     [1, ucast n, ucast ts, of_nat (length txns), ucast (cash_id r), ucast (amount r)] @
     take 3 (hash_bytes p)"

type_synonym sample_env_type = "(u8 list, nat, u8 list) hub_env"

definition sample_message_bytes :: "nat PeerMessage \<Rightarrow> u8 list option" where
  "sample_message_bytes m =
     (case m of
        Broadcast (BroadcastTransaction t) \<Rightarrow> Some (0 # 0 # hash_bytes t)
      | Broadcast (BroadcastBlock i) \<Rightarrow> Some (0 # 1 # hash_bytes i)
      | GetTransactionRequest t \<Rightarrow> Some (1 # hash_bytes t)
      | GetTransactionResponse t \<Rightarrow> Some (2 # sample_inner_bytes (txn_inner t))
      | GetBlockRequest i \<Rightarrow> Some (3 # hash_bytes i)
      | GetBlockResponse n b \<Rightarrow> Some [4, of_nat n, ucast (seqno b)])"

definition sample_env :: sample_env_type where
  "sample_env =
     \<lparr>sha256 = sample_sha256, sk_from_bytes = \<lambda>bs. bs, verifying_key = \<lambda>sk. sk,
      sk_sign = \<lambda>sk msg. sk @ msg, key_ok = \<lambda>_. True,
      sig_verifies = \<lambda>key msg sig. sig = key @ msg,
      enc_txn_inner = sample_inner_bytes,
      enc_txn = \<lambda>t. sample_inner_bytes (txn_inner t),
      enc_unconfirmed = \<lambda>ub. sample_block_bytes (ub_seqno ub) (ub_timestamp ub) (ub_transactions ub)
        (ub_reward ub) (ub_prev_id ub),
      enc_block_inner = \<lambda>bi. sample_block_bytes (bi_seqno bi) (bi_timestamp bi) (bi_transactions bi)
        (bi_reward bi) (bi_prev_id bi) @ to_le_bytes 8 (bi_nonce bi),
      enc_block = \<lambda>b. sample_block_bytes (seqno b) (timestamp b) (transactions b) (reward b) (prev_id b),
      id_order = sorted_list_of_fset, peer_order = sorted_list_of_fset,
      txn_order = sorted_list_of_fset,
      write_all = \<lambda>st bs. (st @ bs, True), flush_stream = \<lambda>st. (st, True),
      enc_message = sample_message_bytes\<rparr>"

definition sample_config :: Config where
  "sample_config = default_config
     \<lparr>initial_block_subsidy := 50, block_subsidy_half_period := 4, difficulty_adjustment_period := 4,
      genesis_difficulty := Difficulty (- 1), genesis_timestamp := 10\<rparr>"

section \<open>It is a proper environment\<close>

lemma sample_orders_ok: "orders_ok sample_env"
  by (simp add: orders_ok_def sample_env_def sorted_list_of_fset.rep_eq)

lemma sample_signatures: "signatures_verify sample_env"
  by (simp add: signatures_verify_def sample_env_def)

lemma sample_nonce_last: "nonce_is_last sample_env"
  by (simp add: nonce_is_last_def sample_env_def)

lemma sample_no_zero_id: "no_zero_id sample_env"
  by (simp add: no_zero_id_def sample_env_def block_id_def sample_sha256_def sample_block_bytes_def
      zero_id_def numeral_eq_Suc)

lemma sample_env_ok: "env_ok sample_env"
  by (simp add: env_ok_def sample_orders_ok sample_no_zero_id)

section \<open>Its first blocks\<close>

definition sample_key :: "u8 list" where "sample_key = [7, 7]"

definition genesis_key :: "u8 list" where
  "genesis_key = (case hex_to_bytes 32 genesis_secret of Inl _ \<Rightarrow> [] | Inr bs \<Rightarrow> bs)"

text \<open>
  The block of key \<open>sk\<close> of height \<open>n\<close> on \<open>p\<close>, at time \<open>ts\<close>, with reward \<open>a\<close> of identifier \<open>u\<close>.
\<close>

definition sample_inner_on ::
    "u8 list \<Rightarrow> BlockId \<Rightarrow> u64 \<Rightarrow> Timestamp \<Rightarrow> Transaction list \<Rightarrow> Uuid \<Rightarrow> u64 \<Rightarrow> BlockInner" where
  "sample_inner_on sk p n ts txns u a =
     \<lparr>bi_seqno = n, bi_difficulty = Difficulty (- 1), bi_prev_id = p, bi_transactions = txns,
      bi_reward = Cash_new u a \<lparr>pub_key = sk\<rparr>, bi_miner = \<lparr>pub_key = sk\<rparr>,
      bi_timestamp = ts, bi_nonce = 0\<rparr>"

definition sample_block_by ::
    "u8 list \<Rightarrow> BlockId \<Rightarrow> u64 \<Rightarrow> Timestamp \<Rightarrow> Transaction list \<Rightarrow> Uuid \<Rightarrow> u64 \<Rightarrow> Block" where
  "sample_block_by sk p n ts txns u a =
     \<lparr>blk_inner = sample_inner_on sk p n ts txns u a,
      blk_signature = \<lparr>sig_bytes =
        sk_sign sample_env sk (enc_block_inner sample_env (sample_inner_on sk p n ts txns u a))\<rparr>\<rparr>"

lemma sample_block_sel [simp]:
  "seqno (sample_block_by sk p n ts txns u a) = n"
  "prev_id (sample_block_by sk p n ts txns u a) = p"
  "timestamp (sample_block_by sk p n ts txns u a) = ts"
  "transactions (sample_block_by sk p n ts txns u a) = txns"
  "reward (sample_block_by sk p n ts txns u a) = Cash_new u a \<lparr>pub_key = sk\<rparr>"
  "miner (sample_block_by sk p n ts txns u a) = \<lparr>pub_key = sk\<rparr>"
  "difficulty (sample_block_by sk p n ts txns u a) = Difficulty (- 1)"
  by (simp_all add: sample_block_by_def sample_inner_on_def seqno_def prev_id_def timestamp_def
      transactions_def reward_def miner_def difficulty_def)

lemma sample_block_id:
  "block_id sample_env (sample_block_by sk p n ts txns u a) =
     Sha256Hash (1 # ucast n # ucast ts # of_nat (length txns) # ucast u # ucast a #
       take 3 (hash_bytes p))"
  by (simp add: block_id_def sample_env_def sample_sha256_def sample_block_bytes_def Cash_new_def
      numeral_eq_Suc)

definition sample_genesis :: Block where
  "sample_genesis = sample_block_by genesis_key zero_id 0 10 [] 0 50"

definition sample_block1 :: Block where
  "sample_block1 = sample_block_by sample_key (block_id sample_env sample_genesis) 1 20 [] 1 50"

definition sample_block2 :: Block where
  "sample_block2 = sample_block_by sample_key (block_id sample_env sample_block1) 2 30 [] 2 50"

lemma sample_ids:
  "block_id sample_env sample_genesis = Sha256Hash [1, 0, 10, 0, 0, 50, 0, 0, 0]"
  "block_id sample_env sample_block1 = Sha256Hash [1, 1, 20, 0, 1, 50, 1, 0, 10]"
  "block_id sample_env sample_block2 = Sha256Hash [1, 2, 30, 0, 2, 50, 1, 1, 20]"
  by (simp_all add: sample_genesis_def sample_block1_def sample_block2_def sample_block_id zero_id_def
      numeral_3_eq_3)

section \<open>The initial state and the first block\<close>

text \<open>A short hash meets every target that is not very small.\<close>

lemma sample_met_high: "length bs \<le> 31 \<Longrightarrow> 2 ^ 248 \<le> unat d \<Longrightarrow> is_met (Difficulty d) bs"
proof -
  assume "length bs \<le> 31" and d: "2 ^ 248 \<le> unat d"
  then have "(256::nat) ^ length bs \<le> 256 ^ 31" by (intro power_increasing) auto
  then have le: "le_value bs < 2 ^ 248" using le_value_bound [of bs] by simp
  then have "unat (of_nat (le_value bs) :: u256) = le_value bs" by (intro unat_of_nat_small) simp
  then show ?thesis using le d by (simp add: is_met_def from_le_bytes_def word_less_nat_alt)
qed

lemma sample_met: "length bs \<le> 31 \<Longrightarrow> is_met (Difficulty (- 1)) bs"
  by (rule sample_met_high) (simp_all add: unsigned_minus_1_eq_mask mask_eq_exp_minus_1)

lemma sample_env_sel [simp]:
  "sha256 sample_env = sample_sha256" "sk_from_bytes sample_env = (\<lambda>bs. bs)"
  "verifying_key sample_env = (\<lambda>sk. sk)" "sk_sign sample_env = (\<lambda>sk msg. sk @ msg)"
  "key_ok sample_env = (\<lambda>_. True)" "sig_verifies sample_env = (\<lambda>key msg sig. sig = key @ msg)"
  "id_order sample_env = sorted_list_of_fset" "peer_order sample_env = sorted_list_of_fset"
  "txn_order sample_env = sorted_list_of_fset"
  "write_all sample_env = (\<lambda>st bs. (st @ bs, True))" "flush_stream sample_env = (\<lambda>st. (st, True))"
  "enc_message sample_env = sample_message_bytes"
  "enc_txn_inner sample_env = sample_inner_bytes"
  by (simp_all add: sample_env_def)

lemma length_sample_inner: "length (enc_block_inner sample_env bi) \<le> 17"
  "length (enc_unconfirmed sample_env ub) \<le> 9"
  by (simp_all add: sample_env_def sample_block_bytes_def)

lemma sample_nonce_high:
  "ub_difficulty ub = Difficulty d \<Longrightarrow> 2 ^ 248 \<le> unat d \<Longrightarrow> find_nouce sample_env ub = Some 0"
  using length_sample_inner(2) [of ub]
  by (simp add: find_nouce_def Let_def nouce_loop.simps [of sample_env "Difficulty d"] sample_sha256_def sample_met_high)

lemma sample_nonce_met: "ub_difficulty ub = Difficulty (- 1) \<Longrightarrow> find_nouce sample_env ub = Some 0"
  by (rule sample_nonce_high [where d = "- 1"]) (simp_all add: unsigned_minus_1_eq_mask mask_eq_exp_minus_1)

lemma sample_genesis_new: "create_genesis sample_env (Difficulty (- 1)) 10 50 = Some sample_genesis"
proof -
  obtain bs where bs: "hex_to_bytes 32 genesis_secret = Inr bs" using genesis_secret_parses by blast
  then have k: "genesis_key = bs" by (simp add: genesis_key_def)
  show ?thesis
    by (simp add: create_genesis_def bs Let_def try_confirm_result sample_nonce_last sample_nonce_met
      from_signer_def genesis_reward_def k sample_genesis_def sample_block_by_def sample_inner_on_def confirmed_inner_def Cash_new_def)
qed

definition sample_start :: "(nat, u8 list) hub" where
  "sample_start = (let g = block_id sample_env sample_genesis in
     \<lparr>cash_set = CashSet_new g, hub_config = sample_config, genesis_id = g,
      peers = fmempty, annoucements = fmempty, mempool = fmempty,
      valid_blocks = fmupd g sample_genesis fmempty, unconfirmed_blocks = fmempty,
      invalid_blocks = {||}, next_blocks = fmempty, leading_block = g, local_node_id = 0\<rparr>)"

lemma sample_start_new: "hub_new sample_env 0 sample_config = Some sample_start"
  using sample_genesis_new by (simp add: hub_new_def sample_config_def sample_start_def Let_def)

lemma sample_start_sel [simp]:
  "hub_config sample_start = sample_config" "genesis_id sample_start = block_id sample_env sample_genesis"
  "peers sample_start = fmempty" "annoucements sample_start = fmempty" "mempool sample_start = fmempty"
  "valid_blocks sample_start = fmupd (block_id sample_env sample_genesis) sample_genesis fmempty"
  "unconfirmed_blocks sample_start = fmempty" "invalid_blocks sample_start = {||}"
  "next_blocks sample_start = fmempty" "leading_block sample_start = block_id sample_env sample_genesis"
  "local_node_id sample_start = 0"
  "cash_set sample_start = CashSet_new (block_id sample_env sample_genesis)"
  by (simp_all add: sample_start_def Let_def)

lemma sample_genesis_sel [simp]: "seqno sample_genesis = 0" "prev_id sample_genesis = zero_id"
  "timestamp sample_genesis = 10" "difficulty sample_genesis = Difficulty (- 1)" "transactions sample_genesis = []"
  "amount (reward sample_genesis) = 50"
  by (simp_all add: sample_genesis_def Cash_new_def)

lemma sample_block1_sel [simp]: "seqno sample_block1 = 1" "prev_id sample_block1 = block_id sample_env sample_genesis"
  "timestamp sample_block1 = 20" "difficulty sample_block1 = Difficulty (- 1)" "transactions sample_block1 = []"
  "amount (reward sample_block1) = 50"
  by (simp_all add: sample_block1_def Cash_new_def)

lemma sample_config_sel [simp]: "initial_block_subsidy sample_config = 50"
  "block_subsidy_half_period sample_config = 4" "difficulty_adjustment_period sample_config = 4"
  "genesis_difficulty sample_config = Difficulty (- 1)" "genesis_timestamp sample_config = 10"
  by (simp_all add: sample_config_def)

lemma sample_start_inv: "hub_inv sample_env sample_start"
  by (rule hub_new_inv [OF sample_env_ok sample_signatures sample_start_new])

lemma sample_blocks_inv: "blocks_inv sample_env (valid_blocks sample_start) (genesis_id sample_start)"
  using sample_start_inv by (simp add: hub_inv_def pool_inv_def chain_inv_def)

lemma sample_cash_start: 
  "cash_set_at sample_env sample_start (block_id sample_env sample_genesis) =
   Some (Some (cash_set (with_cash {|reward sample_genesis|} sample_start)), with_cash {|reward sample_genesis|} sample_start)"
  using cash_set_at_replays [OF sample_blocks_inv, of "block_id sample_env sample_genesis"] branch_root [OF sample_blocks_inv]
  by (simp add: CashSet_new_def apply_block_def Let_def)

lemma sample_check1: "accepts sample_env sample_start sample_block1 (with_cash {|reward sample_genesis|} sample_start)"
  by (simp add: accepts_def sample_cash_start expected_difficulty_def expected_reward_def checked_rem_def checked_add_def
    checked_div_def checked_shr_def block_subsidy_def total_fees_def missing_input_def)

definition sample_s1 :: "(nat, u8 list) hub" where
  "sample_s1 = with_cash {|reward sample_genesis|} sample_start
   \<lparr>valid_blocks := fmupd (block_id sample_env sample_block1) sample_block1 (valid_blocks sample_start),
    leading_block := block_id sample_env sample_block1\<rparr>"

lemma sample_validate1: "validate_block sample_env sample_start sample_block1 = Some ([block_id sample_env sample_block1], sample_s1)"
proof -
  have "check_block sample_env sample_start sample_block1 = Some (Accepted, with_cash {|reward sample_genesis|} sample_start)"
    using sample_check1 by (simp add: check_block_Accepted)
  then show ?thesis
   by (simp add: validate_block_def add_valid_block_def enter_block_def leading_block_seqno_def Let_def sample_ids next_children_def sample_s1_def)
qed

section \<open>Handling the first block\<close>

lemma sample_block_sound [simp]: "sound_block sample_env (sample_block_by sk p n ts [] u a)"
proof -
  let ?bi = "sample_inner_on sk p n ts [] u a"
  have "verify_nonce sample_env ?bi"
    using length_sample_inner(1) [of ?bi] sample_met [of "sample_sha256 (enc_block_inner sample_env ?bi)"]
    by (simp add: verify_nonce_def sample_inner_on_def sample_sha256_def)
  then show ?thesis
    by (simp add: sound_block_def valid_block) (simp add: sample_block_by_def)
qed

lemma sample_fresh1: "fresh_block sample_env sample_start sample_block1"
  by (simp add: fresh_block_iff sample_ids)

lemma sample_fresh2: "fresh_block sample_env sample_start sample_block2"
  by (simp add: fresh_block_iff sample_ids)

lemma sample_s1_sel [simp]:
  "peers sample_s1 = fmempty" "unconfirmed_blocks sample_s1 = fmempty" "invalid_blocks sample_s1 = {||}"
  "next_blocks sample_s1 = fmempty" "mempool sample_s1 = fmempty" "local_node_id sample_s1 = 0"
  "leading_block sample_s1 = block_id sample_env sample_block1"
  "genesis_id sample_s1 = block_id sample_env sample_genesis"
  "hub_config sample_s1 = sample_config"
  "valid_blocks sample_s1 = fmupd (block_id sample_env sample_block1) sample_block1
     (fmupd (block_id sample_env sample_genesis) sample_genesis fmempty)"
  "cash_set sample_s1 = \<lparr>cs_block_id = block_id sample_env sample_genesis, cs_set = {|reward sample_genesis|}\<rparr>"
  by (simp_all add: sample_s1_def with_cash_def CashSet_new_def)

lemma sample_handle1:
  "handle sample_env 100 sample_start (NewBlock None sample_block1) = Some (Inr None, sample_s1)"
proof -
  have "\<not> knows_block sample_start (block_id sample_env sample_block1)"
    using sample_fresh1 by (simp add: fresh_block_def)
  then have "new_block sample_env 100 sample_start None sample_block1 =
      after_validation sample_env sample_s1 None (block_id sample_env sample_block1)
        (prev_id sample_block1) [block_id sample_env sample_block1]"
    by (simp add: new_block_def sample_validate1 del: sample_block1_sel(2))
  moreover have "sample_s1\<lparr>peers := fmempty\<rparr> = sample_s1" by (simp add: sample_s1_def sample_start_def Let_def with_cash_def)
  ultimately show ?thesis
    by (simp add: after_validation_def broadcast_def sample_message_bytes_def no_reply_def
      sorted_list_of_fset.rep_eq)
qed

lemma sample_reachable:
  "reachable (hub_start sample_env sample_config) (message_ok sample_env) (hub_step sample_env) sample_s1"
proof (rule reachable.handled)
  show "reachable (hub_start sample_env sample_config) (message_ok sample_env) (hub_step sample_env) sample_start"
    using sample_start_new by (intro reachable.started) (auto simp: hub_start_def)
  show "message_ok sample_env (NewBlock None sample_block1)" by (simp add: sample_block1_def)
  show "hub_step sample_env sample_start (NewBlock None sample_block1) sample_s1"
    using sample_handle1 by (rule hub_step.handles)
qed

lemma sample_s1_inv: "hub_inv sample_env sample_s1"
  by (rule reachable_hub_inv [OF sample_reachable sample_env_ok sample_signatures])

section \<open>More states\<close>

text \<open>The state after the second block arrived before the first.\<close>

definition sample_waiting :: "(nat, u8 list) hub" where
  "sample_waiting = put_aside sample_env sample_start sample_block2"

lemma sample_block2_sel [simp]: "seqno sample_block2 = 2" "prev_id sample_block2 = block_id sample_env sample_block1"
  "timestamp sample_block2 = 30" "transactions sample_block2 = []" "sound_block sample_env sample_block2"
  by (simp_all add: sample_block2_def)

lemma sample_block2_missing: "fmlookup (valid_blocks sample_start) (prev_id sample_block2) = None"
  by (simp add: sample_ids)

lemma sample_waiting_inv: "hub_inv sample_env sample_waiting"
  unfolding sample_waiting_def
  using validate_block_hub_inv [OF sample_env_ok sample_start_inv sample_fresh2 _
      validate_block_orphan [OF sample_block2_missing]] by simp

lemma sample_waiting_sel [simp]:
  "unconfirmed_blocks sample_waiting = fmupd (block_id sample_env sample_block2) sample_block2 fmempty"
  "next_blocks sample_waiting =
     fmupd (block_id sample_env sample_block1) {|block_id sample_env sample_block2|} fmempty"
  "valid_blocks sample_waiting = fmupd (block_id sample_env sample_genesis) sample_genesis fmempty"
  by (simp_all add: sample_waiting_def put_aside_def)

lemma sample_waiting_acyclic: "wf (parent_rel (unconfirmed_blocks sample_waiting))"
proof -
  have "parent_rel (unconfirmed_blocks sample_waiting) =
      {(block_id sample_env sample_block1, block_id sample_env sample_block2)}"
    by (auto simp: parent_rel_def split: if_splits)
  then show ?thesis by (simp add: sample_ids wf_insert)
qed

text \<open>A transaction of the miner of the first block, and the state that pools it.\<close>

definition sample_txn :: Transaction where
  "sample_txn =
     (let inner = \<lparr>txn_inputs = [reward sample_block1],
                   txn_outputs = [Cash_new 9 20 \<lparr>pub_key = [8]\<rparr>, Cash_new 10 25 \<lparr>pub_key = sample_key\<rparr>]\<rparr>
      in \<lparr>txn_inner = inner,
          txn_signature = \<lparr>sig_bytes = sample_key @ sample_inner_bytes inner\<rparr>\<rparr>)"

lemma sample_txn_new:
  "Transaction_new sample_env sample_key [reward sample_block1]
     [Cash_new 9 20 \<lparr>pub_key = [8]\<rparr>, Cash_new 10 25 \<lparr>pub_key = sample_key\<rparr>] = Some (Inr sample_txn)"
  by (simp add: Transaction_new_Inr amounts_ok_def sample_block1_def Cash_new_def from_signer_def
      sample_txn_def Let_def)

lemma sample_txn_valid: "transaction_valid sample_env sample_txn"
  by (rule new_transaction_valid [OF sample_signatures sample_txn_new])

definition sample_pooled :: "(nat, u8 list) hub" where
  "sample_pooled = sample_s1\<lparr>mempool := fmupd (txn_id sample_env sample_txn) sample_txn fmempty\<rparr>"

lemma sample_pooled_inv: "hub_inv sample_env sample_pooled"
  using hub_inv_pool [OF sample_s1_inv sample_txn_valid] by (simp add: sample_pooled_def)

lemma sample_pooled_sel [simp]:
  "mempool sample_pooled = fmupd (txn_id sample_env sample_txn) sample_txn fmempty"
  "valid_blocks sample_pooled = valid_blocks sample_s1" "leading_block sample_pooled = leading_block sample_s1"
  "hub_config sample_pooled = sample_config" "cash_set sample_pooled = cash_set sample_s1"
  "genesis_id sample_pooled = genesis_id sample_s1"
  by (simp_all add: sample_pooled_def del: sample_s1_sel) (simp_all)

lemma sample_branch1:
  "branch (valid_blocks sample_s1) (block_id sample_env sample_block1) = [sample_genesis, sample_block1]"
  using branch_step [OF hub_inv_blocks [OF sample_s1_inv], of "block_id sample_env sample_block1"]
    branch_root [OF hub_inv_blocks [OF sample_s1_inv]]
  by (simp add: sample_ids)

lemma sample_waiting_reachable:
  "reachable (hub_start sample_env sample_config) (message_ok sample_env) (hub_step sample_env) sample_waiting"
proof (rule reachable.handled)
  show "reachable (hub_start sample_env sample_config) (message_ok sample_env) (hub_step sample_env) sample_start"
    using sample_start_new by (intro reachable.started) (auto simp: hub_start_def)
  show "message_ok sample_env (NewBlock None sample_block2)" by simp
  have "handle sample_env 100 sample_start (NewBlock None sample_block2) = Some (Inr None, sample_waiting)"
    using new_block_orphan(2) [OF sample_env_ok sample_start_inv sample_fresh2 _ _ sample_block2_missing
        sample_waiting_acyclic [unfolded sample_waiting_def], of 100]
    by (simp add: sample_waiting_def)
  then show "hub_step sample_env sample_start (NewBlock None sample_block2) sample_waiting"
    by (rule hub_step.handles)
qed

definition sample_with_peers :: "nat \<Rightarrow> (nat, u8 list) hub" where
  "sample_with_peers n = sample_start\<lparr>local_node_id := n, peers := fmupd 7 [] (fmupd 8 [] fmempty)\<rparr>"

section \<open>Bytes and a mined block\<close>

text \<open>A decoder for the short encodings of the sample node.\<close>

definition sample_parse :: "u8 list \<Rightarrow> nat RawMessage option" where
  "sample_parse bs =
     (case bs of
        a # b # h \<Rightarrow>
          if a = 0 \<and> b = 0 then Some (RawBroadcast (BroadcastTransaction (Sha256Hash h)))
          else if a = 0 \<and> b = 1 then Some (RawBroadcast (BroadcastBlock (Sha256Hash h)))
          else if a = 1 then Some (RawGetTransactionRequest (Sha256Hash (b # h)))
          else if a = 3 then Some (RawGetBlockRequest (Sha256Hash (b # h)))
          else None
      | _ \<Rightarrow> None)"

lemma sample_decodes:
  "transport_decode sample_env sample_parse [0, 0, 4, 2] = Some (Inr (Broadcast (BroadcastTransaction (Sha256Hash [4, 2]))))"
  "transport_decode sample_env sample_parse [3, 9] = Some (Inr (GetBlockRequest (Sha256Hash [9])))"
  by (simp_all add: transport_decode_def sample_parse_def)

lemma sample_encodes:
  "enc_message sample_env (Broadcast (BroadcastTransaction (Sha256Hash [4, 2]))) = Some [0, 0, 4, 2]"
  "enc_message sample_env (GetBlockRequest (Sha256Hash [9])) = Some [3, 9]"
  by (simp_all add: sample_message_bytes_def)

lemma sample_stream:
  "peer_run sample_env sample_parse (\<lambda>_. True) 5 0 (frame_bytes [0, 0, 4, 2]) =
     ([AnnounceTransaction 5 (Sha256Hash [4, 2])], StreamEnded)"
  using peer_run_frames [of "[Broadcast (BroadcastTransaction (Sha256Hash [4, 2]))]" "\<lambda>_. Some [0, 0, 4, 2]"
      sample_env sample_parse 5 0] by (simp add: sample_decodes)

lemma sample_start_reachable:
  "reachable (hub_start sample_env sample_config) (message_ok sample_env) (hub_step sample_env) sample_start"
  using sample_start_new by (intro reachable.started) (auto simp: hub_start_def)

lemma sample_mined:
  "\<exists>b. mine_on sample_env 40 3 sample_key sample_pooled = Some (Inr b) \<and> transactions b = [sample_txn]"
proof -
  let ?own = "from_signer sample_env sample_key"
  let ?ub = "\<lparr>ub_seqno = 2, ub_difficulty = Difficulty (- 1), ub_prev_id = block_id sample_env sample_block1,
    ub_transactions = [sample_txn], ub_reward = Cash_new 3 55 ?own, ub_miner = ?own, ub_timestamp = 40\<rparr>"
  have fee: "fee sample_txn = Some 5"
    by (simp add: fee_Some sample_txn_def Let_def inputs_def outputs_def Cash_new_def sample_block1_def)
  have pool: "query_mempool sample_env sample_pooled = Some [(txn_id sample_env sample_txn, 5)]"
    by (simp add: query_mempool_def mempool_fee_def fee sorted_list_of_fset.rep_eq)
  have "UnconfirmedBlock_new sample_env 40 3 sample_block1 ?own [sample_txn] None sample_config = Some (Inr ?ub)"
    by (simp add: UnconfirmedBlock_new_def checked_add_def checked_rem_def block_subsidy_def checked_div_def
        checked_shr_def total_fees_def fee)
  then have "mine_on sample_env 40 3 sample_key sample_pooled =
      map_option (map_sum ConfirmFailed id) (try_confirm sample_env ?ub sample_key)"
    by (simp add: mine_on_def pool mine_round_def Let_def pick_transactions_def found_transactions_def
        checked_add_def checked_rem_def sample_config_def default_config_def)
  also obtain b where b: "try_confirm sample_env ?ub sample_key = Some (Inr b)"
    using try_confirm_result [OF sample_nonce_last sample_nonce_met, of ?ub sample_key] by auto
  finally show ?thesis using try_confirm_block(4) [OF b] b by simp
qed

section \<open>A nonce to search for\<close>

text \<open>Here the hash of a block is three minus the first byte of its nonce.\<close>

definition search_env :: sample_env_type where
  "search_env = sample_env\<lparr>sha256 := \<lambda>bs. [3 - bs ! 9]\<rparr>"

definition sample_ub :: "u256 \<Rightarrow> UnconfirmedBlock" where
  "sample_ub d = \<lparr>ub_seqno = 1, ub_difficulty = Difficulty d, ub_prev_id = zero_id, ub_transactions = [],
     ub_reward = Cash_new 1 50 \<lparr>pub_key = [7]\<rparr>, ub_miner = \<lparr>pub_key = [7]\<rparr>, ub_timestamp = 20\<rparr>"

lemma search_hash:
  "length bs = 9 \<Longrightarrow> sha256 search_env (bs @ to_le_bytes 8 (n :: u64)) = [3 - ucast n]"
  by (simp add: search_env_def nth_append to_le_bytes_def)

lemma length_sample_ub: "length (enc_unconfirmed search_env (sample_ub d)) = 9"
  by (simp add: search_env_def sample_env_def sample_ub_def sample_block_bytes_def zero_id_def)

end
