(* ===== verification/Ledger_Properties.thy ===== *)
theory Ledger_Properties
  imports Sample_Node
begin

text \<open>
  The properties of transactions, blocks, difficulty and subsidy, of the transfer a client builds and
  of the block a miner builds.
\<close>

section \<open>Transactions\<close>

text \<open>The check of inputs and outputs accepts exactly the transactions with at least one input,
  all inputs of one owner, an input total that fits in 64 bits and outputs worth no more than the
  inputs; with no overflow it rejects every other one with an error.\<close>

theorem inputs_and_outputs_checked:
  "(check_inputs_and_outputs ins outs = Some (Inr ()) \<longleftrightarrow>
      ins \<noteq> [] \<and> (\<forall>i \<in> set ins. owner i = owner (hd ins)) \<and>
      cash_sum ins < 2 ^ 64 \<and> cash_sum outs \<le> cash_sum ins) \<and>
   (cash_sum ins < 2 ^ 64 \<longrightarrow> cash_sum outs < 2 ^ 64 \<longrightarrow> check_inputs_and_outputs ins outs \<noteq> None)"
proof (intro conjI impI)
  show "check_inputs_and_outputs ins outs = Some (Inr ()) \<longleftrightarrow>
      ins \<noteq> [] \<and> (\<forall>i \<in> set ins. owner i = owner (hd ins)) \<and>
      cash_sum ins < 2 ^ 64 \<and> cash_sum outs \<le> cash_sum ins"
    by (simp add: check_accepts amounts_ok_def)
  show "check_inputs_and_outputs ins outs \<noteq> None" if "cash_sum ins < 2 ^ 64" "cash_sum outs < 2 ^ 64"
  proof (cases ins)
    case (Cons x xs)
    have "checked_sum (map amount (x # xs)) \<noteq> None" "checked_sum (map amount outs) \<noteq> None"
      using that Cons by (simp_all add: checked_sum_amounts_small del: list.map)
    then obtain a b where "checked_sum (map amount (x # xs)) = Some a" "checked_sum (map amount outs) = Some b"
      by blast
    with Cons show ?thesis by (simp add: check_inputs_and_outputs_def del: not_None_eq bind_Some_iff)
  qed (simp add: check_inputs_and_outputs_def)
qed

theorem inputs_and_outputs_checked_witness:
  "check_inputs_and_outputs [Cash_new 1 5 \<lparr>pub_key = []\<rparr>] [Cash_new 2 6 \<lparr>pub_key = []\<rparr>] \<noteq> None \<and>
   check_inputs_and_outputs [Cash_new 1 5 \<lparr>pub_key = []\<rparr>] [Cash_new 2 6 \<lparr>pub_key = []\<rparr>] \<noteq> Some (Inr ())"
  using inputs_and_outputs_checked [of "[Cash_new 1 5 \<lparr>pub_key = []\<rparr>]" "[Cash_new 2 6 \<lparr>pub_key = []\<rparr>]"]
  by (simp add: Cash_new_def)

text \<open>Nothing in the check of a transaction compares its inputs with one another: a transaction
  that lists the same piece of cash twice may spend twice its amount.\<close>

theorem repeated_input_counts_twice:
  assumes "0 < unat (amount c)" "2 * unat (amount c) < 2 ^ 64"
  shows "check_inputs_and_outputs [c, c] [Cash_new u (2 * amount c) receiver] = Some (Inr ())"
proof -
  have "unat (2 * amount c) = 2 * unat (amount c)"
    using unat_mul_no_overflow [of 2 "amount c"] assms(2) by simp
  then show ?thesis using assms(2) by (simp add: check_accepts amounts_ok_def Cash_new_def)
qed

theorem repeated_input_counts_twice_witness:
  "check_inputs_and_outputs [Cash_new 1 50 \<lparr>pub_key = [1]\<rparr>, Cash_new 1 50 \<lparr>pub_key = [1]\<rparr>]
     [Cash_new 2 100 \<lparr>pub_key = [2]\<rparr>] = Some (Inr ())"
  using repeated_input_counts_twice [of "Cash_new 1 50 \<lparr>pub_key = [1]\<rparr>" 2 "\<lparr>pub_key = [2]\<rparr>"]
  by (simp add: Cash_new_def)

text \<open>A transaction passes its validator exactly if its inputs and outputs pass the check, the key
  of the owner of its inputs is a key, and its signature verifies under that key on the encoding of
  inputs and outputs; the validator then returns the very fields it was given.\<close>

theorem validator_accepts:
  "transaction_try_from c v = Some (Inr t) \<longleftrightarrow>
     check_inputs_and_outputs (inputs t) (outputs t) = Some (Inr ()) \<and>
     key_ok c (pub_key (owner (hd (inputs t)))) \<and>
     sig_verifies c (pub_key (owner (hd (inputs t)))) (enc_txn_inner c (txn_inner t))
       (sig_bytes (txn_signature t)) \<and>
     v = transaction_raw t"
  using txn.validate_iff [of c v t]
  by (auto simp: transaction_valid_def transaction_try_from_Inr transaction_raw_def inputs_def outputs_def)

text \<open>A transaction built by \<open>Transaction::new\<close> passes the validator of every receiver, its inputs
  belong to the signer, and its fee is defined and is what the inputs are worth beyond the outputs.\<close>

theorem built_transaction_is_valid:
  assumes "signatures_verify c" "Transaction_new c sk ins outs = Some (Inr t)"
  shows "transaction_try_from c (transaction_raw t) = Some (Inr t) \<and>
    inputs t = ins \<and> outputs t = outs \<and> owner (hd (inputs t)) = from_signer c sk \<and>
    (\<exists>f. fee t = Some f \<and> cash_sum ins = cash_sum outs + unat f)"
proof -
  have "amounts_ok (inputs t) (outputs t)" "inputs t = ins" "outputs t = outs"
    "owner (hd (inputs t)) = from_signer c sk"
    using assms(2) by (auto simp: Transaction_new_Inr inputs_def outputs_def)
  moreover from this have "\<exists>f. fee t = Some f" using valid_transaction_fee by blast
  ultimately show ?thesis
    using new_transaction_valid [OF assms] by (auto simp: transaction_valid_def fee_Some)
qed

theorem built_transaction_is_valid_witness:
  "fee sample_txn = Some 5"
  using built_transaction_is_valid [OF sample_signatures sample_txn_new]
  by (auto simp: Cash_new_def sample_block1_def word_unat_eq_iff)

text \<open>C28: The transfer a client builds conserves money: its inputs are cash of the sender out of the
  cash set, they are worth the amount, the fee and the change together, the receiver gets exactly the
  amount, the sender the change, and the fee of the transaction is the fee asked for. The
  transaction is valid for every receiver.\<close>

theorem transfer_conserves_money:
  assumes "signatures_verify c" "build_transfer c cs signer receiver a f u1 u2 = Some (Inr t)"
  shows "transaction_valid c t \<and> set (inputs t) \<subseteq> set cs \<and>
    (\<forall>i \<in> set (inputs t). owner i = from_signer c signer) \<and> fee t = Some f \<and>
    (\<exists>change. outputs t = [Cash_new u1 a receiver, Cash_new u2 change (from_signer c signer)] \<and>
       cash_sum (inputs t) = unat a + unat change + unat f)"
  using build_transfer_Inr [OF assms(2)] new_transaction_valid [OF assms(1)] by blast

theorem transfer_conserves_money_witness:
  "\<exists>t. build_transfer sample_env [reward sample_block1] sample_key \<lparr>pub_key = [8]\<rparr> 20 5 9 10 = Some (Inr t) \<and>
    fee t = Some 5"
proof -
  have own: "reward sample_block1 = Cash_new 1 50 (from_signer sample_env sample_key)"
    by (simp add: sample_block1_def from_signer_def)
  have "build_transfer sample_env [reward sample_block1] sample_key \<lparr>pub_key = [8]\<rparr> 20 5 9 10 =
      Some (Inr sample_txn)"
    using sample_txn_new
    by (simp add: build_transfer_def Let_def own checked_sum_def checked_add_def checked_sub_def Cash_new_def
        from_signer_def)
  then show ?thesis using transfer_conserves_money [OF sample_signatures] by blast
qed

section \<open>Blocks\<close>

text \<open>The search for a nonce returns the least nonce whose hash is below the target, trying every
  value up to the largest but one; it fails only if none of these meets the target.\<close>

theorem nonce_search:
  "case find_nouce c ub of
     Some n \<Rightarrow> n \<noteq> - 1 \<and> is_met (ub_difficulty ub) (sha256 c (enc_unconfirmed c ub @ to_le_bytes 8 n)) \<and>
       (\<forall>m < n. \<not> is_met (ub_difficulty ub) (sha256 c (enc_unconfirmed c ub @ to_le_bytes 8 m)))
   | None \<Rightarrow> \<forall>m < (- 1 :: u64).
       \<not> is_met (ub_difficulty ub) (sha256 c (enc_unconfirmed c ub @ to_le_bytes 8 m))"
  using find_nouce_Some [of c ub] find_nouce_None [of c ub] by (auto simp: nonce_met_def split: option.split)

theorem nonce_search_witness:
  "find_nouce search_env (sample_ub 1) = Some 3 \<and>
    \<not> is_met (Difficulty 1) (sha256 search_env (enc_unconfirmed search_env (sample_ub 1) @ to_le_bytes 8 (2 :: u64))) \<and>
    is_met (Difficulty 1) (sha256 search_env (enc_unconfirmed search_env (sample_ub 1) @ to_le_bytes 8 (3 :: u64)))"
proof -
  have "ub_difficulty (sample_ub d) = Difficulty d" for d by (simp add: sample_ub_def)
  moreover from this have "find_nouce search_env (sample_ub 1) = Some 3"
    by (simp add: find_nouce_def Let_def nouce_loop.simps [of _ _ _ _ 0] nouce_loop.simps [of _ _ _ _ 1]
      nouce_loop.simps [of _ _ _ _ 2] nouce_loop.simps [of _ _ _ _ 3] length_sample_ub search_hash
      is_met_def from_le_bytes_def)
  ultimately show ?thesis using nonce_search [of "sample_ub 1" search_env] by simp
qed

text \<open>Confirming a block: once a nonce is found, a signer who is not the miner of the block gets an
  error, and the miner gets a block with every field unchanged, that nonce, and a signature, which
  passes the validator of every receiver.\<close>

theorem confirmed_block_passes_validator:
  assumes "nonce_is_last c" "signatures_verify c" "find_nouce c ub = Some n"
  shows "\<exists>b. try_confirm c ub sk =
      Some (if ub_miner ub = from_signer c sk then Inr b else Inl MinerNotMatchSigner) \<and>
    blk_inner b = confirmed_inner ub n \<and>
    (ub_miner ub = from_signer c sk \<longrightarrow> block_try_from c (block_raw b) = Inr b)"
proof -
  let ?b = "\<lparr>blk_inner = confirmed_inner ub n,
    blk_signature = \<lparr>sig_bytes = sk_sign c sk (enc_block_inner c (confirmed_inner ub n))\<rparr>\<rparr>"
  have "ub_miner ub = from_signer c sk \<Longrightarrow> with_nonce c ub sk n = Inr ?b"
    using find_nouce_Some [OF assms(3)] by (simp add: with_nonce_Inr nonce_met_verify [OF assms(1)])
  then have "ub_miner ub = from_signer c sk \<Longrightarrow> block_try_from c (block_raw ?b) = Inr ?b"
    using confirmed_block_valid [OF assms(2)] by (simp add: block_valid_def)
  then show ?thesis using try_confirm_result [OF assms(1,3), of sk] by (intro exI [of _ ?b]) simp
qed

theorem confirmed_block_passes_validator_witness:
  "\<exists>b. try_confirm sample_env
      \<lparr>ub_seqno = 1, ub_difficulty = Difficulty (- 1), ub_prev_id = zero_id, ub_transactions = [],
       ub_reward = Cash_new 1 50 \<lparr>pub_key = [7]\<rparr>, ub_miner = \<lparr>pub_key = [7]\<rparr>, ub_timestamp = 3\<rparr> [7] =
    Some (Inr b) \<and> block_try_from sample_env (block_raw b) = Inr b"
  using confirmed_block_passes_validator [OF sample_nonce_last sample_signatures sample_nonce_met,
      of "\<lparr>ub_seqno = 1, ub_difficulty = Difficulty (- 1), ub_prev_id = zero_id, ub_transactions = [],
       ub_reward = Cash_new 1 50 \<lparr>pub_key = [7]\<rparr>, ub_miner = \<lparr>pub_key = [7]\<rparr>, ub_timestamp = 3\<rparr>" "[7]"]
  by (auto simp: from_signer_def)

text \<open>The subsidy of a height is the initial subsidy halved once per half period, rounded down; it
  is defined exactly below 64 halvings with a positive half period, and panics from then on.\<close>

theorem subsidy_halves:
  "block_subsidy cfg n =
     (if block_subsidy_half_period cfg = 0 \<or> 64 \<le> unat n div unat (block_subsidy_half_period cfg) then None
      else Some (of_nat (unat (initial_block_subsidy cfg) div
        2 ^ (unat n div unat (block_subsidy_half_period cfg)))))"
proof -
  let ?k = "unat n div unat (block_subsidy_half_period cfg)"
  let ?v = "unat (initial_block_subsidy cfg) div 2 ^ ?k"
  have "?v < 2 ^ 64"
    using le_less_trans [OF div_le_dividend unat_bound [of "initial_block_subsidy cfg"]] by simp
  then have v: "unat (of_nat ?v :: u64) = ?v" by (intro unat_of_nat_small) simp
  show ?thesis
  proof (cases "block_subsidy cfg n")
    case None
    then have "\<not> (block_subsidy_half_period cfg \<noteq> 0 \<and> ?k < 64)"
      using block_subsidy_Some [of cfg n "of_nat ?v"] v by auto
    with None show ?thesis by auto
  next
    case (Some x)
    then show ?thesis using block_subsidy_Some [of cfg n x] v by (auto simp: word_unat_eq_iff)
  qed
qed

text \<open>C30: The difficulty adjustment, on numbers: a span of more than four times the expected one
  multiplies the target by four, less than a quarter of it divides the target by four, and any other
  scales it in proportion; the result never exceeds the largest 256-bit number. A positive target
  stays positive, and one not below the expected span grows at most four times.\<close>

theorem difficulty_adjusts:
  assumes "span_ok config"
  shows "\<exists>d'. adjust_with_actual_span d actual config = Some d' \<and>
    unat (target d') = adjusted_target (expected_span config) (unat (target d)) (unat actual) \<and>
    (4 \<le> expected_span config \<longrightarrow> target d \<noteq> 0 \<longrightarrow> target d' \<noteq> 0) \<and>
    (expected_span config \<le> unat (target d) \<longrightarrow> unat (target d') \<le> 4 * unat (target d))"
proof -
  obtain d' where d': "adjust_with_actual_span d actual config = Some d'"
    "unat (target d') = adjusted_target (expected_span config) (unat (target d)) (unat actual)"
    using adjust_with_actual_span_spec [OF assms] by blast
  have "target d' \<noteq> 0" if "4 \<le> expected_span config" "target d \<noteq> 0"
    using adjusted_target_pos [OF that(1), of "unat (target d)" "unat actual"] that(2) d'(2)
    by (auto simp: unat_gt_0)
  moreover have "unat (target d') \<le> 4 * unat (target d)" if "expected_span config \<le> unat (target d)"
    using adjusted_target_upper [OF _ that, of "unat actual"] assms d'(2) by (simp add: span_ok_def)
  ultimately show ?thesis using d' by blast
qed

lemma default_span: "expected_span default_config = 1209600000000000"
  by (simp add: expected_span_def default_config_def as_nanos_def from_secs_def)

theorem difficulty_adjusts_witness:
  "\<exists>d'. adjust_with_actual_span (Difficulty 4000000000000000) 1209600000000000 default_config = Some d' \<and>
    unat (target d') = 3628800000000000"
  using difficulty_adjusts [of default_config "Difficulty 4000000000000000" 1209600000000000]
  by (auto simp: span_ok_def default_span adjusted_target_def)

text \<open>The genesis block: \<open>create_genesis\<close> returns a block of height 0 on the zero identifier with no
  transactions, the given difficulty, time and subsidy, which passes the validator.\<close>

theorem genesis_block_sound:
  assumes "signatures_verify c" "create_genesis c d ts subsidy = Some b"
  shows "seqno b = 0 \<and> prev_id b = zero_id \<and> transactions b = [] \<and> difficulty b = d \<and>
    timestamp b = ts \<and> amount (reward b) = subsidy \<and> cash_id (reward b) = 0 \<and>
    owner (reward b) = miner b \<and> block_try_from c (block_raw b) = Inr b"
  using create_genesis_Some [OF assms(2)] create_genesis_valid [OF assms] by (simp add: block_valid_def)

theorem genesis_block_sound_witness:
  "block_try_from sample_env (block_raw sample_genesis) = Inr sample_genesis"
  using genesis_block_sound [OF sample_signatures sample_genesis_new] by simp

section \<open>Text\<close>

text \<open>Hexadecimal text: \<open>hex_to_bytes\<close> reads back what \<open>fmt_hex\<close> writes, for every byte string; it
  returns bytes exactly for ASCII text of twice their number in which every character is a digit,
  and panics on any other.\<close>

theorem hex_round_trip:
  "hex_to_bytes (length bs) (fmt_hex bs) = Inr bs \<and>
   ((\<exists>xs. hex_to_bytes n s = Inr xs \<and> length xs = n) \<longleftrightarrow>
      is_ascii s \<and> length s = n * 2 \<and> (\<forall>c \<in> set s. \<not> isl (ascii_to_num c)))"
proof
  show "hex_to_bytes (length bs) (fmt_hex bs) = Inr bs" by (rule hex_to_bytes_fmt_hex)
  have "(\<exists>xs. hex_loop n s 0 (replicate n 0) = Inr xs \<and> length xs = n) \<longleftrightarrow>
      (\<forall>c \<in> set s. \<not> isl (ascii_to_num c))" if len: "length s = n * 2"
  proof -
    have only: "isl (ascii_to_num c) \<longleftrightarrow> ascii_to_num c = Inl NonHexCharacter" for c
      by (simp add: ascii_to_num_def)
    have index: "(\<exists>j < n. \<exists>k \<in> {j * 2, j * 2 + 1}. isl (ascii_to_num (s ! k))) \<longleftrightarrow>
        (\<exists>k < length s. isl (ascii_to_num (s ! k)))" (is "?l \<longleftrightarrow> ?r")
    proof
      assume ?l
      then obtain j k where "j < n" "k \<in> {j * 2, j * 2 + 1}" "isl (ascii_to_num (s ! k))" by blast
      moreover from this have "k < length s" using len by auto
      ultimately show ?r by blast
    next
      assume ?r
      then obtain k where k: "k < length s" "isl (ascii_to_num (s ! k))" by blast
      then have "k div 2 < n" "k \<in> {k div 2 * 2, k div 2 * 2 + 1}" using len by auto
      with k show ?l by blast
    qed
    show ?thesis
    proof (cases "hex_loop n s 0 (replicate n 0)")
      case (Inl e)
      then have "\<exists>k < length s. isl (ascii_to_num (s ! k))"
        using hex_loop_Inl [of n s 0 "replicate n 0" e] index only by auto
      then have "\<exists>c \<in> set s. isl (ascii_to_num c)" by auto
      with Inl show ?thesis by auto
    next
      case (Inr xs)
      then have "hex_loop n s 0 (replicate n 0) \<noteq> Inl NonHexCharacter" by simp
      then have "\<not> (\<exists>k < length s. isl (ascii_to_num (s ! k)))"
        using hex_loop_Inl [of n s 0 "replicate n 0" NonHexCharacter] index only by auto
      then show ?thesis using Inr hex_loop_length [OF Inr] by (auto simp: in_set_conv_nth)
    qed
  qed
  then show "(\<exists>xs. hex_to_bytes n s = Inr xs \<and> length xs = n) \<longleftrightarrow>
      is_ascii s \<and> length s = n * 2 \<and> (\<forall>c \<in> set s. \<not> isl (ascii_to_num c))"
    by (auto simp: hex_to_bytes_def)
qed

theorem hex_round_trip_witness:
  "\<exists>xs. hex_to_bytes 1 [49, 50] = Inr xs \<and> length xs = 1"
  using hex_round_trip [of "[]" 1 "[49, 50]"] by (simp add: ascii_to_num_def is_ascii_def)

section \<open>Mining\<close>

text \<open>The transactions a miner takes are those with the lowest fees: no transaction left out of the
  first \<open>block_txn_limit\<close> has a lower fee than one taken.\<close>

theorem miner_takes_lowest_fees:
  assumes "(t, f) \<in> set (take limit (sort_key snd fees))" "(u, g) \<in> set (drop limit (sort_key snd fees))"
  shows "t \<in> set (pick_transactions limit fees) \<and> f \<le> g"
  using pick_transactions_lowest [OF assms] assms(1) by (force simp: pick_transactions_def)

theorem miner_takes_lowest_fees_witness:
  "Sha256Hash [1] \<in> set (pick_transactions 1 [(Sha256Hash [2], 9), (Sha256Hash [1], 3)]) \<and> (3 :: u64) \<le> 9"
  using miner_takes_lowest_fees [of "Sha256Hash [1]" 3 1 "[(Sha256Hash [2], 9), (Sha256Hash [1], 3)]"
      "Sha256Hash [2]" 9] by simp

end
