(* ===== verification/Hub_Properties.thy ===== *)
theory Hub_Properties
  imports Sample_Node
begin

text \<open>
  The properties of the hub: its chain, its pools of blocks, its cash set, its handler. Each is
  followed by an application to the sample node of theory Sample_Node.
\<close>

section \<open>The chain of the hub\<close>

text \<open>C1: In every state the hub reaches from its initial state by handling any sequence of messages
  (whatever the outcome of each, and with any clock), the invariant of the hub holds: the valid
  blocks form a tree rooted in genesis, the pools are disjoint and consistent, the leader is a
  highest valid block, every pooled transaction is valid and stored under its own identifier, every
  stored block went through its validator, and there are at most three peers.\<close>

theorem reachable_invariant:
  assumes "env_ok env" "signatures_verify env"
    and "reachable (hub_start env cfg) (message_ok env) (hub_step env) s"
  shows "hub_inv env s"
  using assms hub.reachable_inv by blast

theorem reachable_invariant_witness:
  "hub_inv sample_env sample_s1 \<and> valid_blocks sample_s1 \<noteq> valid_blocks sample_start"
proof
  show "hub_inv sample_env sample_s1"
    by (rule reachable_invariant [OF sample_env_ok sample_signatures sample_reachable])
  have "fmlookup (valid_blocks sample_s1) (block_id sample_env sample_block1) \<noteq>
      fmlookup (valid_blocks sample_start) (block_id sample_env sample_block1)"
    by (simp add: sample_ids)
  then show "valid_blocks sample_s1 \<noteq> valid_blocks sample_start" by metis
qed

text \<open>C4: Under the invariant, \<open>confirmed_chain\<close> initialises every slot of its array before it reads
  it, never writes outside of it, ends, and returns the chain from genesis to the leading block: one
  block per height, each naming the identifier of the one before it.\<close>

theorem confirmed_chain_complete:
  assumes "hub_inv env s" "fmlookup (valid_blocks s) (leading_block s) = Some l" "seqno l \<noteq> - 1"
  shows "\<exists>chain. confirmed_chain s = Some chain \<and> length chain = Suc (height l) \<and>
    linked_chain env (genesis_id s) (leading_block s) chain"
  using assms by (rule hub_confirmed_chain)

theorem confirmed_chain_complete_witness:
  "\<exists>chain. confirmed_chain sample_s1 = Some chain \<and> length chain = 2 \<and>
    linked_chain sample_env (block_id sample_env sample_genesis) (block_id sample_env sample_block1) chain"
  using confirmed_chain_complete [OF sample_s1_inv, of sample_block1]
  by (simp add: numeral_2_eq_2)

text \<open>C2: The verdict of \<open>validate_block\<close> on a block the hub does not know. With an unknown parent the
  block is put aside and nothing else happens. With a known parent it becomes valid exactly if its
  timestamp is not before its parent's, its height is one more, its difficulty and its reward are
  the expected ones and each of its inputs is in the cash set computed at its parent; it is then the
  first of the identifiers returned. Otherwise nothing is returned and it is marked invalid.\<close>

theorem validate_block_decides:
  assumes "orders_ok env" "no_zero_id env" "pool_inv env {} s" "fresh_block env s b"
    and "validate_block env s b = Some (ids, s')"
  shows "if fmlookup (valid_blocks s) (prev_id b) = None
      then ids = [] \<and> s' = put_aside env s b
      else if \<exists>s1 prev cash. fmlookup (valid_blocks s) (prev_id b) = Some prev \<and>
          timestamp prev \<le> timestamp b \<and> height b = Suc (height prev) \<and>
          expected_difficulty s b prev = Some (difficulty b) \<and>
          cash_set_at env s (prev_id b) = Some (Some cash, s1) \<and>
          (\<forall>t \<in> set (transactions b). set (inputs t) \<subseteq> fset (cs_set cash)) \<and>
          expected_reward (hub_config s) b = Some (amount (reward b))
        then ids \<noteq> [] \<and> hd ids = block_id env b
      else ids = [] \<and> block_id env b |\<in>| invalid_blocks s'"
proof -
  have "\<not> missing_input S b \<longleftrightarrow> (\<forall>t \<in> set (transactions b). set (inputs t) \<subseteq> fset S)" for S
    by (auto simp: missing_input_def list_ex_iff)
  then show ?thesis using validate_block_verdict [OF assms] by (simp add: accepts_def)
qed

theorem validate_block_decides_witness:
  "block_id sample_env sample_block1 \<in> set (fst (the (validate_block sample_env sample_start sample_block1)))
    \<and> fmlookup (unconfirmed_blocks (put_aside sample_env sample_start sample_block2))
        (block_id sample_env sample_block2) = Some sample_block2
    \<and> validate_block sample_env sample_start sample_block2 =
        Some ([], put_aside sample_env sample_start sample_block2)"
proof -
  have inv: "pool_inv sample_env {} sample_start" by (rule hub_inv_pools [OF sample_start_inv])
  note use = validate_block_decides [OF sample_orders_ok sample_no_zero_id inv]
  have "accepts sample_env sample_start sample_block1 (with_cash {|reward sample_genesis|} sample_start)"
    by (rule sample_check1)
  then have "block_id sample_env sample_block1 \<in> set [block_id sample_env sample_block1]"
    using use [OF sample_fresh1 sample_validate1] by simp
  moreover have "fmlookup (valid_blocks sample_start) (prev_id sample_block2) = None"
    by (simp add: sample_block2_def sample_ids)
  ultimately show ?thesis
    using use [OF sample_fresh2] validate_block_orphan [of sample_start sample_block2 sample_env]
    by (simp add: sample_validate1 put_aside_def)
qed

text \<open>C3: What \<open>validate_block\<close> changes. The identifiers it returns are exactly the blocks that became
  valid, each once; no valid block is lost or replaced; the transactions of the new blocks, and no
  others, leave the mempool; the leader stays or moves to a strictly higher new block; the peers, the
  announcements and the configuration stay; and the invariant of the pools holds again.\<close>

theorem validate_block_adds:
  assumes "orders_ok env" "no_zero_id env" "pool_inv env {} s" "fresh_block env s b"
    and "validate_block env s b = Some (ids, s')"
  shows "distinct ids \<and>
    (\<forall>j. fmlookup (valid_blocks s') j \<noteq> None \<longleftrightarrow> fmlookup (valid_blocks s) j \<noteq> None \<or> j \<in> set ids) \<and>
    (\<forall>j x. fmlookup (valid_blocks s) j = Some x \<longrightarrow> fmlookup (valid_blocks s') j = Some x \<and> j \<notin> set ids) \<and>
    (\<forall>t. fmlookup (mempool s') t =
       (if mined_in env (valid_blocks s') ids t then None else fmlookup (mempool s) t)) \<and>
    leader_moves (valid_blocks s) (leading_block s) ids (valid_blocks s') (leading_block s') \<and>
    same_node s s' \<and> pool_inv env {} s'"
proof -
  have g: "grows env s ids s'" by (rule validate_block_grows [OF assms])
  note adds = grows_adds [OF g]
  have "distinct ids"
    "\<forall>j. fmlookup (valid_blocks s') j \<noteq> None \<longleftrightarrow> fmlookup (valid_blocks s) j \<noteq> None \<or> j \<in> set ids"
    "\<forall>j x. fmlookup (valid_blocks s) j = Some x \<longrightarrow> fmlookup (valid_blocks s') j = Some x \<and> j \<notin> set ids"
    using adds by (auto simp: adds_blocks_def)
  then show ?thesis
    using grows_mempool [OF g] grows_leader [OF g] grows_same [OF g] validate_block_pool_inv [OF assms]
    by blast
qed

theorem validate_block_adds_witness:
  "leading_block sample_s1 = block_id sample_env sample_block1 \<and> pool_inv sample_env {} sample_s1"
  using validate_block_adds [OF sample_orders_ok sample_no_zero_id
      hub_inv_pools [OF sample_start_inv] sample_fresh1 sample_validate1] by simp

text \<open>C9: In every reachable state the leading block is valid and no valid block is higher.\<close>

theorem leader_is_highest:
  assumes "env_ok env" "signatures_verify env"
    and "reachable (hub_start env cfg) (message_ok env) (hub_step env) s"
  shows "\<exists>l. fmlookup (valid_blocks s) (leading_block s) = Some l \<and>
    (\<forall>i b. fmlookup (valid_blocks s) i = Some b \<longrightarrow> height b \<le> height l)"
  using hub_inv_leader [OF reachable_hub_inv [OF assms(3,1,2)]] by (auto simp: leads_def)

theorem leader_is_highest_witness:
  "\<exists>l. fmlookup (valid_blocks sample_s1) (block_id sample_env sample_block1) = Some l \<and> 0 \<le> height l"
  using leader_is_highest [OF sample_env_ok sample_signatures sample_reachable] by auto

text \<open>C6: The rules of the currency hold along the whole chain: in every reachable state a valid block
  other than genesis has a valid parent, is one higher and not earlier, and its reward is the initial
  subsidy halved once per half period, plus the fees of its transactions, computed as numbers,
  without overflow; its difficulty is its parent's unless its height is a multiple of the period.\<close>

theorem rewards_follow_schedule:
  assumes "env_ok env" "signatures_verify env"
    and "reachable (hub_start env cfg) (message_ok env) (hub_step env) s"
    and b: "fmlookup (valid_blocks s) i = Some b" "i \<noteq> genesis_id s"
  shows "\<exists>p. fmlookup (valid_blocks s) (prev_id b) = Some p \<and> height b = Suc (height p) \<and>
    timestamp p \<le> timestamp b \<and>
    unat (amount (reward b)) =
      unat (initial_block_subsidy (hub_config s)) div
        2 ^ (height b div unat (block_subsidy_half_period (hub_config s))) +
      sum_list (map fee_value (transactions b)) \<and>
    (seqno b mod difficulty_adjustment_period (hub_config s) \<noteq> 0 \<longrightarrow> difficulty b = difficulty p)"
proof -
  have inv: "hub_inv env s" by (rule reachable_hub_inv [OF assms(3,1,2)])
  obtain p where p: "fmlookup (valid_blocks s) (prev_id b) = Some p" "height b = Suc (height p)"
      "timestamp p \<le> timestamp b"
    using blocks_inv_parent [OF hub_inv_blocks [OF inv] b] by blast
  have rules: "block_rules (hub_config s) p b"
    using inv b p(1) by (auto simp: hub_inv_def pool_inv_def chain_inv_def rules_inv_def)
  have "sound_block env b" using inv b(1) by (auto simp: hub_inv_def stored_def)
  then have "\<forall>t \<in> set (transactions b). amounts_ok (inputs t) (outputs t)"
    by (simp add: sound_block_def list_all_iff valid_transaction)
  then have fees: "total_fees (transactions b) = Some f \<longleftrightarrow>
      unat f = sum_list (map fee_value (transactions b))" for f by (rule total_fees_Some)
  from rules have "expected_reward (hub_config s) b = Some (amount (reward b))"
    by (simp add: block_rules_def)
  then obtain subsidy f where "block_subsidy (hub_config s) (seqno b) = Some subsidy"
      "total_fees (transactions b) = Some f" "unat (amount (reward b)) = unat f + unat subsidy"
    by (auto simp: expected_reward_def checked_add_Some)
  then show ?thesis using p rules fees by (simp add: block_subsidy_Some block_rules_def)
qed

theorem rewards_follow_schedule_witness:
  "unat (amount (reward sample_block1)) = 50 div 2 ^ 0 \<and> timestamp sample_genesis \<le> timestamp sample_block1"
  using rewards_follow_schedule [OF sample_env_ok sample_signatures sample_reachable,
      of "block_id sample_env sample_block1" sample_block1]
  by (simp add: sample_ids)

end
