(* ===== verification/Handler_Properties.thy ===== *)
theory Handler_Properties
  imports Sample_Node
begin

text \<open>
  The properties of the pools of blocks, of the cash set, of the walks over the block maps and of the
  arms of the handler.
\<close>

section \<open>Pools of blocks\<close>

text \<open>C10: No block is left waiting for a parent that has arrived: in every reachable state the parent
  of an unconfirmed block is not valid, and unless the block has been found invalid it is registered
  under that parent, so that validation will reach it when the parent arrives.\<close>

theorem waiting_blocks_registered:
  assumes "env_ok env" "signatures_verify env"
    and "reachable (hub_start env cfg) (message_ok env) (hub_step env) s"
    and "fmlookup (unconfirmed_blocks s) i = Some b"
  shows "fmlookup (valid_blocks s) (prev_id b) = None \<and> fmlookup (valid_blocks s) i = None \<and>
    (if i |\<in>| invalid_blocks s then prev_id b |\<in>| invalid_blocks s
     else \<exists>A. fmlookup (next_blocks s) (prev_id b) = Some A \<and> i |\<in>| A)"
proof -
  have inv: "hub_inv env s" by (rule reachable_hub_inv [OF assms(3,1,2)])
  then have p: "pools env {} (valid_blocks s) (unconfirmed_blocks s) (invalid_blocks s) (next_blocks s)"
    by (simp add: hub_inv_def pool_inv_def)
  show ?thesis
    using hub_inv_orphan [OF inv assms(4)] pools_unconf [OF p assms(4)] pools_waits [OF p assms(4)]
      pools_bad_parent [OF p assms(4)] by auto
qed

theorem waiting_blocks_registered_witness:
  "fmlookup (next_blocks sample_waiting) (block_id sample_env sample_block1) \<noteq> None"
  using waiting_blocks_registered [OF sample_env_ok sample_signatures sample_waiting_reachable,
      of "block_id sample_env sample_block2" sample_block2]
  by (auto split: if_splits)



section \<open>The cash set\<close>

text \<open>C25: Rewinding undoes replaying: if a cash set was carried from block \<open>a\<close> forward over the blocks
  \<open>later\<close> to block \<open>i\<close>, each spending cash that was there and creating cash that was not, then the
  rewinding loop of \<open>cash_set_at\<close> from \<open>i\<close> back to \<open>a\<close> ends and restores it exactly.\<close>

theorem rewind_restores:
  assumes "blocks_inv c m g" "fmlookup m i = Some b" "fmlookup m a = Some x"
    and "branch m i = branch m a @ later" "journal_ok block_fits apply_block later S"
  shows "rewind_cash m a (fold apply_block later S) i = Some (True, S)"
  using rewind_cash_undoes [OF assms(1,2,4,3,5)] .

theorem rewind_restores_witness:
  "rewind_cash (valid_blocks sample_s1) (block_id sample_env sample_genesis)
     (fold apply_block [sample_block1] {|reward sample_genesis|}) (block_id sample_env sample_block1) =
   Some (True, {|reward sample_genesis|})"
proof (rule rewind_restores [OF hub_inv_blocks [OF sample_s1_inv]])
  show "fmlookup (valid_blocks sample_s1) (block_id sample_env sample_block1) = Some sample_block1" by simp
  show "fmlookup (valid_blocks sample_s1) (block_id sample_env sample_genesis) = Some sample_genesis"
    by (simp add: sample_ids)
  show "branch (valid_blocks sample_s1) (block_id sample_env sample_block1) =
      branch (valid_blocks sample_s1) (block_id sample_env sample_genesis) @ [sample_block1]"
    using sample_branch1 branch_root [OF hub_inv_blocks [OF sample_s1_inv]] by (simp add: sample_ids)
  show "journal_ok block_fits apply_block [sample_block1] {|reward sample_genesis|}"
    by (simp add: block_fits_def sample_block1_def sample_genesis_def Cash_new_def)
qed

text \<open>C11: What \<open>cash_set_at\<close> computes at a valid block: the cash left unspent by the branch from
  genesis to that block, and besides it whatever the set held before that the branch never
  mentions. It always succeeds, and records genesis as the position of the set.\<close>

theorem cash_set_at_computes:
  assumes "hub_inv env s" "fmlookup (valid_blocks s) i = Some b"
  shows "\<exists>S. cash_set_at env s i = Some (Some \<lparr>cs_block_id = genesis_id s, cs_set = S\<rparr>, with_cash S s) \<and>
    fset S = fset (unspent (branch (valid_blocks s) i)) \<union>
      (fset (cs_set (cash_set s)) - touched (branch (valid_blocks s) i))"
proof -
  let ?S = "fold apply_block (branch (valid_blocks s) i) (cs_set (cash_set s))"
  have "cash_set (with_cash ?S s) = \<lparr>cs_block_id = genesis_id s, cs_set = ?S\<rparr>"
    using hub_inv_cash [OF assms(1)] by (intro CashSet.equality) simp_all
  then show ?thesis
    using cash_set_at_replays [OF hub_inv_blocks [OF assms(1)] assms(2) hub_inv_cash [OF assms(1)]]
      replay_members [of "branch (valid_blocks s) i" "cs_set (cash_set s)"]
    by (auto simp: Let_def)
qed

theorem cash_set_at_computes_witness:
  "\<exists>S. cash_set_at sample_env sample_s1 (block_id sample_env sample_block1) =
      Some (Some \<lparr>cs_block_id = genesis_id sample_s1, cs_set = S\<rparr>, with_cash S sample_s1) \<and>
    reward sample_block1 |\<in>| S"
  using cash_set_at_computes [OF sample_s1_inv, of "block_id sample_env sample_block1" sample_block1]
    sample_branch1 by (auto simp: unspent_def apply_block_def)

text \<open>On a single branch the cash set is exact: if the set holds only cash that the branch
  mentions, as it does after any computation at an ancestor, \<open>cash_set_at\<close> returns exactly the
  unspent cash of the branch.\<close>

theorem cash_set_at_exact:
  assumes "hub_inv env s" "fmlookup (valid_blocks s) i = Some b"
    and "fset (cs_set (cash_set s)) \<subseteq> touched (branch (valid_blocks s) i)"
  shows "cash_set_at env s i =
    Some (Some \<lparr>cs_block_id = genesis_id s, cs_set = unspent (branch (valid_blocks s) i)\<rparr>,
          with_cash (unspent (branch (valid_blocks s) i)) s)"
  using assms by (rule cash_set_exact)

theorem cash_set_at_exact_witness:
  "\<exists>s1. cash_set_at sample_env sample_s1 (block_id sample_env sample_block1) =
    Some (Some \<lparr>cs_block_id = genesis_id sample_s1, cs_set = {|reward sample_block1, reward sample_genesis|}\<rparr>, s1)"
  using cash_set_at_exact [OF sample_s1_inv, of "block_id sample_env sample_block1" sample_block1]
    sample_branch1 by (simp add: unspent_def touched_def apply_block_def)

text \<open>C39: Cash of one fork is offered on another: computing the cash set at block \<open>i\<close> and then at
  block \<open>j\<close> leaves in the second result all cash that is unspent at \<open>i\<close> and that the branch of \<open>j\<close>
  never mentions, though it does not exist on that branch.\<close>

theorem cash_set_leaks_between_forks:
  assumes "hub_inv env s" "fmlookup (valid_blocks s) i = Some b" "fmlookup (valid_blocks s) j = Some b'"
    and "cash_set_at env s i = Some (r, s1)"
    and "x |\<in>| unspent (branch (valid_blocks s) i)" "x \<notin> touched (branch (valid_blocks s) j)"
  shows "\<exists>cash s2. cash_set_at env s1 j = Some (Some cash, s2) \<and> x |\<in>| cs_set cash"
proof -
  obtain S where S: "s1 = with_cash S s" "x |\<in>| S"
    using cash_set_at_replays [OF hub_inv_blocks [OF assms(1)] assms(2) hub_inv_cash [OF assms(1)]]
      assms(4,5) replay_members [of "branch (valid_blocks s) i" "cs_set (cash_set s)"]
    by (auto simp: Let_def)
  have inv: "hub_inv env s1" using S assms(1) by simp
  then show ?thesis
    using cash_set_at_replays [OF hub_inv_blocks [OF inv], of j b'] hub_inv_cash [OF inv] S assms(3,6)
      replay_members [of "branch (valid_blocks s) j" S]
    by (auto simp: Let_def with_cash_def)
qed

theorem cash_set_leaks_between_forks_witness:
  "\<exists>r s1 cash s2. cash_set_at sample_env sample_s1 (block_id sample_env sample_block1) = Some (r, s1) \<and>
     cash_set_at sample_env s1 (block_id sample_env sample_genesis) = Some (Some cash, s2) \<and>
     reward sample_block1 |\<in>| cs_set cash"
proof -
  obtain r s1 where r: "cash_set_at sample_env sample_s1 (block_id sample_env sample_block1) = Some (r, s1)"
    using cash_set_at_replays [OF hub_inv_blocks [OF sample_s1_inv], of "block_id sample_env sample_block1"]
    by (auto simp: Let_def)
  have root: "branch (valid_blocks sample_s1) (block_id sample_env sample_genesis) = [sample_genesis]"
    using branch_root [OF hub_inv_blocks [OF sample_s1_inv]] by (simp add: sample_ids)
  have other: "reward sample_block1 \<noteq> reward sample_genesis"
    by (simp add: sample_block1_def sample_genesis_def Cash_new_def)
  have "fmlookup (valid_blocks sample_s1) (block_id sample_env sample_genesis) = Some sample_genesis"
    "reward sample_block1 \<notin> touched (branch (valid_blocks sample_s1) (block_id sample_env sample_genesis))"
    unfolding root using other by (simp_all add: sample_ids touched_def)
  from cash_set_leaks_between_forks [OF sample_s1_inv _ this(1) r _ this(2), of sample_block1]
  obtain cash s2 where "cash_set_at sample_env s1 (block_id sample_env sample_genesis) = Some (Some cash, s2)"
      "reward sample_block1 |\<in>| cs_set cash"
    using sample_branch1 by (auto simp: unspent_def apply_block_def)
  with r show ?thesis by blast
qed

section \<open>Walks\<close>

text \<open>\<open>ancestors_id\<close> at a valid block ends and lists the identifiers of its branch, from the block
  itself down to genesis.\<close>

theorem ancestors_id_lists_branch:
  assumes "hub_inv env s" "fmlookup (valid_blocks s) i = Some b"
  shows "\<exists>ids. ancestors_id env (valid_blocks s) i = Some ids \<and> hd ids = i \<and> last ids = genesis_id s \<and>
    length ids = Suc (height b) \<and> linked_chain env (genesis_id s) i (branch (valid_blocks s) i) \<and>
    ids = rev (map (block_id env) (branch (valid_blocks s) i))"
proof -
  note inv = hub_inv_blocks [OF assms(1)]
  have l: "linked_chain env (genesis_id s) i (branch (valid_blocks s) i)"
    by (rule branch_linked [OF inv assms(2)])
  then show ?thesis
    using ancestors_id_branch [OF inv assms(2)] branch_length [OF inv assms(2)]
    by (auto simp: linked_chain_def hd_rev last_rev hd_map last_map)
qed

theorem ancestors_id_lists_branch_witness:
  "ancestors_id sample_env (valid_blocks sample_s1) (block_id sample_env sample_block1) =
     Some [block_id sample_env sample_block1, block_id sample_env sample_genesis]"
  using ancestors_id_lists_branch [OF sample_s1_inv, of "block_id sample_env sample_block1" sample_block1]
    sample_branch1 by simp

text \<open>The block from which the difficulty is adjusted: for a height up to one above the leader,
  \<open>prev_difficulty_adjusted_block\<close> returns the block of the leading branch at the last multiple of
  the adjustment period below that height (one full period below a multiple).\<close>

theorem prev_difficulty_adjusted_block_height:
  assumes "hub_inv env s" "fmlookup (valid_blocks s) (leading_block s) = Some l" "seqno l \<noteq> - 1"
    and "difficulty_adjustment_period (hub_config s) \<noteq> 0" "0 < unat n" "unat n \<le> Suc (height l)"
  shows "\<exists>b. prev_difficulty_adjusted_block s n = Some b \<and>
    b \<in> set (branch (valid_blocks s) (leading_block s)) \<and>
    height b < unat n \<and> unat n \<le> height b + unat (difficulty_adjustment_period (hub_config s)) \<and>
    height b mod unat (difficulty_adjustment_period (hub_config s)) = 0"
proof -
  let ?P = "unat (difficulty_adjustment_period (hub_config s))"
  let ?h = "adjustment_height (hub_config s) n"
  note inv = hub_inv_blocks [OF assms(1)]
  have P: "0 < ?P" using assms(4) by (simp add: unat_gt_0)
  have h: "?h < unat n" "unat n \<le> ?h + ?P" "?h mod ?P = 0"
  proof -
    have "unat n mod ?P \<le> unat n" by simp
    with P assms(5) show "?h < unat n" "unat n \<le> ?h + ?P"
      using mod_less_divisor [OF P, of "unat n"] by (auto simp: adjustment_height_def Let_def)
    show "?h mod ?P = 0"
      by (auto simp: adjustment_height_def Let_def minus_mod_eq_mult_div mod_eq_0_iff_dvd)
  qed
  then have "?h \<le> height l" using assms(6) by simp
  then have "height (branch (valid_blocks s) (leading_block s) ! ?h) = ?h"
    "branch (valid_blocks s) (leading_block s) ! ?h \<in> set (branch (valid_blocks s) (leading_block s))"
    using branch_nth_height [OF inv assms(2)] branch_length [OF inv assms(2)] by auto
  then show ?thesis
    using prev_difficulty_adjusted_block_branch [OF inv assms(2-6)] h by simp
qed

theorem prev_difficulty_adjusted_block_height_witness:
  "\<exists>b. prev_difficulty_adjusted_block sample_s1 2 = Some b \<and> height b = 0"
  using prev_difficulty_adjusted_block_height [OF sample_s1_inv, of sample_block1 2] sample_branch1 by auto

text \<open>C32: \<open>block_root\<close> ends whenever the unconfirmed blocks have no cycle, and never returns anything
  but genesis or its own argument; on a block that names itself as its parent it does not end.\<close>

theorem block_root_results:
  "(wf (parent_rel (unconfirmed_blocks s)) \<longrightarrow> block_root s i \<noteq> None) \<and>
   (\<forall>r. block_root s i = Some r \<longrightarrow> r = genesis_id s \<or> r = i) \<and>
   (\<forall>b. fmlookup (unconfirmed_blocks s) i = Some b \<longrightarrow> prev_id b = i \<longrightarrow> i \<noteq> genesis_id s \<longrightarrow>
      block_root s i = None)"
proof (intro conjI allI impI)
  show "block_root s i \<noteq> None" if "wf (parent_rel (unconfirmed_blocks s))"
    using block_root_loop_returns [OF that, of "genesis_id s" i i] by (auto simp: block_root_def)
  show "r = genesis_id s \<or> r = i" if "block_root s i = Some r" for r
    using that unfolding block_root_def by (rule block_root_loop_result)
  show "block_root s i = None"
    if "fmlookup (unconfirmed_blocks s) i = Some b" "prev_id b = i" "i \<noteq> genesis_id s" for b
    using that unfolding block_root_def by (rule block_root_loop_self_parent)
qed

theorem block_root_results_witness:
  "block_root sample_waiting (block_id sample_env sample_block1) = Some (block_id sample_env sample_block1)
    \<or> block_root sample_waiting (block_id sample_env sample_block1) = Some (genesis_id sample_waiting)"
  using block_root_results [of sample_waiting "block_id sample_env sample_block1"] sample_waiting_acyclic by auto

section \<open>The arms of the handler\<close>

text \<open>A block whose parent is unknown: when it is fresh, timely and the unconfirmed blocks stay
  acyclic, the handler does not trip its debug assertion. It asks the peer it came from for exactly
  the parent of this block, and does nothing more for a block of its own.\<close>

theorem missing_parent_is_requested:
  assumes "env_ok env" "hub_inv env s" "fresh_block env s b" "sound_block env b" "timestamp b \<le> now"
    and "fmlookup (valid_blocks s) (prev_id b) = None"
    and "wf (parent_rel (unconfirmed_blocks (put_aside env s b)))"
  shows "handle env now s (NewBlock node b) =
    (case node of
       Some n \<Rightarrow> no_reply (send_to_peer env (put_aside env s b) (GetBlockRequest (prev_id b)) n)
     | None \<Rightarrow> Some (Inr None, put_aside env s b))"
  using new_block_orphan [OF assms] by (simp split: option.split)

theorem missing_parent_is_requested_witness:
  "handle sample_env 100 sample_start (NewBlock (Some 5) sample_block2) =
    no_reply (send_to_peer sample_env sample_waiting (GetBlockRequest (block_id sample_env sample_block1)) 5)"
  using missing_parent_is_requested [OF sample_env_ok sample_start_inv sample_fresh2 _ _
      sample_block2_missing sample_waiting_acyclic [unfolded sample_waiting_def], of 100 "Some 5"]
  by (simp add: sample_waiting_def)

text \<open>The reply to \<open>QueryTransactionDepth\<close>: nothing if no block of the leading branch has the
  transaction, and otherwise the number of blocks of that branch above the first block that has it.\<close>

theorem transaction_depth_reply:
  assumes "hub_inv env s" "fmlookup (valid_blocks s) (leading_block s) = Some l" "seqno l \<noteq> - 1"
  shows "\<exists>d. handle env now s (QueryTransactionDepth t True) = Some (Inr (Some (DepthReply d)), s) \<and>
    (case d of
       None \<Rightarrow> \<forall>b \<in> set (branch (valid_blocks s) (leading_block s)). \<not> has_txn env t b
     | Some n \<Rightarrow> \<exists>b \<in> set (branch (valid_blocks s) (leading_block s)).
         has_txn env t b \<and> height b + unat n = height l \<and>
         (\<forall>x \<in> set (branch (valid_blocks s) (leading_block s)). has_txn env t x \<longrightarrow> height b \<le> height x))"
  using query_depth_spec [OF assms, of t] by (auto simp: send_reply_def)

theorem transaction_depth_reply_witness:
  "\<exists>d. handle sample_env 0 sample_s1 (QueryTransactionDepth (Sha256Hash []) True) =
    Some (Inr (Some (DepthReply d)), sample_s1)"
  using transaction_depth_reply [OF sample_s1_inv, of sample_block1 0 "Sha256Hash []"] by auto

text \<open>The reply to \<open>QueryMemPool\<close> never overflows: it lists every pooled transaction once, with
  the difference between what its inputs and its outputs are worth.\<close>

theorem mempool_fees_reply:
  assumes "orders_ok env" "hub_inv env s"
  shows "\<exists>amounts. handle env now s (QueryMemPool True) = Some (Inr (Some (MemPoolReply amounts)), s) \<and>
    distinct (map fst amounts) \<and>
    (\<forall>t f. (t, f) \<in> set amounts \<longleftrightarrow>
       (\<exists>x. fmlookup (mempool s) t = Some x \<and> cash_sum (inputs x) = cash_sum (outputs x) + unat f))"
  using query_mempool_spec [OF assms] by (auto simp: send_reply_def)

theorem mempool_fees_reply_witness:
  "\<exists>amounts. handle sample_env 0 sample_pooled (QueryMemPool True) =
      Some (Inr (Some (MemPoolReply amounts)), sample_pooled) \<and>
    (txn_id sample_env sample_txn, 5) \<in> set amounts"
proof -
  have "cash_sum (inputs sample_txn) = cash_sum (outputs sample_txn) + unat (5 :: u64)"
    by (simp add: sample_txn_def Let_def inputs_def outputs_def Cash_new_def)
  then show ?thesis
    using mempool_fees_reply [OF sample_orders_ok sample_pooled_inv, of 0] by (auto simp del: handle.simps)
qed

text \<open>The reply to \<open>QueryLeadingCashSet\<close> always comes: the unspent cash of the leading branch,
  with whatever earlier computations left in the set that this branch never mentions.\<close>

theorem leading_cash_reply:
  assumes "hub_inv env s"
  shows "\<exists>S. handle env now s (QueryLeadingCashSet True) = Some (Inr (Some (CashSetReply S)), with_cash S s) \<and>
    fset S = fset (unspent (branch (valid_blocks s) (leading_block s))) \<union>
      (fset (cs_set (cash_set s)) - touched (branch (valid_blocks s) (leading_block s)))"
  using query_leading_cash_spec [OF assms] by (auto simp: send_reply_def)

theorem leading_cash_reply_witness:
  "\<exists>S. handle sample_env 0 sample_s1 (QueryLeadingCashSet True) =
      Some (Inr (Some (CashSetReply S)), with_cash S sample_s1) \<and> reward sample_block1 |\<in>| S"
  using leading_cash_reply [OF sample_s1_inv, of 0] sample_branch1
  by (auto simp: unspent_def apply_block_def simp del: handle.simps)

text \<open>Two nodes that connect to each other at the same time keep the same connection: whatever
  the order in which a hub hears of the connection it started and of the one it accepted, it keeps
  the one started by the node with the smaller identifier. This needs a free place for both: at most
  one other peer.\<close>

theorem connections_agree:
  assumes "local_node_id s \<noteq> local_node_id s'"
    and "fcard (fmdom (peers s)) \<le> 1" "local_node_id s' |\<notin>| fmdom (peers s)"
    and "fcard (fmdom (peers s')) \<le> 1" "local_node_id s |\<notin>| fmdom (peers s')"
    and "{c1, c2} = {(mine, True), (theirs, False)}" "{d1, d2} = {(theirs, True), (mine, False)}"
  shows "two_connections s (local_node_id s') c1 c2 =
      Some (if local_node_id s < local_node_id s' then mine else theirs) \<and>
    two_connections s' (local_node_id s) d1 d2 =
      Some (if local_node_id s < local_node_id s' then mine else theirs)"
proof -
  have "(c1, c2) = ((mine, True), (theirs, False)) \<or> (c1, c2) = ((theirs, False), (mine, True))"
    and "(d1, d2) = ((theirs, True), (mine, False)) \<or> (d1, d2) = ((mine, False), (theirs, True))"
    using assms(6,7) by (auto simp: doubleton_eq_iff)
  then show ?thesis
    using two_connections_kept [OF assms(2,3)] two_connections_kept [OF assms(4,5)] assms(1)
    by (auto simp: not_less_iff_gr_or_eq)
qed

theorem connections_agree_witness:
  "two_connections sample_start 3 ([1], True) ([2], False) = Some [1] \<and>
   two_connections (sample_start\<lparr>local_node_id := 3\<rparr>) 0 ([1], False) ([2], True) = Some [1]"
  using connections_agree [of sample_start "sample_start\<lparr>local_node_id := 3\<rparr>" "([1], True)" "([2], False)"
      "[1]" "[2]" "([1], False)" "([2], True)"]
  by (simp add: fcard.rep_eq doubleton_eq_iff)

text \<open>With two other peers this fails: the connection reported first is kept and the second is
  refused, so two nodes that hear of their two connections in different orders keep different ones.\<close>

theorem connections_disagree_when_full:
  assumes "fcard (fmdom (peers s)) = 2" "local_node_id s' |\<notin>| fmdom (peers s)"
    and "fcard (fmdom (peers s')) = 2" "local_node_id s |\<notin>| fmdom (peers s')" "mine \<noteq> theirs"
  shows "two_connections s (local_node_id s') (mine, True) (theirs, False) \<noteq>
    two_connections s' (local_node_id s) (theirs, True) (mine, False)"
  using two_connections_full [OF assms(1,2)] two_connections_full [OF assms(3,4)] assms(5) by simp

theorem connections_disagree_when_full_witness:
  "two_connections (sample_with_peers 0) 1 ([1], True) ([2], False) \<noteq>
   two_connections (sample_with_peers 1) 0 ([2], True) ([1], False)"
  using connections_disagree_when_full [of "sample_with_peers 0" "sample_with_peers 1" "[1]" "[2]"]
  by (simp add: sample_with_peers_def fcard_finsert_if)

text \<open>A broadcast on working streams succeeds and sends each peer except the one named a frame
  with the message: four bytes of length, big-endian, and the encoding, then a flush.\<close>

theorem broadcast_reaches_peers:
  assumes "orders_ok env" "writes_ok env" "enc_message env (Broadcast msg) = Some bs"
  shows "\<exists>m'. broadcast env s node msg = (Inr (), s\<lparr>peers := m'\<rparr>) \<and>
    (\<forall>j. fmlookup m' j = (if j = node then fmlookup (peers s) j
       else map_option (\<lambda>st. fst (flush_stream env (fst (write_all env
         (fst (write_all env st (to_be_bytes 4 (of_nat (length bs) :: u32)))) bs)))) (fmlookup (peers s) j)))"
  using broadcast_ok [OF assms, of s node]
  by (simp only: write_frame_ok [OF assms(2)] fst_conv)

theorem broadcast_reaches_peers_witness:
  "\<exists>m'. broadcast sample_env (sample_with_peers 8) 8 (BroadcastTransaction (Sha256Hash [4, 2])) =
      (Inr (), (sample_with_peers 8)\<lparr>peers := m'\<rparr>) \<and>
    fmlookup m' 7 = Some [0, 0, 0, 4, 0, 0, 4, 2] \<and> fmlookup m' 8 = Some []"
proof -
  have "writes_ok sample_env" by (simp add: writes_ok_def)
  moreover have "enc_message sample_env (Broadcast (BroadcastTransaction (Sha256Hash [4, 2]))) = Some [0, 0, 4, 2]"
    by (simp add: sample_message_bytes_def)
  moreover have "to_be_bytes 4 (4 :: u32) = [0, 0, 0, 4]" by code_simp
  ultimately show ?thesis
    using broadcast_reaches_peers [OF sample_orders_ok, of "BroadcastTransaction (Sha256Hash [4, 2])"
        "[0, 0, 4, 2]" "sample_with_peers 8" 8]
    by (auto simp: sample_with_peers_def)
qed

text \<open>A new transaction is pooled under its identifier, announced to every peer, and no longer
  counted as announced; one that is pooled already changes nothing and is not announced again.\<close>

theorem new_transaction_pooled:
  assumes "orders_ok env" "writes_ok env"
    and "enc_message env (Broadcast (BroadcastTransaction (txn_id env x))) = Some bs"
  shows "\<exists>m'. handle env now s (NewTransaction x) = Some (Inr None,
      if txn_id env x |\<in>| fmdom (mempool s) then s
      else s\<lparr>peers := m', mempool := fmupd (txn_id env x) x (mempool s),
             annoucements := fmdrop (txn_id env x) (annoucements s)\<rparr>) \<and>
    (\<forall>j. fmlookup m' j = (if j = local_node_id s then fmlookup (peers s) j
       else map_option (\<lambda>st. fst (write_frame env st bs)) (fmlookup (peers s) j)))"
proof (cases "txn_id env x |\<in>| fmdom (mempool s)")
  case False
  then show ?thesis using new_transaction_new [OF assms] by simp
next
  case True
  obtain m' where "\<forall>j. fmlookup m' j = (if j = local_node_id s then fmlookup (peers s) j
       else map_option (\<lambda>st. fst (write_frame env st bs)) (fmlookup (peers s) j))"
    using broadcast_ok [OF assms, of s "local_node_id s"] by blast
  moreover have "handle env now s (NewTransaction x) = Some (Inr None, s)"
    using new_transaction_known [OF True] by simp
  ultimately show ?thesis using True by (intro exI [of _ m']) simp
qed

theorem new_transaction_pooled_witness:
  "\<exists>m' a. handle sample_env 0 sample_s1 (NewTransaction sample_txn) = Some (Inr None,
     sample_s1\<lparr>peers := m', mempool := fmupd (txn_id sample_env sample_txn) sample_txn fmempty,
               annoucements := a\<rparr>)"
proof -
  have "writes_ok sample_env" by (simp add: writes_ok_def)
  moreover have "enc_message sample_env (Broadcast (BroadcastTransaction (txn_id sample_env sample_txn))) =
      Some (0 # 0 # hash_bytes (txn_id sample_env sample_txn))"
    by (simp add: sample_message_bytes_def)
  ultimately show ?thesis
    using new_transaction_pooled [OF sample_orders_ok, of sample_txn _ 0 sample_s1] by fastforce
qed

end
