(* ===== verification/Ledger_Spec.thy ===== *)
theory Ledger_Spec
  imports Hub_Invariant
begin

text \<open>
  What a node promises, without its mailbox, streams, waiting blocks and cached cash: a ledger that
  is a tree of blocks with a tip and a pool of transactions. It changes in two ways only: a valid
  transaction enters the pool, or a block that follows the rules of the currency is put on a block
  of the tree, takes its transactions out of the pool, and becomes the tip if it is higher.
  The hub (\<open>src/src/peerhub.rs\<close>) refines it: every message it handles is a run of such steps.
\<close>

section \<open>The specification\<close>

record ledger =
  led_blocks :: BlockMap
  led_tip :: BlockId
  led_pool :: "(TransactionId, Transaction) fmap"

definition pool_transaction :: "('sk, 'z) codec_scheme \<Rightarrow> Transaction \<Rightarrow> ledger \<Rightarrow> ledger" where
  "pool_transaction c t L = L\<lparr>led_pool := fmupd (txn_id c t) t (led_pool L)\<rparr>"

definition put_block :: "('sk, 'z) codec_scheme \<Rightarrow> Block \<Rightarrow> Block \<Rightarrow> ledger \<Rightarrow> ledger" where
  "put_block c tip b L =
     \<lparr>led_blocks = fmupd (block_id c b) b (led_blocks L),
      led_tip = (if height tip < height b then block_id c b else led_tip L),
      led_pool = fmfilter (\<lambda>t. \<not> list_ex (\<lambda>x. txn_id c x = t) (transactions b)) (led_pool L)\<rparr>"

inductive ledger_step :: "('sk, 'z) codec_scheme \<Rightarrow> Config \<Rightarrow> ledger \<Rightarrow> ledger \<Rightarrow> bool" for c cfg where
  pool: "\<lbrakk>transaction_valid c t; fmlookup (led_pool L) (txn_id c t) = None\<rbrakk> \<Longrightarrow>
    ledger_step c cfg L (pool_transaction c t L)"
| extend: "\<lbrakk>sound_block c b; fmlookup (led_blocks L) (block_id c b) = None;
    fmlookup (led_blocks L) (prev_id b) = Some p; height b = Suc (height p);
    timestamp p \<le> timestamp b; block_rules cfg p b; fmlookup (led_blocks L) (led_tip L) = Some tip\<rbrakk> \<Longrightarrow>
    ledger_step c cfg L (put_block c tip b L)"

abbreviation ledger_run :: "('sk, 'z) codec_scheme \<Rightarrow> Config \<Rightarrow> ledger \<Rightarrow> ledger \<Rightarrow> bool" where
  "ledger_run c cfg \<equiv> (ledger_step c cfg)\<^sup>*\<^sup>*"

inductive_cases ledger_stepE: "ledger_step c cfg L L'"

text \<open>Blocks are only added: the ledger never forgets or replaces one.\<close>

lemma ledger_step_keeps:
  "ledger_step c cfg L L' \<Longrightarrow> fmlookup (led_blocks L) i = Some b \<Longrightarrow> fmlookup (led_blocks L') i = Some b"
  by (auto simp: pool_transaction_def put_block_def elim!: ledger_stepE)

lemma ledger_run_keeps:
  "ledger_run c cfg L L' \<Longrightarrow> fmlookup (led_blocks L) i = Some b \<Longrightarrow> fmlookup (led_blocks L') i = Some b"
  by (induction rule: rtranclp_induct) (auto dest: ledger_step_keeps)

section \<open>The ledger of a hub\<close>

definition ledger_of :: "('n, 'st) hub \<Rightarrow> ledger" where
  "ledger_of s = \<lparr>led_blocks = valid_blocks s, led_tip = leading_block s, led_pool = mempool s\<rparr>"

lemma ledger_of_sel [simp]:
  "led_blocks (ledger_of s) = valid_blocks s" "led_tip (ledger_of s) = leading_block s"
  "led_pool (ledger_of s) = mempool s"
  by (simp_all add: ledger_of_def)

lemma same_ledger [simp]:
  "ledger_of (s\<lparr>peers := m\<rparr>) = ledger_of s" "ledger_of (s\<lparr>annoucements := a\<rparr>) = ledger_of s"
  "ledger_of (with_cash S s) = ledger_of s" "ledger_of (reject env s i) = ledger_of s"
  "ledger_of (take_unconfirmed i s) = ledger_of s" "ledger_of (put_aside env s b) = ledger_of s"
  by (simp_all add: ledger_of_def put_aside_def)

lemma streams_ledger: "same_but_streams s s' \<Longrightarrow> ledger_of s' = ledger_of s"
  unfolding same_but_streams_def by auto

section \<open>Validation refines the ledger\<close>

lemma accepted_ledger_step:
  assumes acc: "accepts env s b s1" and e: "enter_block env s1 b = Some (w, s2)"
    and new: "fmlookup (valid_blocks s) (block_id env b) = None"
    and lead: "leads (valid_blocks s) (leading_block s)" and b: "sound_block env b"
  shows "ledger_step env (hub_config s) (ledger_of s) (ledger_of s2)"
proof -
  obtain p where p: "fmlookup (valid_blocks s) (prev_id b) = Some p" using acc by (auto simp: accepts_def)
  note rules = accepts_rules [OF acc p]
  note frame = accepts_frame [OF acc]
  have "leads (valid_blocks s1) (leading_block s1)" "fmlookup (valid_blocks s1) (block_id env b) = None"
    using lead new frame by simp_all
  from enter_block_leads [OF this] obtain l where
    l: "fmlookup (valid_blocks s1) (leading_block s1) = Some l"
    and e': "enter_block env s1 b = Some (next_children (id_order env) (next_blocks s1) (block_id env b),
        s1\<lparr>mempool := fmfilter (\<lambda>t. \<not> list_ex (\<lambda>x. txn_id env x = t) (transactions b)) (mempool s1),
          valid_blocks := fmupd (block_id env b) b (valid_blocks s1),
          leading_block := (if height l < height b then block_id env b else leading_block s1),
          next_blocks := fmdrop (block_id env b) (next_blocks s1)\<rparr>)"
    by blast
  from e e' have "ledger_of s2 = put_block env l b (ledger_of s1)"
    unfolding put_block_def ledger_of_sel by (auto simp: ledger_of_def)
  moreover have "ledger_of s1 = ledger_of s" using frame by (simp add: ledger_of_def)
  ultimately have s2: "ledger_of s2 = put_block env l b (ledger_of s)" by simp
  show ?thesis
    unfolding s2 using ledger_step.extend [of env b "ledger_of s" p] rules p new b l frame by simp
qed

lemma vstep_ledger:
  assumes inv: "pool_inv env (fst c) (snd c)" and sound: "\<forall>b \<in> stored (snd c). sound_block env b"
    and step: "vstep env c ids c'"
  shows "ledger_run env (hub_config (snd c)) (ledger_of (snd c)) (ledger_of (snd c'))"
  using step
proof (cases rule: vstep.cases)
  case (refuse i P s b s1)
  obtain S where "s1 = reject env (with_cash S (take_unconfirmed i s)) (block_id env b)"
    using check_block_cases [OF refuse(6)] by auto
  then have "ledger_of s1 = ledger_of s" by (simp only: same_ledger)
  with refuse show ?thesis by simp
next
  case (accept i P s b s1 w s2)
  obtain p where "pool_inv env P (take_unconfirmed i s)" "fresh_block env (take_unconfirmed i s) b"
    using take_pool_inv [of env i P s] inv accept by auto
  then have "fmlookup (valid_blocks (take_unconfirmed i s)) (block_id env b) = None"
    "leads (valid_blocks (take_unconfirmed i s)) (leading_block (take_unconfirmed i s))"
    using chain_inv_leader [OF pool_inv_chain, of env P "take_unconfirmed i s"] by (simp_all add: fresh_block_iff)
  moreover have "sound_block env b" using sound accept unconfirmed_stored [OF accept(5)] by simp
  ultimately have "ledger_step env (hub_config s) (ledger_of s) (ledger_of s2)"
    using accepted_ledger_step [OF accept(6,7)] by (simp only: same_ledger take_unconfirmed_sel)
  with accept show ?thesis by simp
qed

lemma vsteps_ledger:
  assumes "orders_ok env" "no_zero_id env"
  shows "vsteps env c ids c' \<Longrightarrow> pool_inv env (fst c) (snd c) \<Longrightarrow>
    \<forall>b \<in> stored (snd c). sound_block env b \<Longrightarrow>
    ledger_run env (hub_config (snd c)) (ledger_of (snd c)) (ledger_of (snd c'))"
proof (induction rule: vsteps.induct)
  case (stop c)
  then show ?case by simp
next
  case (go c ids c1 ids' c2)
  have "pool_inv env (fst c1) (snd c1)" using vstep_pool_inv [OF assms go.prems(1) go.hyps(1)] .
  moreover have "hub_config (snd c1) = hub_config (snd c)"
    using grows_same [OF vstep_grows [OF go.prems(1) go.hyps(1)]] by (simp add: same_node_def)
  moreover have "stored (snd c1) \<subseteq> stored (snd c)" by (rule vstep_stored [OF go.hyps(1)])
  ultimately show ?case
    using vstep_ledger [OF go.prems go.hyps(1)] go.IH go.prems(2)
    by (metis (no_types, lifting) rtranclp_trans subsetD)
qed

lemma validate_block_ledger:
  assumes env: "env_ok env" and inv: "hub_inv env s" and b: "fresh_block env s b" "sound_block env b"
    and call: "validate_block env s b = Some (ids, s')"
  shows "ledger_run env (hub_config s) (ledger_of s) (ledger_of s')"
  using env_ok_dest [OF env] hub_inv_pools [OF inv] b(1) call
proof (cases rule: validate_block_outcome)
  case (accepted s1 w s2 more)
  have lead: "leads (valid_blocks s) (leading_block s)"
    using chain_inv_leader [OF pool_inv_chain [OF hub_inv_pools [OF inv]]] .
  have new: "fmlookup (valid_blocks s) (block_id env b) = None" using b(1) by (simp add: fresh_block_iff)
  have "stored s1 = stored s" using accepts_with_cash [OF accepted(1)] by auto
  with enter_block_stored [OF accepted(2)] inv b(2) have "\<forall>x \<in> stored s2. sound_block env x"
    by (auto simp: hub_inv_def)
  moreover have "hub_config s2 = hub_config s"
    using grows_same [OF accepted_grows [OF accepted(1,2) new]] by (simp add: same_node_def)
  ultimately show ?thesis
    using accepted_ledger_step [OF accepted(1,2) new lead b(2)] vsteps_ledger [OF env_ok_dest [OF env] accepted(5)]
      accepted(4) by auto
qed simp_all

end
