(* ===== verification/Ledger_Refinement.thy ===== *)
theory Ledger_Refinement
  imports Ledger_Spec
begin

text \<open>
  Every message the hub handles is a run of the ledger specification, and leaves the identity of the
  node alone. The hub is an interpretation of \<open>refining_actor\<close>.
\<close>

section \<open>What no message changes\<close>

definition same_identity :: "('n, 'st) hub \<Rightarrow> ('n, 'st) hub \<Rightarrow> bool" where
  "same_identity s s' \<longleftrightarrow> hub_config s' = hub_config s \<and> genesis_id s' = genesis_id s \<and>
     local_node_id s' = local_node_id s \<and> fmdom (peers s) |\<subseteq>| fmdom (peers s')"

lemma same_identity_trans: "same_identity s s1 \<Longrightarrow> same_identity s1 s2 \<Longrightarrow> same_identity s s2"
  by (auto simp: same_identity_def)

lemma streams_identity: "same_but_streams s s' \<Longrightarrow> same_identity s s'"
  by (auto simp: same_but_streams_def same_identity_def)

lemma same_node_identity: "same_node s s' \<Longrightarrow> same_identity s s'"
  by (auto simp: same_node_def same_identity_def)

text \<open>The two facts that every arm keeps, together.\<close>

definition keeps :: "('sk, 'n, 'st) hub_env \<Rightarrow> ('n, 'st) hub \<Rightarrow> ('n, 'st) hub \<Rightarrow> bool" where
  "keeps env s s' \<longleftrightarrow> same_identity s s' \<and> ledger_run env (hub_config s) (ledger_of s) (ledger_of s')"

lemma keeps_streams: "same_but_streams s s' \<Longrightarrow> keeps env s s'"
  by (simp add: keeps_def streams_identity streams_ledger)

lemma keeps_trans: "keeps env s s1 \<Longrightarrow> keeps env s1 s2 \<Longrightarrow> keeps env s s2"
  unfolding keeps_def using same_identity_trans rtranclp_trans
  by (metis same_identity_def)

lemma keeps_refl [simp]: "keeps env s s"
  by (simp add: keeps_streams same_but_streams_refl)

lemma keeps_annoucements [simp]: "keeps env s (s\<lparr>annoucements := a\<rparr>)"
  by (simp add: keeps_def same_identity_def)

lemma keeps_asked: "same_but_streams (s\<lparr>annoucements := a\<rparr>) s' \<Longrightarrow> keeps env s s'"
  using keeps_trans [OF keeps_annoucements keeps_streams] .

lemma keeps_reject [simp]: "keeps env s (reject env s i)"
  by (simp add: keeps_def same_identity_def)

lemma keeps_with_cash [simp]: "keeps env s (with_cash S s)"
  by (simp add: keeps_def same_identity_def)

lemma new_peer_keeps: "new_peer s i st conn port = Some (r, s') \<Longrightarrow> keeps env s s'"
  by (auto simp: new_peer_def keeps_def same_identity_def ledger_of_def split: if_splits)

lemma new_transaction_keeps:
  assumes "transaction_valid env x" "new_transaction env s x = Some (r, s')"
  shows "keeps env s s'"
proof (cases "txn_id env x |\<in>| fmdom (mempool s)")
  case True
  with assms show ?thesis by (simp add: new_transaction_def Let_def)
next
  case False
  let ?s = "s\<lparr>mempool := fmupd (txn_id env x) x (mempool s)\<rparr>"
  have "fmlookup (mempool s) (txn_id env x) = None" using False by (simp add: fmdom_notD)
  then have "ledger_step env (hub_config s) (ledger_of s) (pool_transaction env x (ledger_of s))"
    by (intro ledger_step.pool [OF assms(1)]) simp
  moreover have "pool_transaction env x (ledger_of s) = ledger_of ?s"
    by (simp add: pool_transaction_def ledger_of_def)
  ultimately have "keeps env s ?s" by (auto simp: keeps_def same_identity_def)
  moreover obtain q s1 where b: "broadcast env ?s (local_node_id s) (BroadcastTransaction (txn_id env x)) = (q, s1)"
    by (cases "broadcast env ?s (local_node_id s) (BroadcastTransaction (txn_id env x))")
  moreover have "keeps env ?s s1" by (rule keeps_streams [OF broadcast_frame [OF b]])
  ultimately show ?thesis
    using assms(2) False keeps_trans [of env s ?s s1] keeps_trans [OF _ keeps_annoucements, of env s s1]
    by (auto simp: new_transaction_def Let_def split: sum.splits)
qed

lemma new_block_keeps:
  assumes "env_ok env" "hub_inv env s" "sound_block env b" "new_block env now s node b = Some (r, s')"
  shows "keeps env s s'"
proof -
  consider "s' = s" | "s' = reject env s (block_id env b)"
    | (valid) ids s1 where "fresh_block env s b" "validate_block env s b = Some (ids, s1)"
      "after_validation env s1 node (block_id env b) (prev_id b) ids = Some (r, s')"
    using assms(4) by (auto simp: new_block_def fresh_block_def split: if_splits)
  then show ?thesis
  proof cases
    case valid
    have "same_node s s1"
      using grows_same [OF validate_block_grows [OF env_ok_dest [OF assms(1)] hub_inv_pools [OF assms(2)] valid(1,2)]] .
    then have "keeps env s s1"
      using validate_block_ledger [OF assms(1,2) valid(1) assms(3) valid(2)]
      by (simp add: keeps_def same_node_identity)
    then show ?thesis
      using keeps_trans keeps_streams [OF after_validation_streams [OF valid(3)]] by blast
  qed simp_all
qed

lemma handle_keeps:
  assumes "env_ok env" "hub_inv env s" "message_ok env msg" "handle env now s msg = Some (r, s')"
  shows "keeps env s s'"
proof (cases msg)
  case (AnnounceTransaction i t)
  with assms show ?thesis
    by (auto simp: announce_transaction_def no_reply_Some dest!: send_to_peer_frame
        intro: keeps_asked split: if_splits)
next
  case (GetTransaction i t)
  with assms show ?thesis
    by (auto simp: get_transaction_def no_reply_Some dest!: send_to_peer_frame
        intro: keeps_streams split: option.splits)
next
  case (AnnounceBlock i t)
  with assms show ?thesis
    by (auto simp: announce_block_def no_reply_Some dest!: send_to_peer_frame
        intro: keeps_streams split: if_splits)
next
  case (GetBlock i t)
  with assms show ?thesis
    by (auto simp: get_block_def no_reply_Some dest!: send_to_peer_frame
        intro: keeps_streams split: option.splits)
next
  case (QueryLeadingCashSet port)
  with assms show ?thesis
    by (auto simp: query_leading_cash_def dest!: cash_set_at_frame split: option.splits)
qed (use assms in \<open>auto intro: new_peer_keeps new_transaction_keeps new_block_keeps\<close>)

section \<open>The hub refines the ledger\<close>

interpretation hub_ledger: refining_actor
    "\<lambda>s. env_ok env \<and> hub_inv env s \<and> hub_config s = cfg" "message_ok env" "hub_step env"
    "\<lambda>s. env_ok env \<and> hub_inv env s \<and> hub_config s = cfg" ledger_of "ledger_step env cfg"
  for env cfg
proof
  fix s m s'
  assume s: "env_ok env \<and> hub_inv env s \<and> hub_config s = cfg" and m: "message_ok env m" and "hub_step env s m s'"
  then obtain now r where h: "handle env now s m = Some (r, s')" by (auto elim: hub_stepE)
  then have k: "keeps env s s'" using handle_keeps m s by blast
  then show "env_ok env \<and> hub_inv env s' \<and> hub_config s' = cfg"
    using handle_inv h m s by (auto simp: keeps_def same_identity_def)
  show "ledger_run env cfg (ledger_of s) (ledger_of s')" using k s by (simp add: keeps_def)
qed simp

end
