(* ===== verification/Hub_Client.thy ===== *)
theory Hub_Client
  imports Ledger_Refinement Hub_Helper
begin

text \<open>
  The queries of \<open>HubHelper\<close> (\<open>src/src/hub_helper.rs\<close>): a call sends a message with a fresh reply
  port and waits for the reply, which the type of the port fixes. A call fails where the handler
  sends none. \<open>leading_block\<close> makes two calls, and the hub may handle any messages between them.
\<close>

section \<open>Replies have the type of their port\<close>

fun reply_fits :: "('n, 'st) PeerHubActorMessage \<Rightarrow> 'n reply option \<Rightarrow> bool" where
  "reply_fits (ShouldConnect _ _) r = (\<exists>x. r = Some (BoolReply x))"
| "reply_fits (NewPeer _ _ _ _) r = (\<exists>x. r = Some (BoolReply x))"
| "reply_fits (QueryTransaction _ _) r = (\<exists>x. r = Some (TransactionReply x))"
| "reply_fits (QueryTransactions ts _) r = (\<exists>x. r = Some (TransactionsReply x) \<and> length x = length ts)"
| "reply_fits (QueryTransactionDepth _ _) r = (\<exists>x. r = Some (DepthReply x))"
| "reply_fits (QueryTransactionDepths ts _) r = (\<exists>x. r = Some (DepthsReply x) \<and> length x = length ts)"
| "reply_fits (QueryBlock _ _) r = (\<exists>x. r = Some (BlockReply x))"
| "reply_fits (QueryPeers _) r = (\<exists>x. r = Some (PeersReply x))"
| "reply_fits (QueryLocalNodeId _) r = (\<exists>x. r = Some (NodeIdReply x))"
| "reply_fits (QueryMemPool _) r = (\<exists>x. r = Some (MemPoolReply x))"
| "reply_fits (QueryLeadingBlock _) r = (\<exists>x. r = Some (BlockIdReply x))"
| "reply_fits (QueryDifficultyAdjustTime _ _) r = (\<exists>x. r = Some (TimestampReply x))"
| "reply_fits (QueryLeadingCashSet _) r = (\<exists>x. r = Some (CashSetReply x))"
| "reply_fits _ r = (r = None)"

lemma send_reply_Inr: "send_reply port x = Inr r \<longleftrightarrow> port \<and> r = Some x"
  by (auto simp: send_reply_def)

lemma no_reply_None: "no_reply p = Some (Inr r, s') \<Longrightarrow> r = None"
  by (cases p; cases "fst p") (auto simp: no_reply_def)

lemma after_validation_None:
  "after_validation env s node i prev ids = Some (Inr r, s') \<Longrightarrow> r = None"
  by (auto simp: after_validation_def dest: no_reply_None split: if_splits option.splits)

lemma handle_reply_fits:
  assumes "handle env now s m = Some (Inr r, s')"
  shows "reply_fits m r"
proof (cases m)
  case (QueryTransactionDepths ts port)
  with assms show ?thesis by (auto simp: send_reply_Inr query_depths_def)
qed (use assms in \<open>auto simp: send_reply_Inr new_peer_def announce_transaction_def new_transaction_def
    get_transaction_def announce_block_def get_block_def new_block_def Let_def
    dest: no_reply_None after_validation_None split: if_splits option.splits sum.splits prod.splits\<close>)

section \<open>What makes the handler fail\<close>

text \<open>The actor framework stops an actor whose handler returns an error.\<close>

fun reply_port_of :: "('n, 'st) PeerHubActorMessage \<Rightarrow> reply_port option" where
  "reply_port_of (ShouldConnect _ p) = Some p"
| "reply_port_of (NewPeer _ _ _ p) = Some p"
| "reply_port_of (QueryTransaction _ p) = Some p"
| "reply_port_of (QueryTransactions _ p) = Some p"
| "reply_port_of (QueryTransactionDepth _ p) = Some p"
| "reply_port_of (QueryTransactionDepths _ p) = Some p"
| "reply_port_of (QueryBlock _ p) = Some p"
| "reply_port_of (QueryPeers p) = Some p"
| "reply_port_of (QueryLocalNodeId p) = Some p"
| "reply_port_of (QueryMemPool p) = Some p"
| "reply_port_of (QueryLeadingBlock p) = Some p"
| "reply_port_of (QueryDifficultyAdjustTime _ p) = Some p"
| "reply_port_of (QueryLeadingCashSet p) = Some p"
| "reply_port_of _ = None"

definition stream_error :: "hub_error \<Rightarrow> bool" where
  "stream_error e \<longleftrightarrow> e = NoSuchPeer \<or> e = EncodeFailed \<or> e = WriteFailed"

lemma send_reply_Inl: "send_reply port x = Inl e \<longleftrightarrow> \<not> port \<and> e = ReplyDropped"
  by (auto simp: send_reply_def)

lemma send_to_peer_error: "send_to_peer env s msg i = (Inl e, s') \<Longrightarrow> stream_error e"
  by (auto simp: send_to_peer_def stream_error_def split: option.splits prod.splits if_splits)

lemma broadcast_loop_error: "broadcast_loop env i bs is m = (Inl e, m') \<Longrightarrow> e = WriteFailed"
  by (induction env i bs "is" m rule: broadcast_loop.induct)
     (auto split: if_splits option.splits prod.splits bool.splits)

lemma broadcast_error: "broadcast env s i msg = (Inl e, s') \<Longrightarrow> e = EncodeFailed \<or> e = WriteFailed"
  by (auto simp: broadcast_def dest: broadcast_loop_error split: option.splits prod.splits)

lemma announce_blocks_error:
  "announce_blocks env s is = (Inl e, s') \<Longrightarrow> e = EncodeFailed \<or> e = WriteFailed"
  by (induction env s "is" rule: announce_blocks.induct)
     (auto dest: broadcast_error split: prod.splits sum.splits)

lemma no_reply_error: "no_reply p = Some (Inl e, s') \<longleftrightarrow> p = (Inl e, s')"
  by (cases p; cases "fst p") (auto simp: no_reply_def)

lemma after_validation_error:
  "after_validation env s node i prev ids = Some (Inl e, s') \<Longrightarrow> stream_error e"
  by (auto simp: after_validation_def no_reply_error stream_error_def
      dest!: send_to_peer_error announce_blocks_error split: if_splits option.splits)

lemma handle_error:
  assumes "handle env now s m = Some (Inl e, s')"
  shows "(e = ReplyDropped \<and> reply_port_of m = Some False) \<or>
    (e = NoSuchTransaction \<and> (\<exists>n t. m = GetTransaction n t \<and> fmlookup (mempool s) t = None)) \<or>
    (e = NoSuchBlock \<and> (\<exists>n i. m = GetBlock n i \<and> fmlookup (valid_blocks s) i = None)) \<or>
    (stream_error e \<and> reply_port_of m = None)"
proof (cases m)
  case (GetTransaction n t)
  with assms show ?thesis
    by (auto simp: get_transaction_def no_reply_error dest: send_to_peer_error split: option.splits)
next
  case (GetBlock n t)
  with assms show ?thesis
    by (auto simp: get_block_def no_reply_error dest: send_to_peer_error split: option.splits)
qed (use assms in \<open>auto simp: send_reply_Inl new_peer_def announce_transaction_def new_transaction_def
    announce_block_def new_block_def Let_def no_reply_error stream_error_def
    dest!: send_to_peer_error broadcast_error after_validation_error
    split: if_splits option.splits sum.splits prod.splits\<close>)

section \<open>Calls\<close>

datatype call_error = CallFailed

definition call ::
    "('sk, 'n::linorder, 'st) hub_env \<Rightarrow> Timestamp \<Rightarrow> ('n, 'st) hub \<Rightarrow>
     ('n, 'st) PeerHubActorMessage \<Rightarrow> ('n reply \<Rightarrow> 'a option) \<Rightarrow>
     ((call_error + 'a) \<times> ('n, 'st) hub) option" where
  "call env now s msg proj =
     map_option (map_prod (\<lambda>r. case r of
         Inr (Some x) \<Rightarrow> (case proj x of Some y \<Rightarrow> Inr y | None \<Rightarrow> Inl CallFailed)
       | _ \<Rightarrow> Inl CallFailed) id) (handle env now s msg)"

text \<open>The value a reply of each type carries.\<close>

fun depth_of :: "'n reply \<Rightarrow> u64 option option" where
  "depth_of (DepthReply x) = Some x" | "depth_of _ = None"
fun transaction_of :: "'n reply \<Rightarrow> Transaction option option" where
  "transaction_of (TransactionReply x) = Some x" | "transaction_of _ = None"
fun block_of :: "'n reply \<Rightarrow> Block option option" where
  "block_of (BlockReply x) = Some x" | "block_of _ = None"
fun peers_of :: "'n reply \<Rightarrow> 'n list option" where
  "peers_of (PeersReply x) = Some x" | "peers_of _ = None"
fun node_id_of :: "'n reply \<Rightarrow> 'n option" where
  "node_id_of (NodeIdReply x) = Some x" | "node_id_of _ = None"
fun block_id_of :: "'n reply \<Rightarrow> BlockId option" where
  "block_id_of (BlockIdReply x) = Some x" | "block_id_of _ = None"
fun bool_of :: "'n reply \<Rightarrow> bool option" where
  "bool_of (BoolReply x) = Some x" | "bool_of _ = None"

definition helper_transaction_depth where
  "helper_transaction_depth env now s t = call env now s (QueryTransactionDepth t True) depth_of"

definition helper_get_transaction where
  "helper_get_transaction env now s t = call env now s (QueryTransaction t True) transaction_of"

definition helper_get_block where
  "helper_get_block env now s i = call env now s (QueryBlock i True) block_of"

definition helper_peers where
  "helper_peers env now s = call env now s (QueryPeers True) peers_of"

definition helper_id where
  "helper_id env now s = call env now s (QueryLocalNodeId True) node_id_of"

text \<open>An actor handles its messages until one of them ends with an error, which stops the actor; a query of
  a stopped actor fails.\<close>

fun serve ::
    "('sk, 'n::linorder, 'st) hub_env \<Rightarrow> ('n, 'st) hub \<Rightarrow> (Timestamp \<times> ('n, 'st) PeerHubActorMessage) list \<Rightarrow>
     (hub_error option \<times> ('n, 'st) hub) option" where
  "serve env s [] = Some (None, s)"
| "serve env s ((now, m) # ms) = do {
     (r, s1) \<leftarrow> handle env now s m;
     (case r of Inl e \<Rightarrow> Some (Some e, s1) | Inr _ \<Rightarrow> serve env s1 ms) }"

text \<open>The state after messages none of which stops the actor.\<close>

definition handle_all ::
    "('sk, 'n::linorder, 'st) hub_env \<Rightarrow> ('n, 'st) hub \<Rightarrow>
     (Timestamp \<times> ('n, 'st) PeerHubActorMessage) list \<Rightarrow> ('n, 'st) hub option" where
  "handle_all env s ms = (case serve env s ms of Some (None, s1) \<Rightarrow> Some s1 | _ \<Rightarrow> None)"

lemma handle_all_simps [simp]:
  "handle_all env s [] = Some s"
  "handle_all env s ((now, m) # ms) = (case handle env now s m of Some (Inr _, s1) \<Rightarrow> handle_all env s1 ms | _ \<Rightarrow> None)"
  by (auto simp: handle_all_def bind_eq_Some_conv split: option.split sum.split)

lemma serve_append:
  "serve env s (ms @ ms') = (case serve env s ms of Some (None, s1) \<Rightarrow> serve env s1 ms' | r \<Rightarrow> r)"
proof (induction ms arbitrary: s)
  case (Cons p ms)
  obtain now m where p: "p = (now, m)" by (cases p)
  show ?case
  proof (cases "handle env now s m")
    case (Some rs)
    then obtain r s1 where "handle env now s m = Some (r, s1)" by (cases rs) auto
    then show ?thesis using p Cons.IH [of s1] by (cases r) simp_all
  qed (use p in simp)
qed simp

lemma serve_ends: "serve env s ms = Some (None, s') \<longleftrightarrow> handle_all env s ms = Some s'"
  by (auto simp: handle_all_def split: option.split)

lemma handle_all_append: "handle_all env s (ms @ ms') = Option.bind (handle_all env s ms) (\<lambda>s1. handle_all env s1 ms')"
proof (induction ms arbitrary: s)
  case (Cons p ms)
  then show ?case by (cases p) (auto split: option.split sum.split)
qed simp

text \<open>Messages to, and a call of, a hub that may have stopped; \<open>runs\<close> tells whether it runs.\<close>

definition served ::
    "('sk, 'n::linorder, 'st) hub_env \<Rightarrow> bool \<Rightarrow> ('n, 'st) hub \<Rightarrow>
     (Timestamp \<times> ('n, 'st) PeerHubActorMessage) list \<Rightarrow> (bool \<times> ('n, 'st) hub) option" where
  "served env runs s ms =
     (if runs then map_option (\<lambda>(stopped, s1). (stopped = None, s1)) (serve env s ms) else Some (False, s))"

definition ask ::
    "('sk, 'n::linorder, 'st) hub_env \<Rightarrow> bool \<Rightarrow> Timestamp \<Rightarrow> ('n, 'st) hub \<Rightarrow>
     ('n, 'st) PeerHubActorMessage \<Rightarrow> ('n reply \<Rightarrow> 'a option) \<Rightarrow> ((call_error + 'a) \<times> ('n, 'st) hub) option" where
  "ask env runs now s msg proj = (if runs then call env now s msg proj else Some (Inl CallFailed, s))"

text \<open>\<open>between\<close> are the messages the hub handles after the first reply and before the second query;
  \<open>None\<close> is the panic of \<open>expect\<close> (or of the hub).\<close>

definition helper_leading_block ::
    "('sk, 'n::linorder, 'st) hub_env \<Rightarrow> Timestamp \<Rightarrow> Timestamp \<Rightarrow>
     (Timestamp \<times> ('n, 'st) PeerHubActorMessage) list \<Rightarrow> ('n, 'st) hub \<Rightarrow>
     ((call_error + Block) \<times> ('n, 'st) hub) option" where
  "helper_leading_block env now1 now2 between s = do {
     (r, s1) \<leftarrow> call env now1 s (QueryLeadingBlock True) block_id_of;
     (case r of
        Inl e \<Rightarrow> Some (Inl e, s1)
      | Inr i \<Rightarrow> do {
          (stopped, s2) \<leftarrow> serve env s1 between;
          (if stopped \<noteq> None then Some (Inl CallFailed, s2)
           else do {
             (r2, s3) \<leftarrow> call env now2 s2 (QueryBlock i True) block_of;
             (case r2 of
                Inl e \<Rightarrow> Some (Inl e, s3)
              | Inr None \<Rightarrow> None
              | Inr (Some b) \<Rightarrow> Some (Inr b, s3)) }) }) }"

section \<open>What the calls return\<close>

lemma serve_keeps:
  assumes "env_ok env"
  shows "hub_inv env s \<Longrightarrow> list_all (\<lambda>(now, m). message_ok env m) ms \<Longrightarrow> serve env s ms = Some (e, s') \<Longrightarrow>
    hub_inv env s' \<and> keeps env s s'"
proof (induction ms arbitrary: s)
  case (Cons p ms)
  obtain now m where p: "p = (now, m)" by (cases p)
  with Cons.prems(3) obtain r s1 where h: "handle env now s m = Some (r, s1)"
    by (cases "handle env now s m") auto
  with Cons.prems p have k: "hub_inv env s1" "keeps env s s1"
    using handle_inv [OF assms] handle_keeps [OF assms] by auto
  show ?case
  proof (cases r)
    case (Inl x)
    then show ?thesis using Cons.prems(3) p h k by simp
  next
    case (Inr x)
    then have "serve env s1 ms = Some (e, s')" using Cons.prems(3) p h by simp
    then show ?thesis using Cons.IH [OF k(1)] Cons.prems(2) keeps_trans [OF k(2)] by auto
  qed
qed simp

lemma served_keeps:
  "env_ok env \<Longrightarrow> hub_inv env s \<Longrightarrow> list_all (\<lambda>(now, m). message_ok env m) ms \<Longrightarrow> served env runs s ms = Some (runs', s') \<Longrightarrow>
    hub_inv env s' \<and> keeps env s s' \<and> (runs' \<longrightarrow> runs)"
  by (auto simp: served_def keeps_refl dest: serve_keeps split: if_splits)

lemma handle_all_keeps:
  "env_ok env \<Longrightarrow> hub_inv env s \<Longrightarrow> list_all (\<lambda>(now, m). message_ok env m) ms \<Longrightarrow> handle_all env s ms = Some s' \<Longrightarrow>
    hub_inv env s' \<and> keeps env s s'"
  unfolding serve_ends [symmetric] by (rule serve_keeps)

lemma keeps_valid: "keeps env s s' \<Longrightarrow> fmlookup (valid_blocks s) i = Some b \<Longrightarrow> fmlookup (valid_blocks s') i = Some b"
  using ledger_run_keeps [of env "hub_config s" "ledger_of s" "ledger_of s'"] by (simp add: keeps_def)

lemma helper_leading_block_result:
  assumes "env_ok env" "hub_inv env s" "list_all (\<lambda>(now, m). message_ok env m) between"
    and "handle_all env s between = Some s2"
  shows "\<exists>b. helper_leading_block env now1 now2 between s = Some (Inr b, s2) \<and>
    fmlookup (valid_blocks s) (leading_block s) = Some b"
proof -
  obtain b where b: "fmlookup (valid_blocks s) (leading_block s) = Some b"
    using hub_inv_leader [OF assms(2)] by (auto simp: leads_def)
  have "fmlookup (valid_blocks s2) (leading_block s) = Some b"
    using keeps_valid [OF _ b] handle_all_keeps [OF assms(1-4)] by blast
  with assms(4) b show ?thesis by (simp add: helper_leading_block_def call_def send_reply_def serve_ends [symmetric])
qed

end
