(* ===== verification/Test_Util.thy ===== *)
theory Test_Util
  imports Miner Hub_Client Peer_Wire
begin

text \<open>
  The builders of \<open>src/src/test_util.rs\<close>: random addresses and configurations, a signed transaction,
  the genesis block, an empty block on a chain, a chain of empty blocks, and the forged transaction
  and block. What the code draws at random (keys, identifiers, amounts, bytes) and the clock are
  arguments; \<open>None\<close> is a failed \<open>unwrap\<close> or another panic.
\<close>

section \<open>Builders\<close>

definition random_address :: "('sk, 'z) crypto_scheme \<Rightarrow> 'sk \<Rightarrow> CoinAddress" where
  "random_address c signing_key = from_signer c signing_key"

definition config_with_random_alpn :: "Timestamp \<Rightarrow> u8 list \<Rightarrow> Config" where
  "config_with_random_alpn now random_bytes = with_testing_alpn now (take 16 random_bytes)"

definition unwrap :: "('e + 'a) option \<Rightarrow> 'a option" where
  "unwrap r = (case r of Some (Inr x) \<Rightarrow> Some x | _ \<Rightarrow> None)"

definition RECEIVER_PUB_KEY :: "u8 list" where
  "RECEIVER_PUB_KEY =
     bytes_of_string ''01a4b29a7fc6127080b9eb962ec4f18a3a61d5e011cc3fa821d5d1d1f30d0ddb''"

definition create_transaction ::
    "('sk, 'z) crypto_scheme \<Rightarrow> 'sk \<Rightarrow> u64 \<Rightarrow> Uuid \<Rightarrow> Uuid \<Rightarrow> Transaction option" where
  "create_transaction c signing_key random_amount uuid1 uuid2 = do {
     receiver \<leftarrow> unwrap (Some (hex_to_bytes 32 RECEIVER_PUB_KEY));
     let inp = Cash_new uuid1 random_amount (from_signer c signing_key);
     rest \<leftarrow> checked_sub (amount inp) 10;
     unwrap (Transaction_new c signing_key [inp] [Cash_new uuid2 rest \<lparr>pub_key = receiver\<rparr>]) }"

definition create_genesis_block :: "('sk, 'z) codec_scheme \<Rightarrow> Config \<Rightarrow> Block option" where
  "create_genesis_block c config =
     create_genesis c (genesis_difficulty config) (genesis_timestamp config) (initial_block_subsidy config)"

text \<open>What a new block draws: the time, the identifier of its reward, the key of its miner.\<close>

type_synonym 'sk seed = "Timestamp \<times> Uuid \<times> 'sk"

definition create_empty_block ::
    "('sk, 'z) codec_scheme \<Rightarrow> 'sk seed \<Rightarrow> Block list \<Rightarrow> Block option" where
  "create_empty_block c seed chain =
     (case seed of (now, uuid, signing_key) \<Rightarrow>
        if chain = [] then None
        else do {
          let own = from_signer c signing_key;
          let prev_block = last chain;
          let config = INCOMPLETE_TESTING_CONFIG;
          n \<leftarrow> checked_add (seqno prev_block) 1;
          r \<leftarrow> checked_rem n (difficulty_adjustment_period config);
          unconfirmed \<leftarrow>
            (if r = 0 then
               (if length chain < unat (difficulty_adjustment_period config) then None
                else unwrap (UnconfirmedBlock_new c now uuid prev_block own []
                       (Some (timestamp (chain ! (length chain - unat (difficulty_adjustment_period config)))))
                       config))
             else unwrap (UnconfirmedBlock_new c now uuid prev_block own [] None config));
          unwrap (try_confirm c unconfirmed signing_key) })"

text \<open>The loop of \<open>create_empty_chain\<close> over the seeds still to come; the first block is genesis.\<close>

fun extend_chain ::
    "('sk, 'z) codec_scheme \<Rightarrow> Config \<Rightarrow> Block list \<Rightarrow> 'sk seed list \<Rightarrow> Block list option" where
  "extend_chain c config blocks [] = Some blocks"
| "extend_chain c config blocks (seed # seeds) = do {
     b \<leftarrow> (if blocks = [] then create_genesis_block c config else create_empty_block c seed blocks);
     extend_chain c config (blocks @ [b]) seeds }"

definition create_empty_chain ::
    "('sk, 'z) codec_scheme \<Rightarrow> Config \<Rightarrow> 'sk seed list \<Rightarrow> Block list option" where
  "create_empty_chain c config seeds = extend_chain c config [] seeds"

definition EVIL_GUY_ADDRESS :: CoinAddress where
  "EVIL_GUY_ADDRESS = \<lparr>pub_key = replicate 32 0\<rparr>"

text \<open>The forged values overwrite a field behind the signature.\<close>

definition create_invalid_transaction ::
    "('sk, 'z) crypto_scheme \<Rightarrow> 'sk \<Rightarrow> u64 \<Rightarrow> Uuid \<Rightarrow> Uuid \<Rightarrow> Uuid \<Rightarrow> Transaction option" where
  "create_invalid_transaction c signing_key random_amount uuid1 uuid2 uuid3 = do {
     txn \<leftarrow> create_transaction c signing_key random_amount uuid1 uuid2;
     total \<leftarrow> checked_sum (map amount (inputs txn));
     Some (txn\<lparr>txn_inner := (txn_inner txn)\<lparr>txn_outputs := [Cash_new uuid3 total EVIL_GUY_ADDRESS]\<rparr>\<rparr>) }"

definition create_invalid_block ::
    "('sk, 'z) codec_scheme \<Rightarrow> 'sk seed \<Rightarrow> 'sk \<Rightarrow> Block list \<Rightarrow> Block option" where
  "create_invalid_block c seed new_key chain = do {
     b \<leftarrow> create_empty_block c seed chain;
     Some (b\<lparr>blk_inner := (blk_inner b)\<lparr>bi_miner := from_signer c new_key\<rparr>\<rparr>) }"

section \<open>Forged values are rejected\<close>

text \<open>A signature fits only the message it was made for, and only the key it was made with. The
  encoding that is signed determines the amounts paid out.\<close>

definition signature_binds :: "('sk, 'z) crypto_scheme \<Rightarrow> 'sk \<Rightarrow> bool" where
  "signature_binds c sk \<longleftrightarrow>
     (\<forall>m m'. sig_verifies c (verifying_key c sk) m' (sk_sign c sk m) \<longrightarrow> m' = m)"

definition keys_apart :: "('sk, 'z) crypto_scheme \<Rightarrow> 'sk \<Rightarrow> 'sk \<Rightarrow> bool" where
  "keys_apart c sk sk' \<longleftrightarrow> (\<forall>m m'. \<not> sig_verifies c (verifying_key c sk') m' (sk_sign c sk m))"

definition amounts_encoded :: "('sk, 'z) crypto_scheme \<Rightarrow> bool" where
  "amounts_encoded c \<longleftrightarrow> (\<forall>x y. enc_txn_inner c x = enc_txn_inner c y \<longrightarrow>
     map amount (txn_outputs x) = map amount (txn_outputs y))"

lemma unwrap_Some [simp]: "unwrap r = Some x \<longleftrightarrow> r = Some (Inr x)"
  by (auto simp: unwrap_def split: option.split sum.split)

lemma create_transaction_Some:
  "create_transaction c sk a u1 u2 = Some t \<longleftrightarrow>
     (\<exists>receiver. hex_to_bytes 32 RECEIVER_PUB_KEY = Inr receiver \<and> 10 \<le> a \<and>
       t = \<lparr>txn_inner = \<lparr>txn_inputs = [Cash_new u1 a (from_signer c sk)],
                        txn_outputs = [Cash_new u2 (a - 10) \<lparr>pub_key = receiver\<rparr>]\<rparr>,
            txn_signature = \<lparr>sig_bytes = sk_sign c sk (enc_txn_inner c
              \<lparr>txn_inputs = [Cash_new u1 a (from_signer c sk)],
               txn_outputs = [Cash_new u2 (a - 10) \<lparr>pub_key = receiver\<rparr>]\<rparr>)\<rparr>\<rparr>)"
proof -
  have "unat (a - 10) \<le> unat a" if "10 \<le> a"
    using that by (simp add: unat_sub)
  moreover have "unat a < 2 ^ 64" using unat_bound [of a] by simp
  ultimately show ?thesis
    by (auto simp: create_transaction_def Let_def checked_sub_def Transaction_new_Inr amounts_ok_def Cash_new_def)
qed

lemma forged_transaction_rejected:
  assumes sig: "signatures_verify c" "signature_binds c sk" and enc: "amounts_encoded c"
    and bad: "create_invalid_transaction c sk a u1 u2 u3 = Some t"
  shows "transaction_try_from c (transaction_raw t) = Some (Inl InvalidTransaction)"
proof -
  let ?inp = "Cash_new u1 a (from_signer c sk)"
  have "checked_sum [a] = Some a" using unat_bound [of a] by (simp add: checked_sum_Some)
  then obtain receiver where t: "10 \<le> a" "t =
      \<lparr>txn_inner = \<lparr>txn_inputs = [?inp], txn_outputs = [Cash_new u3 a EVIL_GUY_ADDRESS]\<rparr>,
       txn_signature = \<lparr>sig_bytes = sk_sign c sk (enc_txn_inner c
         \<lparr>txn_inputs = [?inp], txn_outputs = [Cash_new u2 (a - 10) \<lparr>pub_key = receiver\<rparr>]\<rparr>)\<rparr>\<rparr>"
    using bad by (auto simp: create_invalid_transaction_def create_transaction_Some inputs_def
        Cash_new_def)
  have ok: "check_inputs_and_outputs [?inp] [Cash_new u3 a EVIL_GUY_ADDRESS] = Some (Inr ())"
    using unat_bound [of a] by (simp add: check_accepts amounts_ok_def Cash_new_def)
  have "a - 10 \<noteq> a" by simp
  then have "map amount (txn_outputs (txn_inner t)) \<noteq> map amount [Cash_new u2 (a - 10) \<lparr>pub_key = receiver\<rparr>]"
    using t by (simp add: Cash_new_def)
  then have "enc_txn_inner c (txn_inner t) \<noteq> enc_txn_inner c
       \<lparr>txn_inputs = [?inp], txn_outputs = [Cash_new u2 (a - 10) \<lparr>pub_key = receiver\<rparr>]\<rparr>"
    using enc unfolding amounts_encoded_def by fastforce
  then have "\<not> sig_verifies c (verifying_key c sk) (enc_txn_inner c (txn_inner t)) (sig_bytes (txn_signature t))"
    using sig(2) t by (auto simp: signature_binds_def)
  then show ?thesis
    using ok sig(1) t
    by (simp add: transaction_try_from_def transaction_raw_def Let_def signatures_verify_def Cash_new_def from_signer_def)
qed

lemma forged_block_rejected:
  assumes "keys_apart c sk new_key" and "create_invalid_block c (now, uuid, sk) new_key chain = Some b"
  shows "\<exists>e. block_try_from c (block_raw b) = Inl e \<and> (e = InvalidSignature \<or> e = NonceNotMet \<or> e = MalformedMinerKey)"
proof -
  obtain b0 ub where "try_confirm c ub sk = Some (Inr b0)"
    and b: "b = b0\<lparr>blk_inner := (blk_inner b0)\<lparr>bi_miner := from_signer c new_key\<rparr>\<rparr>"
    using assms(2) by (auto simp: create_invalid_block_def create_empty_block_def Let_def split: if_splits)
  then obtain m where "sig_bytes (blk_signature b0) = sk_sign c sk m"
    by (auto simp: try_confirm_def with_nonce_Inr)
  then have "\<not> sig_verifies c (pub_key (bi_miner (blk_inner b))) m' (sig_bytes (blk_signature b))" for m'
    using assms(1) b by (simp add: keys_apart_def from_signer_def)
  then show ?thesis by (simp add: block_try_from_def block_raw_def Let_def)
qed

section \<open>The tests that send forged values\<close>

text \<open>
  \<open>invalid_transaction\<close> and \<open>invalid_block\<close> of \<open>src/src/lib.rs\<close>: encode a forged value, decode it, and say
  whether decoding failed. The binary encoding \<open>enc\<close> and its parser \<open>parse\<close> are parameters; \<open>None\<close> is
  a failed \<open>unwrap\<close> or a panic.
\<close>

definition is_err :: "'e + 'a \<Rightarrow> bool" where
  "is_err r = (case r of Inl _ \<Rightarrow> True | Inr _ \<Rightarrow> False)"

definition invalid_transaction ::
    "('sk, 'z) crypto_scheme \<Rightarrow> (Transaction \<Rightarrow> u8 list option) \<Rightarrow> (u8 list \<Rightarrow> TransactionValidator option) \<Rightarrow>
     'sk \<Rightarrow> u64 \<Rightarrow> Uuid \<Rightarrow> Uuid \<Rightarrow> Uuid \<Rightarrow> bool option" where
  "invalid_transaction c enc parse signing_key random_amount uuid1 uuid2 uuid3 = do {
     bad_txn \<leftarrow> create_invalid_transaction c signing_key random_amount uuid1 uuid2 uuid3;
     bytes \<leftarrow> enc bad_txn;
     (case parse bytes of
        None \<Rightarrow> Some True
      | Some v \<Rightarrow> map_option is_err (transaction_try_from c v)) }"

definition invalid_block ::
    "('sk, 'z) codec_scheme \<Rightarrow> (Block \<Rightarrow> u8 list option) \<Rightarrow> (u8 list \<Rightarrow> RawBlock option) \<Rightarrow>
     'sk seed \<Rightarrow> 'sk seed \<Rightarrow> 'sk \<Rightarrow> bool option" where
  "invalid_block c enc parse seed1 seed2 new_key = do {
     blocks \<leftarrow> create_empty_chain c INCOMPLETE_TESTING_CONFIG [seed1];
     bad_block \<leftarrow> create_invalid_block c seed2 new_key blocks;
     bytes \<leftarrow> enc bad_block;
     (case parse bytes of
        None \<Rightarrow> Some True
      | Some r \<Rightarrow> map_option is_err (decode_block c r)) }"

lemma invalid_transaction_result:
  assumes "signatures_verify c" "signature_binds c sk" "amounts_encoded c"
    and "create_invalid_transaction c sk a u1 u2 u3 = Some t" "enc t = Some bytes"
    and "parse bytes = Some (transaction_raw t)"
  shows "invalid_transaction c enc parse sk a u1 u2 u3 = Some True"
  using forged_transaction_rejected [OF assms(1-4)] assms(4-6) by (simp add: invalid_transaction_def is_err_def)

lemma invalid_block_empty:
  assumes "create_invalid_block c (now, uuid, sk) new_key chain = Some b"
  shows "transactions b = []"
proof -
  obtain b0 ub adj where "try_confirm c ub sk = Some (Inr b0)"
    and "UnconfirmedBlock_new c now uuid (last chain) (from_signer c sk) [] adj INCOMPLETE_TESTING_CONFIG = Some (Inr ub)"
    and "b = b0\<lparr>blk_inner := (blk_inner b0)\<lparr>bi_miner := from_signer c new_key\<rparr>\<rparr>"
    using assms by (auto simp: create_invalid_block_def create_empty_block_def Let_def split: if_splits)
  with try_confirm_block(4) [of c ub sk b0] UnconfirmedBlock_new_Inr(2) [of c now uuid _ _ "[]" adj _ ub]
  show ?thesis by (auto simp: transactions_def)
qed

lemma invalid_block_result:
  assumes "keys_apart c sk new_key" "create_empty_chain c INCOMPLETE_TESTING_CONFIG [seed1] = Some chain"
    and b: "create_invalid_block c (now, uuid, sk) new_key chain = Some b"
    and "enc b = Some bytes" "parse bytes = Some (raw_of_block b)"
  shows "invalid_block c enc parse seed1 (now, uuid, sk) new_key = Some True"
proof -
  have "block_of_raw (raw_of_block b) [] = block_raw b"
    using block_of_raw_of_block [of b] invalid_block_empty [OF b] by simp
  then have "decode_block c (raw_of_block b) = Some (map_sum BadBlock id (block_try_from c (block_raw b)))"
    using invalid_block_empty [OF b] by (simp add: decode_block_def raw_of_block_def)
  moreover obtain e where "block_try_from c (block_raw b) = Inl e" using forged_block_rejected [OF assms(1) b] by blast
  ultimately show ?thesis using assms(2-5) by (simp add: invalid_block_def is_err_def)
qed

end
