(* ===== verification/Lone_Block.thy ===== *)
theory Lone_Block
  imports Handler_Results
begin

text \<open>
  What a hub does with a valid block that no other block waits for (\<open>src/src/peerhub.rs\<close>,
  \<open>validate_block\<close> and the arm of \<open>NewBlock\<close>), the usual case: the block becomes valid, alone.
\<close>

text \<open>The state of a hub after a block that no other waits for became valid.\<close>

definition with_block ::
    "('sk, 'z) codec_scheme \<Rightarrow> Block \<Rightarrow> Cash fset \<Rightarrow> ('n, 'st) hub \<Rightarrow> ('n, 'st) hub" where
  "with_block c b S s = (with_cash S s)
     \<lparr>mempool := fmfilter (\<lambda>t. \<not> list_ex (\<lambda>x. txn_id c x = t) (transactions b)) (mempool s),
      valid_blocks := fmupd (block_id c b) b (valid_blocks s),
      leading_block := (case fmlookup (valid_blocks s) (leading_block s) of
          Some l \<Rightarrow> if height l < height b then block_id c b else leading_block s | None \<Rightarrow> leading_block s),
      next_blocks := fmdrop (block_id c b) (next_blocks s)\<rparr>"

lemma with_block_sel [simp]:
  "peers (with_block c b S s) = peers s" "local_node_id (with_block c b S s) = local_node_id s"
  "valid_blocks (with_block c b S s) = fmupd (block_id c b) b (valid_blocks s)"
  "genesis_id (with_block c b S s) = genesis_id s" "hub_config (with_block c b S s) = hub_config s"
  "cash_set (with_block c b S s) = cash_set (with_cash S s)"
  "unconfirmed_blocks (with_block c b S s) = unconfirmed_blocks s"
  "invalid_blocks (with_block c b S s) = invalid_blocks s"
  "next_blocks (with_block c b S s) = fmdrop (block_id c b) (next_blocks s)"
  by (simp_all add: with_block_def)

lemma with_block_streams:
  "with_block c b S (s\<lparr>peers := m\<rparr>)\<lparr>peers := m'\<rparr> = with_block c b S s\<lparr>peers := m'\<rparr>"
  by (auto simp: with_block_def cong: option.case_cong if_cong intro!: hub.equality arg_cong [of _ _ "fmfilter _"])

text \<open>\<open>unheard env s b\<close>: nothing in \<open>s\<close> knows of \<open>b\<close>.\<close>

definition unheard :: "('sk, 'z) codec_scheme \<Rightarrow> ('n, 'st) hub \<Rightarrow> Block \<Rightarrow> bool" where
  "unheard c s b \<longleftrightarrow> block_id c b |\<notin>| fmdom (valid_blocks s) |\<union>| fmdom (unconfirmed_blocks s) |\<union>|
     invalid_blocks s |\<union>| fmdom (next_blocks s)"

lemma unheard_block:
  assumes "unheard c s b"
  shows "fmlookup (valid_blocks s) (block_id c b) = None" "fmlookup (next_blocks s) (block_id c b) = None"
    "\<not> knows_block s (block_id c b)" "block_id c b |\<notin>| invalid_blocks s"
  using assms by (auto simp: unheard_def knows_block_def fmdom_notD)

lemma accepted_alone:
  assumes inv: "hub_inv env s" and acc: "accepts env s b (with_cash S s)" and new: "unheard env s b"
  shows "validate_block env s b = Some ([block_id env b], with_block env b S s)"
proof -
  let ?s = "with_cash S s"
  have "leads (valid_blocks ?s) (leading_block ?s)" "fmlookup (valid_blocks ?s) (block_id env b) = None"
    using hub_inv_leader [OF inv] unheard_block(1) [OF new] by simp_all
  from enter_block_leads [OF this] have "enter_block env ?s b = Some ([], with_block env b S s)"
    using unheard_block(2) [OF new]
    by (auto simp: next_children_def with_block_def intro!: hub.equality arg_cong [of _ _ "fmfilter _"])
  then show ?thesis using acc by (simp add: validate_block_def add_valid_block_def check_block_Accepted [symmetric])
qed

end
