(* ===== verification/Chain_Service.thy ===== *)
theory Chain_Service
  imports Test_Util Lone_Block
begin

text \<open>
  The chains of empty blocks that the tests build (\<open>src/src/test_util.rs\<close>, \<open>create_empty_chain\<close> and
  \<open>create_empty_block\<close>), sent to a hub block by block as the tests of \<open>src/src/lib.rs\<close> do: every block
  becomes valid, forks included, and the first of the longest chains leads.
\<close>

section \<open>The rules of the tests\<close>

text \<open>A configuration of the tests has the rules of \<open>INCOMPLETE_TESTING_CONFIG\<close>.\<close>

definition testing_rules :: "Config \<Rightarrow> bool" where
  "testing_rules cfg \<longleftrightarrow> (\<exists>now a. cfg = with_testing_alpn now a)"

lemma rules_of_config [simp]:
  "difficulty_adjustment_period (cfg\<lparr>alpn := a\<rparr>) = difficulty_adjustment_period cfg"
  "difficulty_adjustment_period (cfg\<lparr>genesis_timestamp := ts\<rparr>) = difficulty_adjustment_period cfg"
  "block_subsidy (cfg\<lparr>alpn := a\<rparr>) n = block_subsidy cfg n"
  "block_subsidy (cfg\<lparr>genesis_timestamp := ts\<rparr>) n = block_subsidy cfg n"
  "adjust_with_actual_span d t (cfg\<lparr>alpn := a\<rparr>) = adjust_with_actual_span d t cfg"
  "adjust_with_actual_span d t (cfg\<lparr>genesis_timestamp := ts\<rparr>) = adjust_with_actual_span d t cfg"
  by (simp_all add: block_subsidy_def adjust_with_actual_span_def)

lemma testing_rules_block:
  "testing_rules cfg \<Longrightarrow> UnconfirmedBlock_new c now uuid prev own txns adj INCOMPLETE_TESTING_CONFIG =
     UnconfirmedBlock_new c now uuid prev own txns adj cfg"
  unfolding testing_rules_def with_testing_alpn_def UnconfirmedBlock_new_def
  by (elim exE) (simp only: rules_of_config)

lemma testing_period [simp]:
  "difficulty_adjustment_period INCOMPLETE_TESTING_CONFIG = 10"
  "testing_rules cfg \<Longrightarrow> difficulty_adjustment_period cfg = 10"
  by (auto simp: testing_rules_def with_testing_alpn_def INCOMPLETE_TESTING_CONFIG_def)

section \<open>Hubs that hold chains\<close>

text \<open>A hub without peers and without waiting blocks, whose valid blocks are those of a list.\<close>

definition tidy :: "('sk, 'n, 'st) hub_env \<Rightarrow> Config \<Rightarrow> Block list \<Rightarrow> ('n, 'st) hub \<Rightarrow> bool" where
  "tidy env cfg bs s \<longleftrightarrow> hub_inv env s \<and> hub_config s = cfg \<and>
     fmdom (valid_blocks s) = fset_of_list (map (block_id env) bs) \<and>
     peers s = fmempty \<and> unconfirmed_blocks s = fmempty \<and> invalid_blocks s = {||} \<and> next_blocks s = fmempty"

text \<open>A chain that is a branch of the valid blocks; the chain that leads.\<close>

definition holds :: "('sk, 'z) codec_scheme \<Rightarrow> ('n, 'st) hub \<Rightarrow> Block list \<Rightarrow> bool" where
  "holds c s chain \<longleftrightarrow> chain \<noteq> [] \<and>
     fmlookup (valid_blocks s) (block_id c (last chain)) = Some (last chain) \<and>
     branch (valid_blocks s) (block_id c (last chain)) = chain"

definition follows :: "('sk, 'z) codec_scheme \<Rightarrow> ('n, 'st) hub \<Rightarrow> Block list \<Rightarrow> bool" where
  "follows c s chain \<longleftrightarrow> holds c s chain \<and> leading_block s = block_id c (last chain)"

lemma tidy_inv: "tidy env cfg bs s \<Longrightarrow> hub_inv env s"
  by (simp add: tidy_def)

lemma holds_length:
  assumes "hub_inv env s" "holds env s chain"
  shows "length chain = Suc (height (last chain))"
  using branch_length [OF hub_inv_blocks [OF assms(1)]] assms(2) unfolding holds_def by metis

lemma follows_longest:
  assumes inv: "hub_inv env s" and "holds env s chain" "follows env s lead"
  shows "length chain \<le> length lead"
proof -
  have "fmlookup (valid_blocks s) (leading_block s) = Some (last lead)"
    "fmlookup (valid_blocks s) (block_id env (last chain)) = Some (last chain)" "holds env s lead"
    using assms(2,3) by (simp_all add: follows_def holds_def)
  then show ?thesis
    using hub_inv_leader [OF inv] holds_length [OF inv assms(2)] holds_length [OF inv, of lead]
    by (auto simp: leads_def)
qed

lemma holds_butlast:
  assumes inv: "hub_inv env s" and h: "holds env s (chain @ [b])" "chain \<noteq> []"
  shows "holds env s chain"
proof -
  note blocks = hub_inv_blocks [OF inv]
  have b: "fmlookup (valid_blocks s) (block_id env b) = Some b"
    and br: "branch (valid_blocks s) (block_id env b) = chain @ [b]" using h(1) by (simp_all add: holds_def)
  have root: "block_id env b \<noteq> genesis_id s"
  proof
    assume g: "block_id env b = genesis_id s"
    show False using branch_root [OF blocks, of b] b br h(2) unfolding g by simp
  qed
  obtain p where p: "fmlookup (valid_blocks s) (prev_id b) = Some p" using blocks_inv_parent [OF blocks b root] by blast
  have "branch (valid_blocks s) (prev_id b) = chain" using branch_step [OF blocks b root] br by simp
  with branch_last [OF blocks p] blocks_inv_id [OF blocks p] p h(2) show ?thesis by (simp add: holds_def)
qed

lemma holds_prefix:
  "hub_inv env s \<Longrightarrow> holds env s (chain @ later) \<Longrightarrow> chain \<noteq> [] \<Longrightarrow> holds env s chain"
proof (induction later rule: rev_induct)
  case (snoc b later)
  then show ?case using holds_butlast [of env s "chain @ later" b] by simp
qed simp

text \<open>A branch does not change when a block is added.\<close>

lemma branch_extend:
  assumes "blocks_inv c m g" "blocks_inv c (fmupd i b m) g" "fmlookup m j = Some x" "fmlookup m i = None"
  shows "branch (fmupd i b m) j = branch m j"
  using assms(1,3)
proof (induction rule: blocks_induct)
  case (root b')
  then have "i \<noteq> g" using assms(4) by auto
  with root show ?case using branch_root [OF assms(1)] branch_root [OF assms(2)] by simp
next
  case (step j x p)
  then have "i \<noteq> j" using assms(4) by auto
  with step show ?case using branch_step [OF assms(1)] branch_step [OF assms(2), of j x] by simp
qed

section \<open>An empty block on a held chain\<close>

text \<open>
  The adjustment of the difficulty reads the leading chain, not the branch of the block. Both give the
  same time if the block is built on the leading chain, or below height 20, where the only
  adjustment reads genesis.
\<close>

definition same_adjustment :: "Block list \<Rightarrow> Block list \<Rightarrow> bool" where
  "same_adjustment lead chain \<longleftrightarrow> lead = chain \<or> length chain < 20 \<and> length lead < 2 ^ 64"

lemma same_adjustment_nth:
  assumes inv: "hub_inv env s" and h: "holds env s chain" "holds env s lead" and same: "same_adjustment lead chain"
    and ten: "length chain mod 10 = 0"
  shows "lead ! (length chain - 10) = chain ! (length chain - 10)"
proof (cases "lead = chain")
  case False
  then have "length chain < 20" using same by (simp add: same_adjustment_def)
  moreover have "0 < length chain" using h(1) by (simp add: holds_def)
  ultimately have l: "length chain = 10" using ten by presburger
  note hd = branch_hd [OF hub_inv_blocks [OF inv]]
  have "hd lead = hd chain"
    using hd [of "block_id env (last chain)" "last chain"] hd [of "block_id env (last lead)" "last lead"] h
    by (simp add: holds_def)
  then show ?thesis using h l by (simp add: hd_conv_nth holds_def)
qed simp

lemma empty_block_accepted:
  assumes inv: "hub_inv env s" and cfg: "testing_rules (hub_config s)" and h: "holds env s chain"
    and built: "create_empty_block env (now, uuid, sk) chain = Some b" and time: "timestamp (last chain) \<le> now"
    and lead: "follows env s lead" "same_adjustment lead chain"
  shows "\<exists>s1. accepts env s b s1" "prev_id b = block_id env (last chain)" "height b = length chain"
    "transactions b = []" "timestamp b = now"
proof -
  let ?l = "last chain"
  note blocks = hub_inv_blocks [OF inv]
  have l: "fmlookup (valid_blocks s) (block_id env ?l) = Some ?l" and ne: "chain \<noteq> []"
    using h by (simp_all add: holds_def)
  note len = holds_length [OF inv h]
  have held: "holds env s lead" using lead(1) by (simp add: follows_def)
  have top: "fmlookup (valid_blocks s) (leading_block s) = Some (last lead)"
    "branch (valid_blocks s) (leading_block s) = lead"
    using lead(1) by (simp_all add: follows_def holds_def)
  have high: "height ?l \<le> height (last lead)"
    using hub_inv_leader [OF inv] l top(1) by (auto simp: leads_def)
  obtain n r ub adj where n: "checked_add (seqno ?l) 1 = Some n" and r: "checked_rem n (10 :: u64) = Some r"
    and adj: "adj = (if r = 0 then Some (timestamp (chain ! (length chain - 10))) else None)"
    and ub: "UnconfirmedBlock_new env now uuid ?l (from_signer env sk) [] adj (hub_config s) = Some (Inr ub)"
    and conf_b: "try_confirm env ub sk = Some (Inr b)"
    using built ne by (auto simp: create_empty_block_def Let_def testing_rules_block [OF cfg] not_less split: if_splits)
  have un: "unat n = length chain" using n len by (simp add: checked_add_Some)
  have sq: "ub_seqno ub = n" using UnconfirmedBlock_new_Inr(5) [OF ub] n by simp
  have adj': "adj = None \<or> (\<exists>p. prev_difficulty_adjusted_block s (ub_seqno ub) = Some p \<and> adj = Some (timestamp p))"
  proof (cases "r = 0")
    case True
    then have ten: "unat n mod 10 = 0" using r by (auto simp: checked_rem_Some unat_mod word_unat_eq_iff)
    have "length lead < 2 ^ 64" using lead(2) un unat_bound [of n] by (auto simp: same_adjustment_def)
    then have "seqno (last lead) \<noteq> - 1" using holds_length [OF inv held] by (auto simp: unat_max)
    moreover have "0 < unat n" "unat n \<le> Suc (height (last lead))" using un len high by auto
    ultimately have "prev_difficulty_adjusted_block s n = Some (lead ! (length chain - 10))"
      using prev_difficulty_adjusted_block_branch [OF blocks top(1), of n] cfg un ten top(2)
      by (simp add: adjustment_height_def)
    moreover have "lead ! (length chain - 10) = chain ! (length chain - 10)"
      using same_adjustment_nth [OF inv h held lead(2)] ten un by simp
    ultimately show ?thesis using True adj sq by simp
  qed (simp add: adj)
  note b = try_confirm_block [OF conf_b] and new = UnconfirmedBlock_new_Inr [OF ub]
  show t: "transactions b = []" "timestamp b = now" using b new by simp_all
  from confirmed_block_accepted [OF inv l ub conf_b adj' time] t len
  show "\<exists>s1. accepts env s b s1" "prev_id b = block_id env ?l" "height b = length chain"
    by simp_all
qed

section \<open>The hub takes the block\<close>

lemma broadcast_loop_alone: "broadcast_loop env n bs is fmempty = (Inr (), fmempty)"
  by (induction "is") simp_all

lemma broadcast_alone:
  assumes "peers s = fmempty" "enc_message env (Broadcast msg) \<noteq> None"
  shows "broadcast env s n msg = (Inr (), s)"
proof -
  have "s\<lparr>peers := fmempty\<rparr> = s" using assms(1) by (intro hub.equality) simp_all
  then show ?thesis using assms by (auto simp: broadcast_def broadcast_loop_alone)
qed

lemma empty_block_sound:
  assumes "signatures_verify c" "create_empty_block c seed chain = Some b"
  shows "sound_block c b"
proof -
  obtain now uuid sk where seed: "seed = (now, uuid, sk)" by (cases seed)
  obtain ub adj where ub: "UnconfirmedBlock_new c now uuid (last chain) (from_signer c sk) [] adj INCOMPLETE_TESTING_CONFIG =
      Some (Inr ub)" and b: "try_confirm c ub sk = Some (Inr b)"
    using assms(2) by (auto simp: create_empty_block_def seed Let_def split: if_splits)
  have "block_valid c b" using b confirmed_block_valid [OF assms(1)] by (auto simp: try_confirm_def)
  moreover have "transactions b = []" using UnconfirmedBlock_new_Inr(2) [OF ub] try_confirm_block(4) [OF b] by simp
  ultimately show ?thesis by (simp add: sound_block_def)
qed

lemma tidy_new_block:
  assumes env: "env_ok env" and td: "tidy env cfg bs s" and acc: "accepts env s b s1" and snd: "sound_block env b"
    and new: "block_id env b \<notin> set (map (block_id env) bs)" and time: "timestamp b \<le> now"
    and enc: "enc_message env (Broadcast (BroadcastBlock (block_id env b))) \<noteq> None"
  shows "\<exists>S. handle env now s (NewBlock None b) = Some (Inr None, with_block env b S s) \<and>
    tidy env cfg (bs @ [b]) (with_block env b S s)"
proof -
  have inv: "hub_inv env s" and dom: "fmdom (valid_blocks s) = fset_of_list (map (block_id env) bs)"
    and rest: "hub_config s = cfg" "peers s = fmempty" "unconfirmed_blocks s = fmempty" "invalid_blocks s = {||}"
      "next_blocks s = fmempty"
    using td unfolding tidy_def by blast+
  obtain S where s1: "s1 = with_cash S s" using accepts_with_cash [OF acc] by blast
  let ?s' = "with_block env b S s"
  have un: "unheard env s b" using new dom rest by (auto simp: unheard_def fset_of_list_elem)
  have v: "validate_block env s b = Some ([block_id env b], ?s')" using accepted_alone [OF inv _ un] acc s1 by blast
  have "broadcast env ?s' (local_node_id ?s') (BroadcastBlock (block_id env b)) = (Inr (), ?s')"
    using rest(2) enc by (intro broadcast_alone) simp_all
  then have h: "handle env now s (NewBlock None b) = Some (Inr None, ?s')"
    using v unheard_block [OF un] leD [OF time] by (simp add: new_block_def after_validation_def no_reply_def)
  have "hub_inv env ?s'" using handle_inv [OF env inv _ h] snd by simp
  with h rest dom show ?thesis by (auto simp: tidy_def)
qed

lemma with_block_holds:
  assumes "hub_inv env s" "hub_inv env (with_block env b S s)" "fmlookup (valid_blocks s) (block_id env b) = None"
    and "holds env s chain"
  shows "holds env (with_block env b S s) chain"
proof -
  have l: "fmlookup (valid_blocks s) (block_id env (last chain)) = Some (last chain)" using assms(4) by (simp add: holds_def)
  with assms(3) have "block_id env b \<noteq> block_id env (last chain)" by auto
  moreover have "blocks_inv env (fmupd (block_id env b) b (valid_blocks s)) (genesis_id s)"
    using hub_inv_blocks [OF assms(2)] by simp
  from branch_extend [OF hub_inv_blocks [OF assms(1)] this l assms(3)]
  have "branch (fmupd (block_id env b) b (valid_blocks s)) (block_id env (last chain)) = chain"
    using assms(4) by (simp add: holds_def)
  ultimately show ?thesis using l assms(4) by (simp add: holds_def)
qed

lemma with_block_extends:
  assumes inv: "hub_inv env s" "hub_inv env (with_block env b S s)" and new: "fmlookup (valid_blocks s) (block_id env b) = None"
    and h: "holds env s chain" "prev_id b = block_id env (last chain)"
  shows "holds env (with_block env b S s) (chain @ [b])"
proof -
  let ?s = "with_block env b S s"
  have old: "branch (valid_blocks ?s) (prev_id b) = chain" using with_block_holds [OF inv new h(1)] h(2) by (simp add: holds_def)
  have b: "fmlookup (valid_blocks ?s) (block_id env b) = Some b" by simp
  have "block_id env b \<noteq> genesis_id ?s" using new blocks_inv_genesis [OF hub_inv_blocks [OF inv(1)]] by auto
  from branch_step [OF hub_inv_blocks [OF inv(2)] b this] old show ?thesis by (simp add: holds_def)
qed

lemma with_block_follows:
  assumes inv: "hub_inv env s" "hub_inv env (with_block env b S s)" and new: "fmlookup (valid_blocks s) (block_id env b) = None"
    and h: "holds env s chain" "prev_id b = block_id env (last chain)" "height b = length chain"
    and lead: "follows env s lead"
  shows "follows env (with_block env b S s) (if length lead \<le> length chain then chain @ [b] else lead)"
proof -
  have lh: "holds env s lead" and l: "fmlookup (valid_blocks s) (leading_block s) = Some (last lead)"
    using lead by (simp_all add: follows_def holds_def)
  have "height (last lead) < height b \<longleftrightarrow> length lead \<le> length chain" using holds_length [OF inv(1) lh] h(3) by auto
  then have "leading_block (with_block env b S s) = (if length lead \<le> length chain then block_id env b else leading_block s)"
    using l by (simp add: with_block_def)
  then show ?thesis
    using with_block_extends [OF inv new h(1,2)] with_block_holds [OF inv new lh] lead by (simp add: follows_def)
qed

section \<open>Serving chains\<close>

definition send_blocks :: "Timestamp \<Rightarrow> Block list \<Rightarrow> (Timestamp \<times> ('n, 'st) PeerHubActorMessage) list" where
  "send_blocks now bs = map (\<lambda>b. (now, NewBlock None b)) bs"

lemma extend_chain_prefix:
  "extend_chain c cfg blocks seeds = Some chain \<Longrightarrow> \<exists>later. chain = blocks @ later \<and> length later = length seeds"
  by (induction seeds arbitrary: blocks) (fastforce split: if_splits)+

lemma create_empty_chain_length: "create_empty_chain c cfg seeds = Some chain \<Longrightarrow> length chain = length seeds"
  by (auto simp: create_empty_chain_def dest: extend_chain_prefix)

lemma serve_chain:
  assumes env: "env_ok env" "signatures_verify env" and cfg: "testing_rules cfg"
    and enc: "\<forall>i. enc_message env (Broadcast (BroadcastBlock i)) \<noteq> None"
  shows "tidy env cfg bs s \<Longrightarrow> holds env s chain \<Longrightarrow> follows env s lead \<Longrightarrow>
    lead = chain \<or> length (chain @ later) \<le> 20 \<and> length lead < 2 ^ 64 \<Longrightarrow>
    extend_chain env config chain seeds = Some (chain @ later) \<Longrightarrow>
    distinct (map (block_id env) (bs @ later)) \<Longrightarrow> sorted (map timestamp (chain @ later)) \<Longrightarrow>
    \<forall>b \<in> set later. timestamp b \<le> now \<Longrightarrow>
    \<exists>s'. handle_all env s (send_blocks now later) = Some s' \<and> tidy env cfg (bs @ later) s' \<and>
      (\<forall>c. holds env s c \<longrightarrow> holds env s' c) \<and> holds env s' (chain @ later) \<and>
      follows env s' (if length lead < length (chain @ later) then chain @ later else lead)"
proof (induction seeds arbitrary: bs chain lead s later)
  case Nil
  then show ?case
    using follows_longest [OF tidy_inv [OF Nil.prems(1)] Nil.prems(2,3)] by (auto simp: send_blocks_def)
next
  case (Cons seed seeds)
  note prems = Cons.prems
  have ne: "chain \<noteq> []" using prems(2) by (simp add: holds_def)
  obtain b where b: "create_empty_block env seed chain = Some b"
    and ext: "extend_chain env config (chain @ [b]) seeds = Some (chain @ later)" using prems(5) ne by auto
  obtain rest where later: "later = b # rest" using extend_chain_prefix [OF ext] by auto
  obtain t uuid sk where seed: "seed = (t, uuid, sk)" by (cases seed)
  note inv = tidy_inv [OF prems(1)]
  have c: "testing_rules (hub_config s)" using cfg prems(1) by (simp add: tidy_def)
  have le: "timestamp (last chain) \<le> timestamp b" using prems(7) ne later by (auto simp: sorted_append)
  have t: "timestamp b = t"
    using b ne by (auto simp: create_empty_block_def seed Let_def split: if_splits
        dest!: UnconfirmedBlock_new_Inr(4) dest: try_confirm_block(7))
  have same: "same_adjustment lead chain" using prems(4) later by (auto simp: same_adjustment_def)
  note acc = empty_block_accepted [OF inv c prems(2) b [unfolded seed] le [unfolded t] prems(3) same]
  obtain s1 where s1: "accepts env s b s1" using acc(1) by blast
  have new: "block_id env b \<notin> set (map (block_id env) bs)" using prems(6) later by auto
  then have fresh: "fmlookup (valid_blocks s) (block_id env b) = None"
    using prems(1) by (auto simp: tidy_def fset_of_list_elem intro!: fmdom_notD)
  have now: "timestamp b \<le> now" using prems(8) later by simp
  have en: "enc_message env (Broadcast (BroadcastBlock (block_id env b))) \<noteq> None" using enc by blast
  obtain S where S: "handle env now s (NewBlock None b) = Some (Inr None, with_block env b S s)"
    "tidy env cfg (bs @ [b]) (with_block env b S s)"
    using tidy_new_block [OF env(1) prems(1) s1 empty_block_sound [OF env(2) b] new now en] by blast
  let ?s = "with_block env b S s" and ?lead = "if length lead \<le> length chain then chain @ [b] else lead"
  note inv' = tidy_inv [OF S(2)]
  note new_chain = with_block_extends [OF inv inv' fresh prems(2) acc(2)]
  note new_lead = with_block_follows [OF inv inv' fresh prems(2) acc(2,3) prems(3)]
  have l: "?lead = chain @ [b] \<or> length ((chain @ [b]) @ rest) \<le> 20 \<and> length ?lead < 2 ^ 64"
    using prems(4) later by auto
  have e: "extend_chain env config (chain @ [b]) seeds = Some ((chain @ [b]) @ rest)" using ext later by simp
  have d: "distinct (map (block_id env) ((bs @ [b]) @ rest))" "sorted (map timestamp ((chain @ [b]) @ rest))"
    "\<forall>b \<in> set rest. timestamp b \<le> now"
    using prems(6-8) later by simp_all
  obtain s' where s': "handle_all env ?s (send_blocks now rest) = Some s'" "tidy env cfg ((bs @ [b]) @ rest) s'"
    "\<forall>c. holds env ?s c \<longrightarrow> holds env s' c" "holds env s' ((chain @ [b]) @ rest)"
    "follows env s' (if length ?lead < length ((chain @ [b]) @ rest) then (chain @ [b]) @ rest else ?lead)"
    using Cons.IH [OF S(2) new_chain new_lead l e d] by blast
  have "(if length ?lead < length ((chain @ [b]) @ rest) then (chain @ [b]) @ rest else ?lead) =
      (if length lead < length (chain @ later) then chain @ later else lead)"
    using later by (cases rest) auto
  then show ?case
    using s' S(1) later with_block_holds [OF inv inv' fresh] by (auto simp: send_blocks_def)
qed

text \<open>A new hub holds its genesis block. Blocks it knows are ignored.\<close>

lemma tidy_start:
  assumes "env_ok env" "signatures_verify env" "hub_new env i cfg = Some s"
  shows "\<exists>g. create_genesis_block env cfg = Some g \<and> tidy env cfg [g] s \<and> follows env s [g]"
proof -
  obtain g where g: "create_genesis_block env cfg = Some g"
    and s: "valid_blocks s = fmupd (block_id env g) g fmempty" "genesis_id s = block_id env g"
      "leading_block s = block_id env g" "unconfirmed_blocks s = fmempty" "invalid_blocks s = {||}"
      "next_blocks s = fmempty" "peers s = fmempty" "hub_config s = cfg"
    using assms(3) by (auto simp: hub_new_def Let_def create_genesis_block_def)
  have inv: "hub_inv env s" by (rule hub_new_inv [OF assms])
  have "branch (valid_blocks s) (genesis_id s) = [g]"
    using branch_root [OF hub_inv_blocks [OF inv]] s by simp
  with inv s g show ?thesis by (auto simp: tidy_def follows_def holds_def)
qed

lemma serve_known:
  "tidy env cfg bs s \<Longrightarrow> set known \<subseteq> set bs \<Longrightarrow> handle_all env s (send_blocks now known) = Some s"
proof (induction known)
  case (Cons b known)
  then have "knows_block s (block_id env b)" by (auto simp: tidy_def knows_block_def fset_of_list_elem)
  with Cons show ?case by (simp add: send_blocks_def new_block_def)
qed (simp add: send_blocks_def)

lemma send_blocks_append: "send_blocks now (bs @ bs') = send_blocks now bs @ send_blocks now bs'"
  by (simp add: send_blocks_def)

text \<open>A chain of empty blocks, from genesis on, is taken by a new hub.\<close>

lemma serve_empty_chain:
  assumes env: "env_ok env" "signatures_verify env" "hub_new env i cfg = Some s"
    and cfg: "testing_rules cfg" and enc: "\<forall>i. enc_message env (Broadcast (BroadcastBlock i)) \<noteq> None"
    and chain: "create_empty_chain env cfg seeds = Some chain" "seeds \<noteq> []"
    and ok: "distinct (map (block_id env) chain)" "sorted (map timestamp chain)" "\<forall>b \<in> set chain. timestamp b \<le> now"
  shows "\<exists>s'. handle_all env s (send_blocks now chain) = Some s' \<and> tidy env cfg chain s' \<and> follows env s' chain \<and>
    length chain = length seeds"
proof -
  obtain g where g: "create_genesis_block env cfg = Some g" and td: "tidy env cfg [g] s" and fl: "follows env s [g]"
    using tidy_start [OF env] by blast
  then have h: "holds env s [g]" by (simp add: follows_def)
  obtain seed rest where seeds: "seeds = seed # rest" using chain(2) by (cases seeds) auto
  then have ext: "extend_chain env cfg [g] rest = Some chain" using chain(1) g by (simp add: create_empty_chain_def)
  obtain later where later: "chain = [g] @ later" "length later = length rest" using extend_chain_prefix [OF ext] by auto
  have ok': "distinct (map (block_id env) ([g] @ later))" "sorted (map timestamp ([g] @ later))"
    "\<forall>b \<in> set later. timestamp b \<le> now" using ok later(1) by simp_all
  obtain s' where s': "handle_all env s (send_blocks now later) = Some s'" "tidy env cfg ([g] @ later) s'"
    "follows env s' (if length [g] < length ([g] @ later) then [g] @ later else [g])"
    using serve_chain [OF env(1,2) cfg enc td h fl disjI1 [OF refl] ext [unfolded later(1)] ok'] by blast
  have "(if length [g] < length ([g] @ later) then [g] @ later else [g]) = chain" using later by (cases later) auto
  moreover have "handle_all env s (send_blocks now [g]) = Some s" using serve_known [OF td, of "[g]"] by simp
  ultimately show ?thesis
    using s' later seeds unfolding later(1) send_blocks_append handle_all_append by simp
qed

text \<open>
  The chains of the test \<open>leading_block_with_forks\<close>: a chain, then two forks that leave it four blocks
  below its end; and the test on one hub.
\<close>

definition chains_with_forks ::
    "('sk, 'z) codec_scheme \<Rightarrow> Config \<Rightarrow> 'sk seed list \<Rightarrow> 'sk seed list \<Rightarrow> 'sk seed list \<Rightarrow>
     (Block list \<times> Block list \<times> Block list) option" where
  "chains_with_forks c cfg seeds seeds1 seeds2 = do {
     old_chain \<leftarrow> create_empty_chain c cfg seeds;
     (if length old_chain \<le> 4 then None
      else do {
        fork1 \<leftarrow> extend_chain c cfg (take (length old_chain - 4) old_chain) seeds1;
        fork2 \<leftarrow> extend_chain c cfg (take (length old_chain - 4) old_chain) seeds2;
        Some (old_chain, fork1, fork2) }) }"

definition leading_block_with_forks ::
    "('sk, 'n::linorder, 'st) hub_env \<Rightarrow> Config \<Rightarrow> Timestamp \<Rightarrow> ('n, 'st) hub \<Rightarrow> 'sk seed list \<Rightarrow> 'sk seed list \<Rightarrow>
     'sk seed list \<Rightarrow> (Block list \<times> Block list \<times> Block list \<times> ('n, 'st) hub) option" where
  "leading_block_with_forks env cfg now s seeds seeds1 seeds2 = do {
     (old_chain, fork1, fork2) \<leftarrow> chains_with_forks env cfg seeds seeds1 seeds2;
     s' \<leftarrow> handle_all env s (send_blocks now (old_chain @ fork1 @ fork2));
     Some (old_chain, fork1, fork2, s') }"

lemma serve_fork:
  assumes env: "env_ok env" "signatures_verify env" and cfg: "testing_rules cfg"
    and enc: "\<forall>i. enc_message env (Broadcast (BroadcastBlock i)) \<noteq> None"
    and td: "tidy env cfg bs s" "holds env s kept" "follows env s lead" "set kept \<subseteq> set bs"
    and fork: "extend_chain env cfg kept seeds = Some (kept @ later)" "length (kept @ later) \<le> 20" "length lead \<le> 20"
    and ok: "distinct (map (block_id env) (bs @ later))" "sorted (map timestamp (kept @ later))"
      "\<forall>b \<in> set later. timestamp b \<le> now"
  shows "\<exists>s'. handle_all env s (send_blocks now (kept @ later)) = Some s' \<and> tidy env cfg (bs @ later) s' \<and>
    holds env s' kept \<and> follows env s' (if length lead < length (kept @ later) then kept @ later else lead)"
proof -
  have l: "lead = kept \<or> length (kept @ later) \<le> 20 \<and> length lead < 2 ^ 64" using fork(2,3) by auto
  obtain s' where s': "handle_all env s (send_blocks now later) = Some s'" "tidy env cfg (bs @ later) s'"
    "\<forall>c. holds env s c \<longrightarrow> holds env s' c"
    "follows env s' (if length lead < length (kept @ later) then kept @ later else lead)"
    using serve_chain [OF env cfg enc td(1-3) l fork(1) ok] by blast
  then show ?thesis
    using serve_known [OF td(1,4)] td(2) unfolding send_blocks_append handle_all_append by simp
qed

text \<open>Of chains sent in order, the first of the longest ones leads.\<close>

definition first_longest :: "Block list \<Rightarrow> Block list \<Rightarrow> Block list" where
  "first_longest c1 c2 = (if length c1 < length c2 then c2 else c1)"

lemma follows_confirmed:
  assumes inv: "hub_inv env s" and f: "follows env s chain" "length chain < 2 ^ 64"
  shows "confirmed_chain s = Some chain"
proof -
  have h: "holds env s chain" using f(1) by (simp add: follows_def)
  then have l: "fmlookup (valid_blocks s) (leading_block s) = Some (last chain)"
    "branch (valid_blocks s) (leading_block s) = chain" using f(1) by (simp_all add: follows_def holds_def)
  have "seqno (last chain) \<noteq> - 1" using holds_length [OF inv h] f(2) by (auto simp: unat_max)
  with confirmed_chain_branch [OF hub_inv_blocks [OF inv] l(1)] l(2) show ?thesis by simp
qed

lemma leading_block_with_forks_result:
  assumes env: "env_ok env" "signatures_verify env" "hub_new env i cfg = Some s"
    and cfg: "testing_rules cfg" and enc: "\<forall>i. enc_message env (Broadcast (BroadcastBlock i)) \<noteq> None"
    and old: "create_empty_chain env cfg seeds = Some old" "4 < length seeds" "length seeds \<le> 20"
    and kept: "kept = take (length old - 4) old"
    and forks: "extend_chain env cfg kept seeds1 = Some (kept @ more1)" "length (kept @ more1) \<le> 20"
      "extend_chain env cfg kept seeds2 = Some (kept @ more2)" "length (kept @ more2) \<le> 20"
    and ids: "distinct (map (block_id env) (old @ more1 @ more2))"
    and times: "sorted (map timestamp old)" "sorted (map timestamp (kept @ more1))"
      "sorted (map timestamp (kept @ more2))" "\<forall>b \<in> set (old @ more1 @ more2). timestamp b \<le> now"
  shows "\<exists>s'. leading_block_with_forks env cfg now s seeds seeds1 seeds2 =
      Some (old, kept @ more1, kept @ more2, s') \<and> hub_inv env s' \<and>
    follows env s' (first_longest (first_longest old (kept @ more1)) (kept @ more2))"
proof -
  have "seeds \<noteq> []" using old(2) by auto
  then obtain s1 where s1: "handle_all env s (send_blocks now old) = Some s1" "tidy env cfg old s1" "follows env s1 old"
    and l: "length old = length seeds"
    using serve_empty_chain [OF env cfg enc old(1) _ _ times(1), of now] ids times(4) by auto
  have "length kept \<noteq> 0" using kept l old(2) by simp
  then have ne: "kept \<noteq> []" by auto
  have "holds env s1 (kept @ drop (length old - 4) old)" using s1(3) by (simp add: kept follows_def)
  then have h: "holds env s1 kept" using holds_prefix [OF tidy_inv [OF s1(2)]] ne by blast
  have sub: "set kept \<subseteq> set old" unfolding kept by (rule set_take_subset)
  have d1: "distinct (map (block_id env) (old @ more1))" using ids by auto
  have t1: "\<forall>b \<in> set more1. timestamp b \<le> now" "\<forall>b \<in> set more2. timestamp b \<le> now" using times(4) by auto
  have n: "length old \<le> 20" using l old(3) by simp
  let ?one = "first_longest old (kept @ more1)"
  have n1: "length ?one \<le> 20" using n forks(2) by (simp add: first_longest_def)
  obtain s2 where s2: "handle_all env s1 (send_blocks now (kept @ more1)) = Some s2" "tidy env cfg (old @ more1) s2"
    "holds env s2 kept" "follows env s2 ?one"
    using serve_fork [OF env(1,2) cfg enc s1(2) h s1(3) sub forks(1,2) n d1 times(2) t1(1)]
    unfolding first_longest_def by blast
  have sub2: "set kept \<subseteq> set (old @ more1)" using sub by auto
  have d2: "distinct (map (block_id env) ((old @ more1) @ more2))" using ids by simp
  obtain s3 where s3: "handle_all env s2 (send_blocks now (kept @ more2)) = Some s3" "tidy env cfg ((old @ more1) @ more2) s3"
    "follows env s3 (first_longest ?one (kept @ more2))"
    using serve_fork [OF env(1,2) cfg enc s2(2,3,4) sub2 forks(3,4) n1 d2 times(3) t1(2)]
    unfolding first_longest_def by blast
  have "handle_all env s (send_blocks now (old @ (kept @ more1) @ (kept @ more2))) = Some s3"
    using s1(1) s2(1) s3(1) by (auto simp: send_blocks_append handle_all_append)
  then show ?thesis
    using old(1,2) l forks(1,3) kept tidy_inv [OF s3(2)] s3(3)
    by (simp add: leading_block_with_forks_def chains_with_forks_def)
qed

end
