(* ===== verification/Network.thy ===== *)
theory Network
  imports Hub_Client
begin

text \<open>
  Several nodes and the streams between them as one transition system. A node is its hub, the mailbox
  of the hub, and how far its connections have read the stream of each peer; the stream from one
  node to another is the sequence of bytes the first has written. The nodes run independently: a
  step handles one message of one mailbox, reads one frame of one stream, or puts a message of a
  client into a mailbox.
\<close>

record 'n node =
  node_hub :: "('n, u8 list) hub"
  mailbox :: "('n, u8 list) PeerHubActorMessage list"
  consumed :: "'n \<Rightarrow> nat"

type_synonym 'n net = "'n \<Rightarrow> 'n node"

inductive net_step ::
    "('sk, 'n::linorder, u8 list) hub_env \<Rightarrow> (u8 list \<Rightarrow> 'n RawMessage option) \<Rightarrow> 'n net \<Rightarrow> 'n net \<Rightarrow> bool"
  for env parse where
  deliver: "\<lbrakk>mailbox (net i) = m # ms; handle env now (node_hub (net i)) m = Some (r, s')\<rbrakk> \<Longrightarrow>
    net_step env parse net (net(i := (net i)\<lparr>node_hub := s', mailbox := ms\<rparr>))"
| receive: "\<lbrakk>fmlookup (peers (node_hub (net i))) j = Some sent;
    read_message (drop (consumed (net j) i) sent) = Some (buf, rest);
    transport_decode env parse buf = Some (Inr pm)\<rbrakk> \<Longrightarrow>
    net_step env parse net (net(j := (net j)\<lparr>mailbox := mailbox (net j) @ [peer_cast i pm],
      consumed := (consumed (net j))(i := length sent - length rest)\<rparr>))"
| client: "message_ok env m \<Longrightarrow>
    net_step env parse net (net(i := (net i)\<lparr>mailbox := mailbox (net i) @ [m]\<rparr>))"

abbreviation net_run ::
    "('sk, 'n::linorder, u8 list) hub_env \<Rightarrow> (u8 list \<Rightarrow> 'n RawMessage option) \<Rightarrow> 'n net \<Rightarrow> 'n net \<Rightarrow> bool"
  where "net_run env parse \<equiv> (net_step env parse)\<^sup>*\<^sup>*"

inductive_cases net_stepE: "net_step env parse net net'"

definition net_start :: "('sk, 'n::linorder, u8 list) hub_env \<Rightarrow> Config \<Rightarrow> 'n net \<Rightarrow> bool" where
  "net_start env cfg net \<longleftrightarrow>
     (\<forall>i. hub_start env cfg (node_hub (net i)) \<and> list_all (message_ok env) (mailbox (net i)))"

section \<open>Every node is a hub on its own\<close>

definition node_ok :: "('sk, 'n::linorder, u8 list) hub_env \<Rightarrow> Config \<Rightarrow> 'n node \<Rightarrow> bool" where
  "node_ok env cfg nd \<longleftrightarrow> reachable (hub_start env cfg) (message_ok env) (hub_step env) (node_hub nd) \<and>
     list_all (message_ok env) (mailbox nd)"

lemma net_step_nodes:
  assumes "net_step env parse net net'" "\<forall>i. node_ok env cfg (net i)"
  shows "node_ok env cfg (net' i)"
  using assms(1)
proof (cases rule: net_step.cases)
  case (deliver k m ms now r s')
  have "reachable (hub_start env cfg) (message_ok env) (hub_step env) s'"
    using reachable.handled hub_step.handles [OF deliver(3)] assms(2) deliver(2)
    by (metis list.pred_inject(2) node_ok_def)
  with deliver assms(2) show ?thesis by (auto simp: node_ok_def) (metis list.pred_inject(2))
next
  case (receive k j sent buf rest pm)
  have "message_ok env (peer_cast k pm)" by (rule transport_decode_ok [OF receive(4)])
  with receive assms(2) show ?thesis by (auto simp: node_ok_def)
next
  case (client m k)
  with assms(2) show ?thesis by (auto simp: node_ok_def)
qed

lemma net_run_nodes:
  assumes "net_run env parse net net'" "net_start env cfg net"
  shows "node_ok env cfg (net' i)"
  using assms(1)
proof (induction arbitrary: i rule: rtranclp_induct)
  case base
  with assms(2) show ?case by (simp add: node_ok_def net_start_def reachable.started)
next
  case (step net1 net2)
  then show ?case using net_step_nodes by blast
qed

section \<open>A shared block has a shared history\<close>

text \<open>Two nodes that both hold a block hold the same branch below it, if no two of the blocks they
  hold hash to the same identifier.\<close>

definition no_collision :: "('sk, 'z) codec_scheme \<Rightarrow> BlockMap \<Rightarrow> BlockMap \<Rightarrow> bool" where
  "no_collision c m n \<longleftrightarrow>
     (\<forall>x \<in> fmran' m. \<forall>y \<in> fmran' n. block_id c x = block_id c y \<longrightarrow> x = y)"

lemma same_branch:
  assumes m: "blocks_inv c m g" and n: "blocks_inv c n g" and inj: "no_collision c m n"
    and i: "fmlookup m i = Some b" "fmlookup n i = Some b'"
  shows "branch m i = branch n i"
  using m i
proof (induction arbitrary: b' rule: blocks_induct)
  case (root b)
  have "block_id c b = block_id c b'" using blocks_inv_id [OF m root(1)] blocks_inv_id [OF n root(3)] by simp
  then have "b = b'" using inj root(1,3) by (auto simp: no_collision_def fmran'I)
  then show ?case using branch_root [OF m root(1)] branch_root [OF n root(3)] by simp
next
  case (step i b p)
  have "block_id c b = block_id c b'"
    using blocks_inv_id [OF m step.hyps(1)] blocks_inv_id [OF n step.prems] by simp
  then have b: "b = b'" using inj step.hyps(1) step.prems by (auto simp: no_collision_def fmran'I)
  obtain p' where "fmlookup n (prev_id b') = Some p'"
    using blocks_inv_parent [OF n step.prems step.hyps(2)] by blast
  then have "branch m (prev_id b) = branch n (prev_id b')" using step.IH b by blast
  then show ?case using branch_step [OF m step.hyps(1,2)] branch_step [OF n step.prems step.hyps(2)] b by simp
qed

text \<open>Nodes with one configuration build the same genesis block.\<close>

lemma genesis_fixed:
  assumes "env_ok env" "signatures_verify env"
    and "reachable (hub_start env cfg) (message_ok env) (hub_step env) s"
  shows "\<exists>g. create_genesis env (genesis_difficulty cfg) (genesis_timestamp cfg) (initial_block_subsidy cfg) = Some g \<and>
    genesis_id s = block_id env g"
  using assms(3)
proof (induction rule: reachable.induct)
  case (started s)
  then show ?case by (auto simp: hub_start_def hub_new_def Let_def)
next
  case (handled s m s')
  have "hub_inv env s" using reachable_hub_inv [OF handled.hyps(1) assms(1,2)] .
  then have "keeps env s s'"
    using handle_keeps [OF assms(1) _ handled.hyps(2)] handled.hyps(3) by (auto elim: hub_stepE)
  with handled.IH show ?case by (simp add: keeps_def same_identity_def)
qed

lemma shared_block:
  assumes env: "env_ok env" "signatures_verify env" and run: "net_run env parse net0 net" "net_start env cfg net0"
    and inj: "no_collision env (valid_blocks (node_hub (net i))) (valid_blocks (node_hub (net j)))"
    and held: "fmlookup (valid_blocks (node_hub (net i))) k = Some b" "fmlookup (valid_blocks (node_hub (net j))) k = Some b'"
  shows "hub_inv env (node_hub (net i)) \<and> hub_inv env (node_hub (net j)) \<and>
    branch (valid_blocks (node_hub (net i))) k = branch (valid_blocks (node_hub (net j))) k"
proof -
  have r: "reachable (hub_start env cfg) (message_ok env) (hub_step env) (node_hub (net n))" for n
    using net_run_nodes [OF run] by (simp add: node_ok_def)
  have inv: "hub_inv env (node_hub (net n))" for n by (rule reachable_hub_inv [OF r env])
  have "genesis_id (node_hub (net i)) = genesis_id (node_hub (net j))"
    using genesis_fixed [OF env r [of i]] genesis_fixed [OF env r [of j]] by auto
  with same_branch [OF hub_inv_blocks [OF inv] _ inj held] hub_inv_blocks [OF inv [of j]] inv show ?thesis by auto
qed

section \<open>One message from hub to hub\<close>

text \<open>\<open>link net i j st\<close>: node \<open>i\<close> has written \<open>st\<close> for its peer \<open>j\<close>, who has read all of it.\<close>

definition link :: "'n net \<Rightarrow> 'n \<Rightarrow> 'n \<Rightarrow> u8 list \<Rightarrow> bool" where
  "link net i j st \<longleftrightarrow> fmlookup (peers (node_hub (net i))) j = Some st \<and> consumed (net j) i = length st"

text \<open>\<open>travels env parse pm\<close>: message \<open>pm\<close> fits a frame and is decoded to itself.\<close>

definition travels ::
    "('sk, 'n, 'st) hub_env \<Rightarrow> (u8 list \<Rightarrow> 'n RawMessage option) \<Rightarrow> 'n PeerMessage \<Rightarrow> u8 list \<Rightarrow> bool" where
  "travels env parse pm buf \<longleftrightarrow> enc_message env pm = Some buf \<and> length buf < 2 ^ 32 \<and>
     transport_decode env parse buf = Some (Inr pm)"

definition reliable :: "('sk, 'n, u8 list) hub_env \<Rightarrow> bool" where
  "reliable env \<longleftrightarrow> orders_ok env \<and> write_all env = (\<lambda>st bs. (st @ bs, True)) \<and> flush_stream env = (\<lambda>st. (st, True))"

lemma reliable_write: "reliable env \<Longrightarrow> write_frame env st buf = (st @ frame_bytes buf, True)"
  and reliable_writes_ok: "reliable env \<Longrightarrow> writes_ok env"
  by (simp_all add: reliable_def write_frame_bytes writes_ok_def)

lemma reliable_send:
  assumes "reliable env" "travels env parse pm buf" "fmlookup (peers s) j = Some st"
  shows "send_to_peer env s pm j = (Inr (), s\<lparr>peers := fmupd j (st @ frame_bytes buf) (peers s)\<rparr>)"
  using assms by (simp add: send_to_peer_def reliable_write travels_def)

text \<open>Node \<open>i\<close> handles the head of its mailbox, which writes one frame for \<open>j\<close>; \<open>j\<close> reads it.\<close>

definition sent_to :: "'n net \<Rightarrow> 'n \<Rightarrow> 'n \<Rightarrow> ('n, u8 list) hub \<Rightarrow> 'n PeerMessage \<Rightarrow> nat \<Rightarrow> 'n net" where
  "sent_to net i j s' pm n = net(
     i := (net i)\<lparr>node_hub := s', mailbox := tl (mailbox (net i))\<rparr>,
     j := (net j)\<lparr>mailbox := mailbox (net j) @ [peer_cast i pm], consumed := (consumed (net j))(i := n)\<rparr>)"

lemma send_leg:
  assumes "i \<noteq> j" "mailbox (net i) \<noteq> []" "handle env now (node_hub (net i)) (hd (mailbox (net i))) = Some (r, s')"
    and "link net i j st" "fmlookup (peers s') j = Some (st @ frame_bytes buf)" "travels env parse pm buf"
  shows "net_run env parse net (sent_to net i j s' pm (length (st @ frame_bytes buf)))"
proof -
  let ?net = "net(i := (net i)\<lparr>node_hub := s', mailbox := tl (mailbox (net i))\<rparr>)"
  have "net_step env parse net ?net"
    by (rule net_step.deliver [where i = i and m = "hd (mailbox (net i))" and now = now and r = r])
       (simp_all add: assms(2,3))
  moreover have "net_step env parse ?net (?net(j := (?net j)\<lparr>mailbox := mailbox (?net j) @ [peer_cast i pm],
      consumed := (consumed (?net j))(i := length (st @ frame_bytes buf) - length ([] :: u8 list))\<rparr>))"
  proof (rule net_step.receive)
    show "fmlookup (peers (node_hub (?net i))) j = Some (st @ frame_bytes buf)" using assms(5) by simp
    show "read_message (drop (consumed (?net j) i) (st @ frame_bytes buf)) = Some (buf, [])"
      using assms(1,4,6) read_message_frame [of buf "[]"] by (simp add: link_def travels_def)
    show "transport_decode env parse buf = Some (Inr pm)" using assms(6) by (simp add: travels_def)
  qed
  ultimately show ?thesis using assms(1) by (simp add: sent_to_def)
qed

lemma sent_to_sel [simp]:
  assumes "i \<noteq> j"
  shows "node_hub (sent_to net i j s' pm n i) = s'" "node_hub (sent_to net i j s' pm n j) = node_hub (net j)"
    "mailbox (sent_to net i j s' pm n i) = tl (mailbox (net i))"
    "mailbox (sent_to net i j s' pm n j) = mailbox (net j) @ [peer_cast i pm]"
    "consumed (sent_to net i j s' pm n i) = consumed (net i)"
    "consumed (sent_to net i j s' pm n j) = (consumed (net j))(i := n)"
  using assms by (simp_all add: sent_to_def)

section \<open>A transaction reaches a peer\<close>

text \<open>The messages the exchange of a transaction takes.\<close>

definition transaction_travels ::
    "('sk, 'n, 'st) hub_env \<Rightarrow> (u8 list \<Rightarrow> 'n RawMessage option) \<Rightarrow> Transaction \<Rightarrow> bool" where
  "transaction_travels env parse t \<longleftrightarrow>
     (\<forall>pm \<in> {Broadcast (BroadcastTransaction (txn_id env t)), GetTransactionRequest (txn_id env t),
              GetTransactionResponse t}. \<exists>buf. travels env parse pm buf)"

lemma transaction_reaches_peer:
  assumes ij: "i \<noteq> j" and rel: "reliable env" and tr: "transaction_travels env parse t"
    and links: "link net i j out" "link net j i inn"
    and local: "local_node_id (node_hub (net i)) = i"
    and boxes: "mailbox (net i) = [NewTransaction t]" "mailbox (net j) = []"
    and new: "txn_id env t |\<notin>| fmdom (mempool (node_hub (net i)))" "\<not> knows_transaction (node_hub (net j)) (txn_id env t)"
  shows "\<exists>net'. net_run env parse net net' \<and>
    fmlookup (mempool (node_hub (net' i))) (txn_id env t) = Some t \<and>
    fmlookup (mempool (node_hub (net' j))) (txn_id env t) = Some t"
proof -
  let ?t = "txn_id env t"
  let ?a = "Broadcast (BroadcastTransaction ?t)" and ?q = "GetTransactionRequest ?t" and ?r = "GetTransactionResponse t"
  obtain ba bq br where b: "travels env parse ?a ba" "travels env parse ?q bq" "travels env parse ?r br"
    using tr by (auto simp: transaction_travels_def)
  have orders: "orders_ok env" using rel by (simp add: reliable_def)
  have pooled: "\<exists>m'. new_transaction env s t = Some (Inr None, s\<lparr>peers := m',
      mempool := fmupd ?t t (mempool s), annoucements := fmdrop ?t (annoucements s)\<rparr>) \<and>
    (\<forall>k. k \<noteq> local_node_id s \<longrightarrow>
       fmlookup m' k = map_option (\<lambda>st. st @ frame_bytes ba) (fmlookup (peers s) k))"
    if "?t |\<notin>| fmdom (mempool s)" for s
    using new_transaction_new [OF orders reliable_writes_ok [OF rel] _ that, of ba] b(1)
    by (auto simp: travels_def reliable_write [OF rel])
  let ?si = "node_hub (net i)" and ?sj = "node_hub (net j)"
  obtain m1 where h1: "new_transaction env ?si t = Some (Inr None, ?si\<lparr>peers := m1,
      mempool := fmupd ?t t (mempool ?si), annoucements := fmdrop ?t (annoucements ?si)\<rparr>)"
    and m1: "fmlookup m1 j = Some (out @ frame_bytes ba)"
    using pooled [OF new(1)] ij local links(1) by (auto simp: link_def)
  let ?s1 = "?si\<lparr>peers := m1, mempool := fmupd ?t t (mempool ?si), annoucements := fmdrop ?t (annoucements ?si)\<rparr>"
  let ?n1 = "sent_to net i j ?s1 ?a (length (out @ frame_bytes ba))"
  have run1: "net_run env parse net ?n1"
    using h1 boxes(1) m1 by (intro send_leg [where now = 0 and r = "Inr None", OF ij _ _ links(1) _ b(1)]) simp_all
  let ?s2 = "?sj\<lparr>annoucements := fmupd ?t i (annoucements ?sj), peers := fmupd i (inn @ frame_bytes bq) (peers ?sj)\<rparr>"
  have h2: "announce_transaction env ?sj i ?t = Some (Inr None, ?s2)"
    using new(2) links(2) reliable_send [OF rel b(2), of "?sj\<lparr>annoucements := fmupd ?t i (annoucements ?sj)\<rparr>" i inn]
    by (simp add: announce_transaction_def no_reply_def link_def)
  have link2: "link ?n1 j i inn" using links(2) ij by (simp add: link_def)
  let ?n2 = "sent_to ?n1 j i ?s2 ?q (length (inn @ frame_bytes bq))"
  have run2: "net_run env parse ?n1 ?n2"
    using h2 boxes(2) ij
    by (intro send_leg [where now = 0 and r = "Inr None", OF ij [symmetric] _ _ link2 _ b(2)]) simp_all
  let ?s3 = "?s1\<lparr>peers := fmupd j ((out @ frame_bytes ba) @ frame_bytes br) m1\<rparr>"
  have h3: "get_transaction env ?s1 j ?t = Some (Inr None, ?s3)"
    using reliable_send [OF rel b(3), of ?s1 j "out @ frame_bytes ba"] m1
    by (simp add: get_transaction_def no_reply_def)
  have link3: "link ?n2 i j (out @ frame_bytes ba)" using m1 ij by (simp add: link_def)
  let ?n3 = "sent_to ?n2 i j ?s3 ?r (length ((out @ frame_bytes ba) @ frame_bytes br))"
  have run3: "net_run env parse ?n2 ?n3"
    using h3 boxes(1) ij
    by (intro send_leg [where now = 0 and r = "Inr None", OF ij _ _ link3 _ b(3)]) simp_all
  have box: "mailbox (?n3 j) = [NewTransaction t]" "node_hub (?n3 j) = ?s2" "mempool (node_hub (?n3 i)) = fmupd ?t t (mempool ?si)"
    using boxes ij by simp_all
  obtain m4 where h4: "new_transaction env ?s2 t = Some (Inr None, ?s2\<lparr>peers := m4,
      mempool := fmupd ?t t (mempool ?s2), annoucements := fmdrop ?t (annoucements ?s2)\<rparr>)"
    using pooled [of ?s2] new(2) by (auto simp: knows_transaction_def)
  let ?n4 = "?n3(j := (?n3 j)\<lparr>node_hub := ?s2\<lparr>peers := m4, mempool := fmupd ?t t (mempool ?s2),
      annoucements := fmdrop ?t (annoucements ?s2)\<rparr>, mailbox := []\<rparr>)"
  have run4: "net_step env parse ?n3 ?n4"
    by (rule net_step.deliver [where now = 0 and m = "NewTransaction t" and r = "Inr None"]) (simp_all only: box h4 handle.simps)
  have "net_run env parse net ?n4" using run1 run2 run3 run4 by (meson rtranclp_trans rtranclp.rtrancl_into_rtrancl)
  moreover have "fmlookup (mempool (node_hub (?n4 i))) ?t = Some t" "fmlookup (mempool (node_hub (?n4 j))) ?t = Some t"
    using box(3) ij by simp_all
  ultimately show ?thesis by blast
qed

end
