(* ===== verification/Spread.thy ===== *)
theory Spread
  imports Network Miner Lone_Block
begin

text \<open>
  A block spreads from the node that mined it to a peer whose chain agrees with its own: announced,
  asked for, sent, and taken, after which the two chains agree again.
\<close>

section \<open>Taking one block\<close>

lemma new_block_alone:
  assumes "reliable env" "hub_inv env s" "accepts env s b (with_cash S s)" "unheard env s b" "timestamp b \<le> now"
    and "enc_message env (Broadcast (BroadcastBlock (block_id env b))) = Some buf"
  shows "\<exists>m'. new_block env now s node b = Some (Inr None, with_block env b S s\<lparr>peers := m'\<rparr>) \<and>
    (\<forall>k. k \<noteq> local_node_id s \<longrightarrow>
       fmlookup m' k = map_option (\<lambda>st. st @ frame_bytes buf) (fmlookup (peers s) k))"
proof -
  let ?s = "with_block env b S s"
  obtain m' where "broadcast env ?s (local_node_id ?s) (BroadcastBlock (block_id env b)) = (Inr (), ?s\<lparr>peers := m'\<rparr>)"
    and "\<forall>k. k \<noteq> local_node_id s \<longrightarrow>
       fmlookup m' k = map_option (\<lambda>st. st @ frame_bytes buf) (fmlookup (peers s) k)"
    using broadcast_ok [OF _ reliable_writes_ok [OF assms(1)] assms(6), of ?s "local_node_id ?s"] assms(1)
    by (auto simp: reliable_def reliable_write [OF assms(1)])
  then show ?thesis
    using accepted_alone [OF assms(2-4)] unheard_block [OF assms(4)] leD [OF assms(5)]
    by (intro exI [of _ m']) (simp add: new_block_def after_validation_def no_reply_def)
qed

section \<open>Hubs with the same chain\<close>

definition same_chain :: "('n, 'st) hub \<Rightarrow> ('n, 'st) hub \<Rightarrow> bool" where
  "same_chain s s' \<longleftrightarrow> valid_blocks s' = valid_blocks s \<and> leading_block s' = leading_block s \<and>
     cash_set s' = cash_set s \<and> genesis_id s' = genesis_id s \<and> hub_config s' = hub_config s"

lemma same_chain_with_block:
  assumes "same_chain s s'"
  shows "same_chain (with_block c b S s\<lparr>peers := m\<rparr>) (with_block c b S s'\<lparr>peers := m'\<rparr>)"
proof -
  have eq: "valid_blocks s' = valid_blocks s" "leading_block s' = leading_block s"
    using assms by (simp_all add: same_chain_def)
  have "leading_block (with_block c b S s') = leading_block (with_block c b S s)"
    by (simp add: with_block_def eq cong: option.case_cong if_cong)
  then show ?thesis using assms by (simp add: same_chain_def)
qed

lemma same_chain_streams [simp]:
  "same_chain s (s'\<lparr>peers := m\<rparr>) = same_chain s s'" "same_chain (s\<lparr>peers := m\<rparr>) s' = same_chain s s'"
  by (simp_all add: same_chain_def)

lemma same_chain_difficulty:
  assumes "same_chain s s'"
  shows "expected_difficulty s' b p = expected_difficulty s b p"
proof -
  have eq: "valid_blocks s' = valid_blocks s" "leading_block s' = leading_block s"
    "genesis_id s' = genesis_id s" "hub_config s' = hub_config s"
    using assms by (simp_all add: same_chain_def)
  show ?thesis
    unfolding expected_difficulty_def prev_difficulty_adjusted_block_def confirmed_chain_def
      leading_block_seqno_def eq ..
qed

lemma accepts_same_chain:
  assumes inv: "hub_inv env s" and s': "genesis_id s = genesis_id s'" "same_chain s s'"
    and acc: "accepts env s b (with_cash S s)"
  shows "accepts env s' b (with_cash S s')"
proof -
  have eq: "valid_blocks s' = valid_blocks s" "cash_set s' = cash_set s" "genesis_id s' = genesis_id s"
    "hub_config s' = hub_config s"
    using s' by (simp_all add: same_chain_def)
  obtain prev where prev: "fmlookup (valid_blocks s) (prev_id b) = Some prev" using acc by (auto simp: accepts_def)
  note blocks = hub_inv_blocks [OF inv] and at_genesis = hub_inv_cash [OF inv]
  note here = cash_set_at_replays [OF blocks prev at_genesis]
  have there: "cash_set_at env s' (prev_id b) = (let S = fold apply_block (branch (valid_blocks s) (prev_id b)) (cs_set (cash_set s))
     in Some (Some (cash_set (with_cash S s')), with_cash S s'))"
    using cash_set_at_replays [of env s' "prev_id b"] blocks prev at_genesis eq by simp
  have "with_cash S s = with_cash (fold apply_block (branch (valid_blocks s) (prev_id b)) (cs_set (cash_set s))) s"
    using acc here prev by (auto simp: accepts_def Let_def)
  from arg_cong [OF this, of "\<lambda>s. cs_set (cash_set s)"]
  have "S = fold apply_block (branch (valid_blocks s) (prev_id b)) (cs_set (cash_set s))" by simp
  then show ?thesis
    using acc here there eq same_chain_difficulty [OF s'(2)] by (auto simp: accepts_def Let_def)
qed

section \<open>A block reaches a peer\<close>

definition block_travels ::
    "('sk, 'n, 'st) hub_env \<Rightarrow> (u8 list \<Rightarrow> 'n RawMessage option) \<Rightarrow> 'n \<Rightarrow> Block \<Rightarrow> bool" where
  "block_travels env parse i b \<longleftrightarrow>
     (\<forall>pm \<in> {Broadcast (BroadcastBlock (block_id env b)), GetBlockRequest (block_id env b),
              GetBlockResponse i b}. \<exists>buf. travels env parse pm buf)"

lemma block_reaches_peer:
  assumes ij: "i \<noteq> j" and rel: "reliable env" and tr: "block_travels env parse i b"
    and links: "link net i j out" "link net j i inn"
    and local: "local_node_id (node_hub (net i)) = i"
    and inv: "hub_inv env (node_hub (net i))" "hub_inv env (node_hub (net j))"
    and same: "same_chain (node_hub (net i)) (node_hub (net j))"
    and boxes: "mailbox (net i) = [NewBlock None b]" "mailbox (net j) = []"
    and new: "unheard env (node_hub (net i)) b" "unheard env (node_hub (net j)) b"
    and acc: "accepts env (node_hub (net i)) b (with_cash S (node_hub (net i)))"
  shows "\<exists>net' m m'. net_run env parse net net' \<and>
    node_hub (net' i) = with_block env b S (node_hub (net i))\<lparr>peers := m\<rparr> \<and>
    node_hub (net' j) = with_block env b S (node_hub (net j))\<lparr>peers := m'\<rparr>"
proof -
  let ?b = "block_id env b"
  let ?a = "Broadcast (BroadcastBlock ?b)" and ?q = "GetBlockRequest ?b" and ?r = "GetBlockResponse i b"
  obtain ba bq br where tb: "travels env parse ?a ba" "travels env parse ?q bq" "travels env parse ?r br"
    using tr by (auto simp: block_travels_def)
  let ?si = "node_hub (net i)" and ?sj = "node_hub (net j)"
  have enc: "enc_message env ?a = Some ba" using tb(1) by (simp add: travels_def)
  obtain m1 where h1: "new_block env (timestamp b) ?si None b = Some (Inr None, with_block env b S ?si\<lparr>peers := m1\<rparr>)"
    and m1: "fmlookup m1 j = Some (out @ frame_bytes ba)"
    using new_block_alone [OF rel inv(1) acc new(1) order_refl enc, of None] ij local links(1) by (auto simp: link_def)
  let ?s1 = "with_block env b S ?si\<lparr>peers := m1\<rparr>"
  let ?n1 = "sent_to net i j ?s1 ?a (length (out @ frame_bytes ba))"
  have run1: "net_run env parse net ?n1"
    using h1 boxes(1) m1
    by (intro send_leg [where now = "timestamp b" and r = "Inr None", OF ij _ _ links(1) _ tb(1)]) simp_all
  let ?s2 = "?sj\<lparr>peers := fmupd i (inn @ frame_bytes bq) (peers ?sj)\<rparr>"
  have h2: "announce_block env ?sj i ?b = Some (Inr None, ?s2)"
    using unheard_block(3) [OF new(2)] links(2) reliable_send [OF rel tb(2), of ?sj i inn]
    by (simp add: announce_block_def no_reply_def link_def)
  have link2: "link ?n1 j i inn" using links(2) ij by (simp add: link_def)
  let ?n2 = "sent_to ?n1 j i ?s2 ?q (length (inn @ frame_bytes bq))"
  have run2: "net_run env parse ?n1 ?n2"
    using h2 boxes(2) ij
    by (intro send_leg [where now = 0 and r = "Inr None", OF ij [symmetric] _ _ link2 _ tb(2)]) simp_all
  let ?s3 = "?s1\<lparr>peers := fmupd j ((out @ frame_bytes ba) @ frame_bytes br) m1\<rparr>"
  have h3: "get_block env ?s1 j ?b = Some (Inr None, ?s3)"
    using reliable_send [OF rel tb(3), of ?s1 j "out @ frame_bytes ba"] m1 local
    by (simp add: get_block_def no_reply_def)
  have link3: "link ?n2 i j (out @ frame_bytes ba)" using m1 ij by (simp add: link_def)
  let ?n3 = "sent_to ?n2 i j ?s3 ?r (length ((out @ frame_bytes ba) @ frame_bytes br))"
  have run3: "net_run env parse ?n2 ?n3"
    using h3 boxes(1) ij
    by (intro send_leg [where now = 0 and r = "Inr None", OF ij _ _ link3 _ tb(3)]) simp_all
  have box: "mailbox (?n3 j) = [NewBlock (Some i) b]" "node_hub (?n3 j) = ?s2" "node_hub (?n3 i) = ?s3"
    using boxes ij by simp_all
  have "PEER_SIZE_LIMIT \<ge> fcard (fmdom (peers ?s2))" 
    using inv(2) links(2) by (simp add: hub_inv_def link_def finsert_absorb fmdomI)
  then have inv2: "hub_inv env ?s2" using inv(2) by (simp add: hub_inv_def)
  have acc2: "accepts env ?s2 b (with_cash S ?s2)"
    using accepts_same_chain [OF inv(1) _ _ acc, of ?s2] same by (simp add: same_chain_def)
  have new2: "unheard env ?s2 b" using new(2) by (simp add: unheard_def)
  obtain m4 where h4: "new_block env (timestamp b) ?s2 (Some i) b = Some (Inr None, with_block env b S ?s2\<lparr>peers := m4\<rparr>)"
    using new_block_alone [OF rel inv2 acc2 new2 order_refl enc] by blast
  let ?n4 = "?n3(j := (?n3 j)\<lparr>node_hub := with_block env b S ?s2\<lparr>peers := m4\<rparr>, mailbox := []\<rparr>)"
  have run4: "net_step env parse ?n3 ?n4"
    by (rule net_step.deliver [where now = "timestamp b" and m = "NewBlock (Some i) b" and r = "Inr None"])
       (simp_all only: box h4 handle.simps)
  have "net_run env parse net ?n4" using run1 run2 run3 run4 by (meson rtranclp_trans rtranclp.rtrancl_into_rtrancl)
  moreover have "node_hub (?n4 i) = with_block env b S ?si\<lparr>peers := fmupd j ((out @ frame_bytes ba) @ frame_bytes br) m1\<rparr>"
    using box(3) ij by simp
  moreover have "node_hub (?n4 j) = with_block env b S ?sj\<lparr>peers := m4\<rparr>"
    using box ij by (simp add: with_block_streams)
  ultimately show ?thesis by blast
qed

text \<open>Both nodes follow a block mined on the leading block of one of them.\<close>

lemma mined_block_reaches_peer:
  assumes "i \<noteq> j" "reliable env" "block_travels env parse i b" "link net i j out" "link net j i inn"
    and "local_node_id (node_hub (net i)) = i"
    and inv: "hub_inv env (node_hub (net i))" "hub_inv env (node_hub (net j))"
    and same: "same_chain (node_hub (net i)) (node_hub (net j))"
    and "mailbox (net i) = [NewBlock None b]" "mailbox (net j) = []"
    and "unheard env (node_hub (net i)) b" "unheard env (node_hub (net j)) b"
    and mined: "mine_on env now uuid sk (node_hub (net i)) = Some (Inr b)"
    and l: "fmlookup (valid_blocks (node_hub (net i))) (leading_block (node_hub (net i))) = Some l" "timestamp l \<le> now"
    and spends: "\<forall>t \<in> set (transactions b).
      set (inputs t) \<subseteq> fset (unspent (branch (valid_blocks (node_hub (net i))) (leading_block (node_hub (net i)))))"
  shows "\<exists>net'. net_run env parse net net' \<and> same_chain (node_hub (net' i)) (node_hub (net' j)) \<and>
    leading_block (node_hub (net' i)) = block_id env b \<and> leading_block (node_hub (net' j)) = block_id env b \<and>
    height b = Suc (height l)"
proof -
  let ?si = "node_hub (net i)" and ?sj = "node_hub (net j)"
  obtain s1 where "accepts env ?si b s1" and h: "height b = Suc (height l)"
    using mined_block_accepted [OF inv(1) mined l spends] by blast
  then obtain S where acc: "accepts env ?si b (with_cash S ?si)" using accepts_with_cash by blast
  obtain net' m m' where net': "net_run env parse net net'"
    "node_hub (net' i) = with_block env b S ?si\<lparr>peers := m\<rparr>" "node_hub (net' j) = with_block env b S ?sj\<lparr>peers := m'\<rparr>"
    using block_reaches_peer [OF assms(1-13) acc] by blast
  have "leading_block (node_hub (net' i)) = block_id env b" using net'(2) l(1) h by (simp add: with_block_def)
  moreover have chains: "same_chain (node_hub (net' i)) (node_hub (net' j))"
    unfolding net'(2,3) by (rule same_chain_with_block [OF same])
  moreover from calculation have "leading_block (node_hub (net' j)) = block_id env b" by (simp add: same_chain_def)
  ultimately show ?thesis using net'(1) h by blast
qed

end
