(* ===== verification/Peer_Watcher.thy ===== *)
theory Peer_Watcher
  imports Hub_Client
begin

text \<open>
  The two tasks that connect a node to others (\<open>src/src/new_peer_watcher.rs\<close>): the subscriber dials
  the nodes that discovery finds, the listener accepts connections. Both tell the hub of a new
  connection and run a \<open>Peer\<close> on it if the hub takes it. The endpoint is not part of the
  repository: what it answers (a connection, an error, the bytes of the other side) comes with the
  events. The hub handles messages of others between two calls of a task; \<open>runs\<close> tells whether it still
  runs: a message that ends with an error stops it, and then every call of it fails.
\<close>

datatype watch_error =
    DiscoveryEnded
  | EndpointClosed
  | StreamFailed
  | HandshakeTooShort
  | BadNodeId
  | HubCallFailed

section \<open>The subscriber\<close>

record 'n subscriber =
  known_ids :: "'n fset"
  sub_tasks :: "'n list"

text \<open>The iteration for an item of the stream up to the connection: the node to dial, if any.\<close>

definition found_peer ::
    "('sk, 'n::linorder, 'st) hub_env \<Rightarrow> bool \<Rightarrow> Timestamp \<Rightarrow> 'n option \<Rightarrow> 'n subscriber \<Rightarrow> ('n, 'st) hub \<Rightarrow>
     ((watch_error + 'n option) \<times> 'n subscriber \<times> ('n, 'st) hub) option" where
  "found_peer env runs now item w s =
     (case item of
        None \<Rightarrow> Some (Inl DiscoveryEnded, w, s)
      | Some node_id \<Rightarrow>
          if node_id |\<in>| known_ids w then Some (Inr None, w, s)
          else do {
            let w1 = w\<lparr>known_ids := finsert node_id (known_ids w)\<rparr>;
            (r, s1) \<leftarrow> ask env runs now s (ShouldConnect node_id True) bool_of;
            Some (case r of
                Inl _ \<Rightarrow> (Inl HubCallFailed, w1, s1)
              | Inr wanted \<Rightarrow> (Inr (if wanted then Some node_id else None), w1, s1)) })"

text \<open>What \<open>connect\<close> and \<open>open_bi\<close> answer: an error each, or the send stream.\<close>

datatype 'st dialled = ConnectFailed | OpenFailed | Opened 'st

definition dial_peer ::
    "('sk, 'n::linorder, 'st) hub_env \<Rightarrow> bool \<Rightarrow> Timestamp \<Rightarrow> u8 list \<Rightarrow> 'st dialled \<Rightarrow> 'n \<Rightarrow> 'n subscriber \<Rightarrow>
     ('n, 'st) hub \<Rightarrow> ((watch_error + unit) \<times> 'n subscriber \<times> ('n, 'st) hub) option" where
  "dial_peer env runs now own_id conn node_id w s =
     (case conn of
        ConnectFailed \<Rightarrow> Some (Inr (), w, s)
      | OpenFailed \<Rightarrow> Some (Inl StreamFailed, w, s)
      | Opened tx \<Rightarrow>
          (case write_all env tx own_id of
             (tx1, False) \<Rightarrow> Some (Inl StreamFailed, w, s)
           | (tx1, True) \<Rightarrow>
               (case flush_stream env tx1 of
                  (tx2, False) \<Rightarrow> Some (Inl StreamFailed, w, s)
                | (tx2, True) \<Rightarrow> do {
                    (r, s1) \<leftarrow> ask env runs now s (NewPeer node_id tx2 True True) bool_of;
                    Some (case r of
                        Inl _ \<Rightarrow> (Inl HubCallFailed, w, s1)
                      | Inr not_exist \<Rightarrow>
                          (Inr (), if not_exist then w\<lparr>sub_tasks := node_id # sub_tasks w\<rparr> else w, s1)) })))"

text \<open>
  The events of the loop: an item with the times of the two calls, the messages the hub handles
  between them and the answer of the endpoint; the end of a \<open>Peer\<close>; a message of the hub from others.
\<close>

datatype ('n, 'st) watch_event =
    Item Timestamp "'n option" "(Timestamp \<times> ('n, 'st) PeerHubActorMessage) list" Timestamp "'st dialled"
  | TaskFinished 'n
  | Elsewhere Timestamp "('n, 'st) PeerHubActorMessage"

text \<open>The nodes dialled, in order, and the error that ended the loop, if one did.\<close>

fun subscriber_run ::
    "('sk, 'n::linorder, 'st) hub_env \<Rightarrow> u8 list \<Rightarrow> bool \<Rightarrow> 'n subscriber \<Rightarrow> ('n, 'st) hub \<Rightarrow>
     ('n, 'st) watch_event list \<Rightarrow>
     ('n list \<times> watch_error option \<times> 'n subscriber \<times> ('n, 'st) hub) option" where
  "subscriber_run env own_id runs w s [] = Some ([], None, w, s)"
| "subscriber_run env own_id runs w s (TaskFinished n # es) =
     subscriber_run env own_id runs (w\<lparr>sub_tasks := remove1 n (sub_tasks w)\<rparr>) s es"
| "subscriber_run env own_id runs w s (Elsewhere now m # es) = do {
     (runs1, s1) \<leftarrow> served env runs s [(now, m)];
     subscriber_run env own_id runs1 w s1 es }"
| "subscriber_run env own_id runs w s (Item now1 item between now2 conn # es) = do {
     (r, w1, s1) \<leftarrow> found_peer env runs now1 item w s;
     (case r of
        Inl e \<Rightarrow> Some ([], Some e, w1, s1)
      | Inr None \<Rightarrow> subscriber_run env own_id runs w1 s1 es
      | Inr (Some node_id) \<Rightarrow> do {
          (runs2, s2) \<leftarrow> served env runs s1 between;
          (r2, w2, s3) \<leftarrow> dial_peer env runs2 now2 own_id conn node_id w1 s2;
          (case r2 of
             Inl e \<Rightarrow> Some ([node_id], Some e, w2, s3)
           | Inr _ \<Rightarrow> map_option (\<lambda>(ids, rest). (node_id # ids, rest))
                        (subscriber_run env own_id runs2 w2 s3 es)) }) }"

section \<open>The listener\<close>

text \<open>
  What \<open>accept\<close> and the steps after it answer: the endpoint is closed; the connection fails before
  or during the handshake; it opens no stream; or it opens one, with the bytes it will deliver.
\<close>

datatype 'st incoming = NoMoreConnections | ConnectionError | NoStream | Accepted_stream 'st "u8 list"

text \<open>The running \<open>Peer\<close>s, with the bytes still to come on each.\<close>

type_synonym 'n listener_tasks = "('n \<times> u8 list) list"

definition listen_once ::
    "('sk, 'n::linorder, 'st) hub_env \<Rightarrow> (u8 list \<Rightarrow> 'n option) \<Rightarrow> bool \<Rightarrow> Timestamp \<Rightarrow> 'st incoming \<Rightarrow>
     'n listener_tasks \<Rightarrow> ('n, 'st) hub \<Rightarrow>
     ((watch_error + unit) \<times> 'n listener_tasks \<times> ('n, 'st) hub) option" where
  "listen_once env id_from_bytes runs now pending tasks s =
     (case pending of
        NoMoreConnections \<Rightarrow> Some (Inl EndpointClosed, tasks, s)
      | ConnectionError \<Rightarrow> Some (Inr (), tasks, s)
      | NoStream \<Rightarrow> Some (Inl StreamFailed, tasks, s)
      | Accepted_stream tx bytes \<Rightarrow>
          (case read_exact 32 bytes of
             None \<Rightarrow> Some (Inl HandshakeTooShort, tasks, s)
           | Some (node_id_buf, rx) \<Rightarrow>
               (case id_from_bytes node_id_buf of
                  None \<Rightarrow> Some (Inl BadNodeId, tasks, s)
                | Some node_id \<Rightarrow> do {
                    (r, s1) \<leftarrow> ask env runs now s (NewPeer node_id tx False True) bool_of;
                    Some (case r of
                        Inl _ \<Rightarrow> (Inl HubCallFailed, tasks, s1)
                      | Inr not_exist \<Rightarrow>
                          (Inr (), if not_exist then (node_id, rx) # tasks else tasks, s1)) })))"

text \<open>
  The events of its loop: a connection (or none) from the endpoint, the end of the \<open>i\<close>-th \<open>Peer\<close>, a message
  that the hub handles from others. The loop stops at the first error.
\<close>

datatype ('n, 'st) listen_event =
    Incoming Timestamp "'st incoming"
  | PeerFinished nat
  | HubHandles Timestamp "('n, 'st) PeerHubActorMessage"

fun listener_run ::
    "('sk, 'n::linorder, 'st) hub_env \<Rightarrow> (u8 list \<Rightarrow> 'n option) \<Rightarrow> bool \<Rightarrow> 'n listener_tasks \<Rightarrow>
     ('n, 'st) hub \<Rightarrow> ('n, 'st) listen_event list \<Rightarrow>
     (watch_error option \<times> bool \<times> 'n listener_tasks \<times> ('n, 'st) hub) option" where
  "listener_run env id_from_bytes runs tasks s [] = Some (None, runs, tasks, s)"
| "listener_run env id_from_bytes runs tasks s (PeerFinished i # es) =
     listener_run env id_from_bytes runs (take i tasks @ drop (Suc i) tasks) s es"
| "listener_run env id_from_bytes runs tasks s (HubHandles now m # es) = do {
     (runs1, s1) \<leftarrow> served env runs s [(now, m)];
     listener_run env id_from_bytes runs1 tasks s1 es }"
| "listener_run env id_from_bytes runs tasks s (Incoming now pending # es) = do {
     (r, tasks1, s1) \<leftarrow> listen_once env id_from_bytes runs now pending tasks s;
     (case r of
        Inl e \<Rightarrow> Some (Some e, runs, tasks1, s1)
      | Inr _ \<Rightarrow> listener_run env id_from_bytes runs tasks1 s1 es) }"

section \<open>What a step of a task does\<close>

definition takes_peer :: "('n::linorder, 'st) hub \<Rightarrow> 'n \<Rightarrow> bool \<Rightarrow> bool" where
  "takes_peer s n connecting \<longleftrightarrow> fcard (fmdom (peers s)) < PEER_SIZE_LIMIT \<and>
     (n |\<in>| fmdom (peers s) \<longrightarrow> (local_node_id s < n) = connecting)"

lemma call_should_connect [simp]:
  "call env now s (ShouldConnect n True) bool_of = Some (Inr (should_connect s n), s)"
  by (simp add: call_def send_reply_def)

lemma call_new_peer [simp]:
  "call env now s (NewPeer n tx c True) bool_of =
     Some (if takes_peer s n c then (Inr True, s\<lparr>peers := fmupd n tx (peers s)\<rparr>) else (Inr False, s))"
  by (auto simp: call_def send_reply_def new_peer_def takes_peer_def not_le)

lemma ask_should_connect [simp]:
  "ask env runs now s (ShouldConnect n True) bool_of = Some (if runs then Inr (should_connect s n) else Inl CallFailed, s)"
  by (simp add: ask_def)

lemma ask_new_peer [simp]:
  "ask env runs now s (NewPeer n tx c True) bool_of =
     Some (if \<not> runs then (Inl CallFailed, s)
           else if takes_peer s n c then (Inr True, s\<lparr>peers := fmupd n tx (peers s)\<rparr>) else (Inr False, s))"
  by (simp add: ask_def)

lemma found_peer_result:
  assumes "found_peer env runs now item w s = Some (r, w', s')"
  shows "s' = s \<and> sub_tasks w' = sub_tasks w \<and>
    (case item of
       None \<Rightarrow> r = Inl DiscoveryEnded \<and> w' = w
     | Some n \<Rightarrow> w' = w\<lparr>known_ids := finsert n (known_ids w)\<rparr> \<and>
         (if runs \<or> n |\<in>| known_ids w then r = Inr (if n |\<notin>| known_ids w \<and> should_connect s n then Some n else None)
          else r = Inl HubCallFailed))"
  using assms by (auto simp: found_peer_def Let_def finsert_absorb split: option.splits if_splits)

lemma dial_peer_result:
  assumes "dial_peer env runs now own_id conn n w s = Some (r, w', s')"
  shows "known_ids w' = known_ids w \<and>
    ((s' = s \<and> w' = w) \<or>
     (\<exists>tx. takes_peer s n True \<and> s' = s\<lparr>peers := fmupd n tx (peers s)\<rparr> \<and>
        w' = w\<lparr>sub_tasks := n # sub_tasks w\<rparr>))"
  using assms by (auto simp: dial_peer_def split: dialled.splits prod.splits bool.splits if_splits)

lemma registered_keeps: "keeps env s s' \<Longrightarrow> n |\<in>| fmdom (peers s) \<Longrightarrow> n |\<in>| fmdom (peers s')"
  by (auto simp: keeps_def same_identity_def)

lemma dial_peer_keeps:
  assumes "hub_inv env s" "dial_peer env runs now own_id conn n w s = Some (r, w', s')"
  shows "hub_inv env s' \<and> keeps env s s'"
proof -
  have "new_peer s n tx True True = Some (Inr (Some (BoolReply True)), s\<lparr>peers := fmupd n tx (peers s)\<rparr>)"
    if "takes_peer s n True" for tx
    using that by (auto simp: takes_peer_def new_peer_def send_reply_def)
  then show ?thesis
    using dial_peer_result [OF assms(2)] assms(1) new_peer_inv new_peer_keeps by fastforce
qed

section \<open>Runs of the subscriber\<close>

fun event_ok :: "('sk, 'z) codec_scheme \<Rightarrow> ('n, 'st) watch_event \<Rightarrow> bool" where
  "event_ok c (Item _ _ between _ _) = list_all (\<lambda>(now, m). message_ok c m) between"
| "event_ok c (TaskFinished _) = True"
| "event_ok c (Elsewhere _ m) = message_ok c m"

text \<open>Every running \<open>Peer\<close> belongs to a registered peer, in every state of a run.\<close>

definition subscriber_inv :: "('sk, 'n, 'st) hub_env \<Rightarrow> 'n subscriber \<Rightarrow> ('n, 'st) hub \<Rightarrow> bool" where
  "subscriber_inv env w s \<longleftrightarrow> hub_inv env s \<and> set (sub_tasks w) \<subseteq> fset (fmdom (peers s))"

text \<open>From \<open>(w, s)\<close> to \<open>(w', s')\<close> the nodes \<open>ids\<close> were dialled: all new, each once.\<close>

definition dials ::
    "('sk, 'n, 'st) hub_env \<Rightarrow> 'n subscriber \<Rightarrow> ('n, 'st) hub \<Rightarrow> 'n list \<Rightarrow> 'n subscriber \<Rightarrow>
     ('n, 'st) hub \<Rightarrow> bool" where
  "dials env w s ids w' s' \<longleftrightarrow> distinct ids \<and> set ids \<inter> fset (known_ids w) = {} \<and>
     set ids \<union> fset (known_ids w) \<subseteq> fset (known_ids w') \<and> subscriber_inv env w' s' \<and> keeps env s s'"

lemma dials_refl: "subscriber_inv env w s \<Longrightarrow> dials env w s [] w s"
  by (simp add: dials_def)

lemma dials_skip:
  "dials env w1 s1 ids w' s' \<Longrightarrow> fset (known_ids w) \<subseteq> fset (known_ids w1) \<Longrightarrow> keeps env s s1 \<Longrightarrow>
     dials env w s ids w' s'"
  using keeps_trans [of env s s1 s'] unfolding dials_def by blast

lemma dials_one:
  assumes d: "dials env w1 s1 ids w' s'" and new: "known_ids w1 = finsert n (known_ids w)" "n |\<notin>| known_ids w"
    and k: "keeps env s s1"
  shows "dials env w s (n # ids) w' s'"
proof -
  have "distinct ids" "set ids \<inter> insert n (fset (known_ids w)) = {}"
    "set ids \<union> insert n (fset (known_ids w)) \<subseteq> fset (known_ids w')"
    using d unfolding dials_def new(1) by simp_all
  then have "distinct (n # ids)" "set (n # ids) \<inter> fset (known_ids w) = {}"
    "set (n # ids) \<union> fset (known_ids w) \<subseteq> fset (known_ids w')"
    using new(2) by simp_all
  moreover have "keeps env s1 s'" using d by (simp add: dials_def)
  moreover from keeps_trans [OF k this] have "keeps env s s'" .
  ultimately show ?thesis using d unfolding dials_def by blast
qed

lemma subscriber_inv_keeps:
  "subscriber_inv env w s \<Longrightarrow> hub_inv env s1 \<Longrightarrow> keeps env s s1 \<Longrightarrow> set (sub_tasks w1) \<subseteq> set (sub_tasks w) \<Longrightarrow>
     subscriber_inv env w1 s1"
  using registered_keeps [of env s s1] by (auto simp: subscriber_inv_def)

lemma dial_peer_inv:
  assumes "subscriber_inv env w s" "dial_peer env runs now own_id conn n w s = Some (r, w', s')"
  shows "subscriber_inv env w' s'" "keeps env s s'" "known_ids w' = known_ids w"
  using dial_peer_result [OF assms(2)] dial_peer_keeps [OF _ assms(2)] assms(1)
  by (auto simp: subscriber_inv_def)

lemma subscriber_run_item:
  assumes env: "env_ok env" and inv: "subscriber_inv env w s"
    and between: "list_all (\<lambda>(now, m). message_ok env m) between"
    and run: "subscriber_run env own_id runs w s (Item now1 item between now2 conn # es) = Some (ids, stop, w', s')"
    and rest: "\<And>runs1 w1 s1 ids. subscriber_inv env w1 s1 \<Longrightarrow>
      subscriber_run env own_id runs1 w1 s1 es = Some (ids, stop, w', s') \<Longrightarrow> dials env w1 s1 ids w' s'"
  shows "dials env w s ids w' s'"
proof -
  obtain r w1 s1 where f: "found_peer env runs now1 item w s = Some (r, w1, s1)" using run by auto
  note fr = found_peer_result [OF f]
  have inv1: "subscriber_inv env w1 s" using inv fr by (simp add: subscriber_inv_def)
  have more: "fset (known_ids w) \<subseteq> fset (known_ids w1)" using fr by (auto split: option.splits)
  consider (stopped) e where "r = Inl e" | (skipped) "r = Inr None" | (dialling) n where "r = Inr (Some n)"
    by (metis sum.exhaust option.exhaust)
  then show ?thesis
  proof cases
    case stopped
    then have "dials env w1 s ids w' s'" using run f fr dials_refl [OF inv1] by auto
    then show ?thesis by (rule dials_skip [OF _ more]) simp
  next
    case skipped
    then have "dials env w1 s ids w' s'" using run f fr rest [OF inv1] by auto
    then show ?thesis by (rule dials_skip [OF _ more]) simp
  next
    case (dialling n)
    then have n: "known_ids w1 = finsert n (known_ids w)" "n |\<notin>| known_ids w"
      using fr by (auto split: option.splits if_splits)
    obtain runs2 s2 r2 w2 s3 where b: "served env runs s between = Some (runs2, s2)"
      and d: "dial_peer env runs2 now2 own_id conn n w1 s2 = Some (r2, w2, s3)"
      using run f fr dialling by auto
    have k: "hub_inv env s2" "keeps env s s2"
      using served_keeps [OF env _ between b] inv by (auto simp: subscriber_inv_def)
    have inv2: "subscriber_inv env w1 s2" by (rule subscriber_inv_keeps [OF inv1 k]) simp
    note d2 = dial_peer_inv [OF inv2 d]
    have known: "known_ids w2 = finsert n (known_ids w)" using d2(3) n by simp
    have kept: "keeps env s s3" using keeps_trans k(2) d2(2) by blast
    show ?thesis
    proof (cases r2)
      case (Inl e)
      then have "ids = [n]" "w' = w2" "s' = s3" using run f fr dialling b d by auto
      then show ?thesis using dials_one [OF dials_refl [OF d2(1)] known n(2) kept] by simp
    next
      case (Inr u)
      then obtain more where "ids = n # more" "subscriber_run env own_id runs2 w2 s3 es = Some (more, stop, w', s')"
        using run f fr dialling b d by auto
      then show ?thesis using dials_one [OF rest [OF d2(1)] known n(2) kept] by simp
    qed
  qed
qed

lemma subscriber_run_dials:
  assumes env: "env_ok env"
  shows "subscriber_inv env w s \<Longrightarrow> list_all (event_ok env) es \<Longrightarrow>
    subscriber_run env own_id runs w s es = Some (ids, stop, w', s') \<Longrightarrow> dials env w s ids w' s'"
proof (induction es arbitrary: runs w s ids)
  case Nil
  then show ?case by (auto intro: dials_refl)
next
  case (Cons e es)
  show ?case
  proof (cases e)
    case (Item now1 item between now2 conn)
    show ?thesis
      using subscriber_run_item [OF env Cons.prems(1), of between own_id runs now1 item now2 conn es ids stop w' s']
        Cons Item by auto
  next
    case (TaskFinished n)
    have "subscriber_inv env (w\<lparr>sub_tasks := remove1 n (sub_tasks w)\<rparr>) s"
      using Cons.prems(1) set_remove1_subset [of n "sub_tasks w"] by (auto simp: subscriber_inv_def)
    then have "dials env (w\<lparr>sub_tasks := remove1 n (sub_tasks w)\<rparr>) s ids w' s'"
      using Cons TaskFinished by simp
    then show ?thesis by (rule dials_skip) simp_all
  next
    case (Elsewhere now m)
    then obtain runs1 s1 where h: "served env runs s [(now, m)] = Some (runs1, s1)"
      and run: "subscriber_run env own_id runs1 w s1 es = Some (ids, stop, w', s')" using Cons.prems by auto
    have k: "hub_inv env s1" "keeps env s s1"
      using served_keeps [OF env _ _ h] Cons.prems Elsewhere by (auto simp: subscriber_inv_def)
    have "dials env w s1 ids w' s'"
      using Cons.IH [OF subscriber_inv_keeps [OF Cons.prems(1) k] _ run] Cons.prems(2) by simp
    then show ?thesis by (rule dials_skip) (simp_all add: k(2))
  qed
qed

section \<open>A node with all its peers\<close>

text \<open>Peers are never removed, so a node that has reached the limit keeps the same peers for ever.\<close>

lemma full_node_keeps_peers:
  assumes "env_ok env" "hub_inv env s" "fcard (fmdom (peers s)) = PEER_SIZE_LIMIT"
    and "list_all (\<lambda>(now, m). message_ok env m) ms" "handle_all env s ms = Some s'"
  shows "fmdom (peers s') = fmdom (peers s)"
proof -
  have "hub_inv env s'" "keeps env s s'" using handle_all_keeps [OF assms(1,2,4,5)] by auto
  then have "fcard (fmdom (peers s')) \<le> fcard (fmdom (peers s))" "fmdom (peers s) |\<subseteq>| fmdom (peers s')"
    using assms(3) by (auto simp: hub_inv_def keeps_def same_identity_def)
  then show ?thesis using fcard_seteq by metis
qed

section \<open>Errors of the listener\<close>

text \<open>The events that end the loop of the listener.\<close>

fun fatal :: "(u8 list \<Rightarrow> 'n option) \<Rightarrow> 'st incoming \<Rightarrow> watch_error option" where
  "fatal id_from_bytes NoMoreConnections = Some EndpointClosed"
| "fatal id_from_bytes ConnectionError = None"
| "fatal id_from_bytes NoStream = Some StreamFailed"
| "fatal id_from_bytes (Accepted_stream tx bytes) =
     (if length bytes < 32 then Some HandshakeTooShort
      else if id_from_bytes (take 32 bytes) = None then Some BadNodeId else None)"

lemma listen_once_result:
  "\<exists>r tasks' s'. listen_once env id_from_bytes runs now pending tasks s = Some (r, tasks', s') \<and>
     (r = (case fatal id_from_bytes pending of Some e \<Rightarrow> Inl e | None \<Rightarrow> Inr ()) \<or> r = Inl HubCallFailed \<and> \<not> runs)"
  by (cases pending) (auto simp: listen_once_def read_exact_def not_less split: option.splits)

fun fatal_event :: "(u8 list \<Rightarrow> 'n option) \<Rightarrow> ('n, 'st) listen_event \<Rightarrow> watch_error option" where
  "fatal_event id_from_bytes (Incoming now p) = fatal id_from_bytes p"
| "fatal_event id_from_bytes _ = None"

lemma listener_run_stops:
  "listener_run env id_from_bytes runs tasks s es = Some (stop, runs', tasks', s') \<Longrightarrow>
     stop = (case dropWhile (\<lambda>e. fatal_event id_from_bytes e = None) es of
         [] \<Rightarrow> None | e # _ \<Rightarrow> fatal_event id_from_bytes e) \<or> stop = Some HubCallFailed \<and> \<not> runs'"
proof (induction env id_from_bytes runs tasks s es rule: listener_run.induct)
  case (4 env id_from_bytes runs tasks s now p es)
  obtain r tasks1 s1 where one: "listen_once env id_from_bytes runs now p tasks s = Some (r, tasks1, s1)"
    "r = (case fatal id_from_bytes p of Some e \<Rightarrow> Inl e | None \<Rightarrow> Inr ()) \<or> r = Inl HubCallFailed \<and> \<not> runs"
    using listen_once_result by blast
  from one(2) show ?case
  proof
    assume r: "r = (case fatal id_from_bytes p of Some e \<Rightarrow> Inl e | None \<Rightarrow> Inr ())"
    then show ?thesis using "4.IH" [OF one(1) refl] "4.prems" one(1) by (cases "fatal id_from_bytes p") auto
  next
    assume "r = Inl HubCallFailed \<and> \<not> runs"
    then show ?thesis using "4.prems" one(1) by auto
  qed
qed (auto split: prod.splits)

text \<open>Without messages of others that make the hub panic the loop does not panic either.\<close>

lemma listener_run_returns:
  "\<forall>e \<in> set es. \<forall>now m. e \<noteq> HubHandles now m \<Longrightarrow>
     \<exists>result. listener_run env id_from_bytes runs tasks s es = Some result"
proof (induction env id_from_bytes runs tasks s es rule: listener_run.induct)
  case (4 env id_from_bytes runs tasks s now p es)
  obtain r tasks1 s1 where one: "listen_once env id_from_bytes runs now p tasks s = Some (r, tasks1, s1)"
    using listen_once_result by blast
  then show ?case using "4.IH" [OF one refl] "4.prems" by (cases r) auto
qed auto

text \<open>What the dialling side writes first is read by the listener as the node it names.\<close>

lemma handshake:
  assumes "length own_id = 32" "id_from_bytes own_id = Some n"
  shows "listen_once env id_from_bytes True now (Accepted_stream tx (own_id @ rx)) tasks s =
    Some (Inr (), if takes_peer s n False then (n, rx) # tasks else tasks,
      if takes_peer s n False then s\<lparr>peers := fmupd n tx (peers s)\<rparr> else s)"
  using assms by (simp add: listen_once_def read_exact_def)

end
