(* ===== verification/Hub_Handle.thy ===== *)
theory Hub_Handle
  imports Peer_Watcher
begin

text \<open>
  The tasks of a node and the handle to them (\<open>src/src/config.rs\<close>): the task that waits for the
  subscriber and the listener, and \<open>HubHandle\<close>, a future over that task and the actor. A
  \<open>JoinHandle\<close> is a type of the runtime: polling it is a parameter, \<open>None\<close> being a panic.
\<close>

section \<open>Waiting for the two connection tasks\<close>

text \<open>How a task ends: it is aborted or panics, or returns its error (it never returns otherwise).\<close>

datatype 'e task_result = JoinFailed | Returned 'e

datatype 'e task_report = ReportJoinError | ReportFailure 'e

text \<open>\<open>while let Some(res) = tasks.join_next().await\<close>: what is reported, in order of completion.\<close>

fun report_tasks :: "'e task_result list \<Rightarrow> 'e task_report list" where
  "report_tasks [] = []"
| "report_tasks (res # later) =
     (case res of JoinFailed \<Rightarrow> ReportJoinError | Returned e \<Rightarrow> ReportFailure e) # report_tasks later"

section \<open>The handle\<close>

datatype 'a poll = Pending | Ready 'a

record 'h HubHandle =
  new_peer_listener_handler :: 'h
  actor_handle :: 'h

type_synonym ('h, 'e) poller = "'h \<Rightarrow> ((('e + unit) poll) \<times> 'h) option"

definition hub_handle_poll ::
    "('h, 'e) poller \<Rightarrow> 'h HubHandle \<Rightarrow> ((('e + unit) poll) \<times> 'h HubHandle) option" where
  "hub_handle_poll poll this = do {
     (peer_poll, peer') \<leftarrow> poll (new_peer_listener_handler this);
     (actor_poll, actor') \<leftarrow> poll (actor_handle this);
     let this' = \<lparr>new_peer_listener_handler = peer', actor_handle = actor'\<rparr>;
     Some (case (peer_poll, actor_poll) of
         (Ready (Inr _), Ready (Inr _)) \<Rightarrow> (Ready (Inr ()), this')
       | (Ready (Inl e), _) \<Rightarrow> (Ready (Inl e), this')
       | (_, Ready (Inl e)) \<Rightarrow> (Ready (Inl e), this')
       | _ \<Rightarrow> (Pending, this')) }"

text \<open>\<open>drop\<close> aborts both tasks; \<open>abort\<close> is the runtime's.\<close>

definition hub_handle_drop :: "('h \<Rightarrow> 'h) \<Rightarrow> 'h HubHandle \<Rightarrow> 'h HubHandle" where
  "hub_handle_drop abort this =
     \<lparr>new_peer_listener_handler = abort (new_peer_listener_handler this),
      actor_handle = abort (actor_handle this)\<rparr>"

text \<open>
  A \<open>JoinHandle\<close>: while its task runs a poll is pending; once it has ended, the next poll takes its
  result; a poll after that panics. \<open>state h\<close> says which of these \<open>h\<close> is.
\<close>

datatype 'r task_state = Running | Ended 'r | Taken

definition join_handle_ok :: "('h, 'e) poller \<Rightarrow> ('h \<Rightarrow> ('e + unit) task_state) \<Rightarrow> bool" where
  "join_handle_ok poll state \<longleftrightarrow>
     (\<forall>h. case state h of
        Running \<Rightarrow> \<exists>h'. poll h = Some (Pending, h') \<and> state h' \<noteq> Taken
      | Ended r \<Rightarrow> \<exists>h'. poll h = Some (Ready r, h') \<and> state h' = Taken
      | Taken \<Rightarrow> poll h = None)"

lemma join_handle_Taken: "join_handle_ok poll state \<Longrightarrow> state h = Taken \<Longrightarrow> poll h = None"
  and join_handle_Ended: "join_handle_ok poll state \<Longrightarrow> state h = Ended r \<Longrightarrow>
    \<exists>h'. poll h = Some (Ready r, h') \<and> state h' = Taken"
  and join_handle_Running: "join_handle_ok poll state \<Longrightarrow> state h = Running \<Longrightarrow>
    \<exists>h'. poll h = Some (Pending, h') \<and> state h' \<noteq> Taken"
  unfolding join_handle_ok_def by (fastforce dest: spec [of _ h])+

lemma hub_handle_both:
  assumes "join_handle_ok poll state"
    and "state (new_peer_listener_handler h) = Ended r" "state (actor_handle h) = Ended r'"
  shows "\<exists>h'. hub_handle_poll poll h =
    Some (Ready (case r of Inl e \<Rightarrow> Inl e | Inr _ \<Rightarrow> r'), h')"
proof -
  obtain a where a: "poll (new_peer_listener_handler h) = Some (Ready r, a)" using join_handle_Ended [OF assms(1,2)] by auto
  obtain b where b: "poll (actor_handle h) = Some (Ready r', b)" using join_handle_Ended [OF assms(1,3)] by auto
  let ?h = "\<lparr>new_peer_listener_handler = a, actor_handle = b\<rparr>"
  have "hub_handle_poll poll h = Some (Ready (case r of Inl e \<Rightarrow> Inl e | Inr _ \<Rightarrow> r'), ?h)"
    unfolding hub_handle_poll_def a b by (cases r; cases r') simp_all
  then show ?thesis by (rule exI)
qed

text \<open>If one task has ended well and the other still runs, the handle forgets that the first has
  ended, and the next poll panics.\<close>

lemma hub_handle_one:
  assumes "join_handle_ok poll state"
    and "state (new_peer_listener_handler h) = Ended (Inr ()) \<and> state (actor_handle h) = Running \<or>
         state (new_peer_listener_handler h) = Running \<and> state (actor_handle h) = Ended (Inr ())"
  shows "\<exists>h'. hub_handle_poll poll h = Some (Pending, h') \<and> hub_handle_poll poll h' = None"
  using assms(2)
proof (elim disjE conjE)
  assume p: "state (new_peer_listener_handler h) = Ended (Inr ())" "state (actor_handle h) = Running"
  obtain a where a: "poll (new_peer_listener_handler h) = Some (Ready (Inr ()), a)" "state a = Taken"
    using join_handle_Ended [OF assms(1) p(1)] by blast
  obtain b where b: "poll (actor_handle h) = Some (Pending, b)" using join_handle_Running [OF assms(1) p(2)] by blast
  show ?thesis using a b join_handle_Taken [OF assms(1) a(2)] by (auto simp: hub_handle_poll_def)
next
  assume p: "state (new_peer_listener_handler h) = Running" "state (actor_handle h) = Ended (Inr ())"
  obtain b where b: "poll (actor_handle h) = Some (Ready (Inr ()), b)" "state b = Taken"
    using join_handle_Ended [OF assms(1) p(2)] by blast
  obtain a where a: "poll (new_peer_listener_handler h) = Some (Pending, a)" using join_handle_Running [OF assms(1) p(1)] by blast
  show ?thesis using a b join_handle_Taken [OF assms(1) b(2)]
    by (cases "poll a") (auto simp: hub_handle_poll_def)
qed

end
