(* ===== verification/Money.thy ===== *)
theory Money
  imports Network
begin

text \<open>
  The amount of money in circulation: what the unspent cash of a branch is worth. If no block of the
  branch spends the same cash twice and every new piece of cash is fresh, it is exactly the sum of the
  subsidies (\<open>src/src/peerhub.rs\<close>, \<open>validate_block\<close> and \<open>cash_set_at\<close>).
\<close>

section \<open>What a set of cash is worth\<close>

definition worth :: "Cash fset \<Rightarrow> nat" where
  "worth S = (\<Sum>c \<in> fset S. unat (amount c))"

lemma cash_sum_set: "distinct cs \<Longrightarrow> cash_sum cs = (\<Sum>c \<in> set cs. unat (amount c))"
  by (simp add: sum_list_distinct_conv_sum_set)

lemma worth_apply_txn:
  assumes "distinct (inputs t)" "set (inputs t) \<subseteq> fset S" "distinct (outputs t)" "set (outputs t) \<inter> fset S = {}"
  shows "worth (apply_txn t S) + cash_sum (inputs t) = worth S + cash_sum (outputs t)"
proof -
  have "worth (apply_txn t S) = (\<Sum>c \<in> set (outputs t). unat (amount c)) + (\<Sum>c \<in> fset S - set (inputs t). unat (amount c))"
    unfolding worth_def fset_apply_txn using assms(4) by (intro sum.union_disjoint) auto
  moreover have "(\<Sum>c \<in> fset S - set (inputs t). unat (amount c)) + (\<Sum>c \<in> set (inputs t). unat (amount c)) = worth S"
    unfolding worth_def using sum.subset_diff [OF assms(2), of "\<lambda>c. unat (amount c)"] by simp
  ultimately show ?thesis using assms(1,3) by (simp add: cash_sum_set)
qed

text \<open>A block that spends only what is there, each piece once, and creates only new cash.\<close>

definition clean_block :: "Block \<Rightarrow> Cash fset \<Rightarrow> bool" where
  "clean_block b S \<longleftrightarrow>
     distinct (concat (map inputs (transactions b))) \<and> set (concat (map inputs (transactions b))) \<subseteq> fset S \<and>
     distinct (reward b # concat (map outputs (transactions b))) \<and>
     set (reward b # concat (map outputs (transactions b))) \<inter> fset S = {}"

lemma worth_apply_txns:
  "distinct (concat (map inputs ts)) \<Longrightarrow> set (concat (map inputs ts)) \<subseteq> fset S \<Longrightarrow>
   distinct (concat (map outputs ts)) \<Longrightarrow> set (concat (map outputs ts)) \<inter> fset S = {} \<Longrightarrow>
   worth (fold apply_txn ts S) + cash_sum (concat (map inputs ts)) = worth S + cash_sum (concat (map outputs ts)) \<and>
   fset (fold apply_txn ts S) \<subseteq> fset S \<union> set (concat (map outputs ts))"
proof (induction ts arbitrary: S)
  case (Cons t ts)
  have S: "fset (apply_txn t S) = set (outputs t) \<union> (fset S - set (inputs t))" by (rule fset_apply_txn)
  have "worth (apply_txn t S) + cash_sum (inputs t) = worth S + cash_sum (outputs t)"
    by (rule worth_apply_txn) (use Cons.prems in auto)
  moreover have later: "worth (fold apply_txn ts (apply_txn t S)) + cash_sum (concat (map inputs ts)) =
      worth (apply_txn t S) + cash_sum (concat (map outputs ts)) \<and>
    fset (fold apply_txn ts (apply_txn t S)) \<subseteq> fset (apply_txn t S) \<union> set (concat (map outputs ts))"
    by (rule Cons.IH) (use Cons.prems S in \<open>auto 0 3\<close>)
  moreover have "cash_sum (concat (map inputs (t # ts))) = cash_sum (inputs t) + cash_sum (concat (map inputs ts))"
    "cash_sum (concat (map outputs (t # ts))) = cash_sum (outputs t) + cash_sum (concat (map outputs ts))" by simp_all
  ultimately have "worth (fold apply_txn ts (apply_txn t S)) + cash_sum (concat (map inputs (t # ts))) =
      worth S + cash_sum (concat (map outputs (t # ts)))" by linarith
  moreover have "fset (fold apply_txn (t # ts) S) \<subseteq> fset S \<union> set (concat (map outputs (t # ts)))"
    using later S by auto
  ultimately show ?case unfolding fold_Cons comp_apply by (rule conjI)
qed simp

lemma worth_apply_block:
  assumes "clean_block b S"
  shows "worth (apply_block b S) + cash_sum (concat (map inputs (transactions b))) =
    worth S + cash_sum (concat (map outputs (transactions b))) + unat (amount (reward b))"
proof -
  let ?S = "fold apply_txn (transactions b) S"
  have t: "worth ?S + cash_sum (concat (map inputs (transactions b))) =
      worth S + cash_sum (concat (map outputs (transactions b)))"
    "fset ?S \<subseteq> fset S \<union> set (concat (map outputs (transactions b)))"
    using worth_apply_txns [of "transactions b" S] assms by (auto simp: clean_block_def)
  then have "reward b |\<notin>| ?S" using assms by (auto simp: clean_block_def)
  then have "worth (apply_block b S) = unat (amount (reward b)) + worth ?S"
    by (simp add: worth_def apply_block_def)
  with t(1) show ?thesis by simp
qed

section \<open>The money of a branch\<close>

text \<open>The subsidy of a height.\<close>

definition subsidy_at :: "Config \<Rightarrow> nat \<Rightarrow> nat" where
  "subsidy_at cfg h = unat (initial_block_subsidy cfg) div 2 ^ (h div unat (block_subsidy_half_period cfg))"

lemma ruled_block_worth:
  assumes rules: "block_rules cfg p b" and snd: "sound_block c b" and clean: "clean_block b S"
  shows "worth (apply_block b S) = worth S + subsidy_at cfg (height b)"
proof -
  have ok: "\<forall>t \<in> set (transactions b). amounts_ok (inputs t) (outputs t)"
    using snd by (simp add: sound_block_def list_all_iff valid_transaction)
  have fees: "total_fees (transactions b) = Some f \<longleftrightarrow> unat f = sum_list (map fee_value (transactions b))" for f
    by (rule total_fees_Some [OF ok])
  have sums: "cash_sum (concat (map inputs ts)) = cash_sum (concat (map outputs ts)) + sum_list (map fee_value ts)"
    if "\<forall>t \<in> set ts. amounts_ok (inputs t) (outputs t)" for ts
    using that
  proof (induction ts)
    case (Cons t ts)
    have "cash_sum (inputs t) = cash_sum (outputs t) + fee_value t"
      using Cons.prems by (simp add: amounts_ok_def fee_value_def)
    with Cons.IH Cons.prems show ?case by (simp add: o_def)
  qed simp
  obtain subsidy f where "block_subsidy cfg (seqno b) = Some subsidy" "total_fees (transactions b) = Some f"
    "unat (amount (reward b)) = unat f + unat subsidy"
    using rules by (auto simp: block_rules_def expected_reward_def checked_add_Some)
  then have "unat (amount (reward b)) = sum_list (map fee_value (transactions b)) + subsidy_at cfg (height b)"
    using fees by (simp add: block_subsidy_Some subsidy_at_def)
  then show ?thesis using worth_apply_block [OF clean] sums [OF ok] by linarith
qed

lemma branch_worth:
  assumes inv: "hub_inv env s" and g: "fmlookup (valid_blocks s) (genesis_id s) = Some g"
    and b: "fmlookup (valid_blocks s) i = Some b"
    and clean: "journal_ok clean_block apply_block (branch (valid_blocks s) i) {||}"
  shows "worth (unspent (branch (valid_blocks s) i)) =
    unat (amount (reward g)) + (\<Sum>h = 1..height b. subsidy_at (hub_config s) h)"
  using hub_inv_blocks [OF inv] b clean
proof (induction rule: blocks_induct)
  case (root b)
  note blocks = hub_inv_blocks [OF inv]
  have "b = g" using root g by simp
  then have br: "branch (valid_blocks s) (genesis_id s) = [g]" using branch_root [OF blocks g] by simp
  have "sound_block env g" using inv g by (auto simp: hub_inv_def stored_def)
  then have "\<forall>t \<in> set (transactions g). inputs t \<noteq> []"
    by (simp add: sound_block_def list_all_iff valid_transaction amounts_ok_def)
  moreover have clean_g: "clean_block g {||}" using root br by simp
  ultimately have "transactions g = []" by (cases "transactions g") (auto simp: clean_block_def)
  moreover have "height b = 0" using blocks_inv_genesis [OF blocks] root by auto
  ultimately show ?case using br \<open>b = g\<close> by (simp add: unspent_def apply_block_def worth_def)
next
  case (step i b p)
  note blocks = hub_inv_blocks [OF inv]
  have br: "branch (valid_blocks s) i = branch (valid_blocks s) (prev_id b) @ [b]"
    by (rule branch_step [OF blocks step.hyps(1,2)])
  have clean: "journal_ok clean_block apply_block (branch (valid_blocks s) (prev_id b)) {||}"
    "clean_block b (unspent (branch (valid_blocks s) (prev_id b)))"
    using step.prems unfolding br by (simp_all add: journal_ok_append unspent_def)
  have "sound_block env b" using inv step.hyps(1) by (auto simp: hub_inv_def stored_def)
  moreover have "block_rules (hub_config s) p b"
    using inv step.hyps(1-3) by (auto simp: hub_inv_def pool_inv_def chain_inv_def rules_inv_def)
  ultimately have "worth (unspent (branch (valid_blocks s) i)) =
      worth (unspent (branch (valid_blocks s) (prev_id b))) + subsidy_at (hub_config s) (height b)"
    using ruled_block_worth [OF _ _ clean(2)] by (simp add: br unspent_def)
  then show ?case using step.IH [OF clean(1)] step.hyps(4) by simp
qed

text \<open>The reward of genesis is the initial subsidy, in every reachable state.\<close>

lemma genesis_amount:
  assumes env: "env_ok env" "signatures_verify env"
    and "reachable (hub_start env cfg) (message_ok env) (hub_step env) s"
  shows "\<exists>g. fmlookup (valid_blocks s) (genesis_id s) = Some g \<and>
    amount (reward g) = initial_block_subsidy (hub_config s)"
  using assms(3)
proof (induction rule: reachable.induct)
  case (started s)
  then show ?case by (auto simp: hub_start_def hub_new_def Let_def dest: create_genesis_Some(6))
next
  case (handled s m s')
  have "hub_inv env s" using reachable_hub_inv [OF handled.hyps(1) env] .
  then have k: "keeps env s s'"
    using handle_keeps [OF env(1) _ handled.hyps(2)] handled.hyps(3) by (auto elim: hub_stepE)
  then have "genesis_id s' = genesis_id s" "hub_config s' = hub_config s" by (simp_all add: keeps_def same_identity_def)
  with handled.IH keeps_valid [OF k] show ?case by auto
qed

lemma subsidy_sum: "subsidy_at cfg 0 + (\<Sum>h = 1..n. subsidy_at cfg h) = (\<Sum>h \<le> n. subsidy_at cfg h)"
  by (induction n) simp_all

end
