(* ===== verification/Sample_Network.thy ===== *)
theory Sample_Network
  imports Sample_Node Chain_Service Spread Hub_Handle Money
begin

text \<open>
  Concrete chains and networks for the properties of several nodes and of the tools of the tests:
  chains of empty blocks on the environment of \<open>Sample_Node\<close>, built from lists of seeds, and two
  nodes connected to each other.
\<close>

section \<open>Chains of empty blocks\<close>

definition testing_target :: u256 where
  "testing_target = u256_from_words (drop_bit 1 (- 1)) (- 1)"

lemma testing_target_high: "2 ^ 248 \<le> unat testing_target"
proof -
  have "bit testing_target 254" by (simp add: testing_target_def u256_from_words_def bit_simps)
  then have "bit (unat testing_target) 254" by (simp add: bit_unsigned_iff)
  then have "odd (unat testing_target div 2 ^ 254)" unfolding bit_iff_odd .
  then have "0 < unat testing_target div 2 ^ 254" by (rule odd_pos)
  then have "2 ^ 254 \<le> unat testing_target" by (simp only: div_greater_zero_iff)
  then show ?thesis by simp
qed

lemma testing_sel [simp]:
  "genesis_difficulty INCOMPLETE_TESTING_CONFIG = Difficulty testing_target"
  "block_subsidy_half_period INCOMPLETE_TESTING_CONFIG = 40"
  by (simp_all add: INCOMPLETE_TESTING_CONFIG_def testing_target_def)

text \<open>What the chains of the examples have in common.\<close>

definition plain_block :: "Block \<Rightarrow> bool" where
  "plain_block b \<longleftrightarrow> difficulty b = Difficulty testing_target \<and> transactions b = []"

lemma sample_empty_block:
  assumes "chain \<noteq> []" "plain_block (last chain)" "height (last chain) < 9"
  shows "\<exists>b. create_empty_block sample_env (now, uuid, sk) chain = Some b \<and> plain_block b \<and>
    height b = Suc (height (last chain)) \<and> timestamp b = now \<and> cash_id (reward b) = uuid"
proof -
  let ?l = "last chain" and ?n = "seqno (last chain) + 1"
  have n: "checked_add (seqno ?l) 1 = Some ?n" "unat ?n = Suc (height ?l)"
    using assms(3) by (simp_all add: checked_add_def unat_word_ariths)
  have r: "checked_rem ?n (10 :: u64) = Some ?n" "?n \<noteq> 0"
    using n(2) assms(3) by (auto simp: checked_rem_def word_unat_eq_iff unat_mod)
  obtain subsidy where sub: "block_subsidy INCOMPLETE_TESTING_CONFIG ?n = Some subsidy"
    using n(2) assms(3) by (simp add: block_subsidy_def checked_div_def checked_shr_def unat_div)
  let ?own = "from_signer sample_env sk"
  let ?ub = "\<lparr>ub_seqno = ?n, ub_difficulty = difficulty ?l, ub_prev_id = block_id sample_env ?l,
     ub_transactions = [], ub_reward = Cash_new uuid subsidy ?own, ub_miner = ?own, ub_timestamp = now\<rparr>"
  have "UnconfirmedBlock_new sample_env now uuid ?l ?own [] None INCOMPLETE_TESTING_CONFIG = Some (Inr ?ub)"
    using n(1) r sub unat_bound [of subsidy] by (simp add: UnconfirmedBlock_new_def total_fees_def checked_add_def)
  moreover obtain b where b: "try_confirm sample_env ?ub sk = Some (Inr b)"
    using try_confirm_result [OF sample_nonce_last sample_nonce_high [OF _ testing_target_high], of ?ub sk] assms(2)
    by (auto simp: plain_block_def)
  ultimately have "create_empty_block sample_env (now, uuid, sk) chain = Some b"
    using assms(1) n(1) r by (simp add: create_empty_block_def Let_def)
  then show ?thesis using try_confirm_block [OF b] assms(2) n(2) by (auto simp: plain_block_def Cash_new_def)
qed

lemma sample_extend_chain:
  "chain \<noteq> [] \<Longrightarrow> plain_block (last chain) \<Longrightarrow> height (last chain) + length seeds \<le> 9 \<Longrightarrow>
   \<exists>later. extend_chain sample_env config chain seeds = Some (chain @ later) \<and>
     map timestamp later = map fst seeds \<and> map (\<lambda>b. cash_id (reward b)) later = map (fst \<circ> snd) seeds \<and>
     list_all plain_block later \<and> map height later = map (\<lambda>i. height (last chain) + Suc i) [0..<length seeds]"
proof (induction seeds arbitrary: chain)
  case (Cons seed seeds)
  obtain now uuid sk where seed: "seed = (now, uuid, sk)" by (cases seed)
  obtain b where b: "create_empty_block sample_env seed chain = Some b" "plain_block b"
    "height b = Suc (height (last chain))" "timestamp b = now" "cash_id (reward b) = uuid"
    using sample_empty_block [OF Cons.prems(1,2), of now uuid sk] Cons.prems(3) seed by auto
  obtain later where later: "extend_chain sample_env config (chain @ [b]) seeds = Some ((chain @ [b]) @ later)"
    "map timestamp later = map fst seeds" "map (\<lambda>b. cash_id (reward b)) later = map (fst \<circ> snd) seeds"
    "list_all plain_block later" "map height later = map (\<lambda>i. height b + Suc i) [0..<length seeds]"
    using Cons.IH [of "chain @ [b]"] b Cons.prems(3) by auto
  have "map (\<lambda>i. height (last chain) + Suc i) [0..<length (seed # seeds)] =
      height b # map (\<lambda>i. height b + Suc i) [0..<length seeds]"
    by (simp add: b(3) upt_conv_Cons map_Suc_upt [symmetric] o_def del: upt_Suc)
  with later b Cons.prems(1) seed show ?case by (intro exI [of _ "b # later"]) simp
qed simp

text \<open>The identifiers of plain blocks are distinct if those of their rewards are.\<close>

lemma sample_id_reward:
  "hash_bytes (block_id sample_env b) ! 4 = ucast (cash_id (reward b))"
  by (simp add: block_id_def sample_env_def sample_sha256_def sample_block_bytes_def numeral_eq_Suc)

lemma sample_distinct_ids:
  assumes "distinct (map (\<lambda>b. ucast (cash_id (reward b)) :: u8) bs)"
  shows "distinct (map (block_id sample_env) bs)"
proof -
  have "distinct (map (\<lambda>i. hash_bytes i ! 4) (map (block_id sample_env) bs))"
    using assms by (simp add: o_def sample_id_reward)
  then show ?thesis by (simp only: distinct_map)
qed

lemma sample_orders_messages: "enc_message sample_env (Broadcast (BroadcastBlock i)) \<noteq> None"
  by (simp add: sample_message_bytes_def)

section \<open>A hub with the rules of the tests\<close>

definition fork_config :: Config where "fork_config = with_testing_alpn 10 []"

lemma fork_config_rules: "testing_rules fork_config"
  by (auto simp: testing_rules_def fork_config_def)

lemma fork_config_sel [simp]:
  "genesis_difficulty fork_config = Difficulty testing_target" "genesis_timestamp fork_config = 10"
  by (simp_all add: fork_config_def with_testing_alpn_def)

lemma sample_create_genesis:
  "\<exists>g. create_genesis sample_env (Difficulty testing_target) ts subsidy = Some g"
proof -
  obtain bs where "hex_to_bytes 32 genesis_secret = Inr bs" using genesis_secret_parses by blast
  then show ?thesis
    by (simp add: create_genesis_def Let_def try_confirm_result sample_nonce_last testing_target_high
      sample_nonce_high [OF _ testing_target_high] from_signer_def)
qed

lemma fork_genesis:
  "\<exists>g. create_genesis_block sample_env fork_config = Some g \<and> plain_block g \<and> height g = 0 \<and> timestamp g = 10 \<and>
     cash_id (reward g) = 0"
proof -
  obtain g where g: "create_genesis sample_env (Difficulty testing_target) 10 (initial_block_subsidy fork_config) = Some g"
    using sample_create_genesis by blast
  with create_genesis_Some [OF g] show ?thesis by (simp add: create_genesis_block_def plain_block_def)
qed

lemma fork_start: "\<exists>s. hub_new sample_env (0 :: nat) fork_config = Some s"
  using sample_create_genesis [of 10 "initial_block_subsidy fork_config"] by (auto simp: hub_new_def Let_def)

lemma testing_genesis:
  "\<exists>g. create_genesis_block sample_env INCOMPLETE_TESTING_CONFIG = Some g \<and> plain_block g \<and> height g = 0"
proof -
  let ?ts = "genesis_timestamp INCOMPLETE_TESTING_CONFIG" and ?a = "initial_block_subsidy INCOMPLETE_TESTING_CONFIG"
  obtain g where g: "create_genesis sample_env (Difficulty testing_target) ?ts ?a = Some g"
    using sample_create_genesis by blast
  with create_genesis_Some [OF g] show ?thesis by (simp add: create_genesis_block_def plain_block_def)
qed

text \<open>Three chains from one genesis block.\<close>

definition fork_seed :: "nat \<Rightarrow> u8 list seed" where
  "fork_seed n = (of_nat (20 + n), of_nat n, sample_key)"

lemma fork_chains:
  "\<exists>g old more1 more2.
     create_empty_chain sample_env fork_config (map fork_seed [0, 1, 2, 3, 4]) = Some (g # old) \<and>
     extend_chain sample_env fork_config [g] (map fork_seed [11, 12, 13, 14, 15]) = Some ([g] @ more1) \<and>
     extend_chain sample_env fork_config [g] (map fork_seed [21, 22, 23, 24]) = Some ([g] @ more2) \<and>
     length old = 4 \<and> length more1 = 5 \<and> length more2 = 4 \<and>
     distinct (map (block_id sample_env) ((g # old) @ more1 @ more2)) \<and>
     map timestamp (g # old) = [10, 21, 22, 23, 24] \<and> map timestamp ([g] @ more1) = [10, 31, 32, 33, 34, 35] \<and>
     map timestamp ([g] @ more2) = [10, 41, 42, 43, 44]"
proof -
  obtain g where g: "create_genesis_block sample_env fork_config = Some g" "plain_block g" "height g = 0"
    "timestamp g = 10" "cash_id (reward g) = 0" using fork_genesis by blast
  have ext: "\<exists>later. extend_chain sample_env fork_config [g] (map fork_seed ns) = Some ([g] @ later) \<and>
     map timestamp later = map (\<lambda>n. of_nat (20 + n)) ns \<and> map (\<lambda>b. cash_id (reward b)) later = map of_nat ns \<and>
     length later = length ns" if "length ns \<le> 9" for ns
    using sample_extend_chain [of "[g]" "map fork_seed ns" fork_config] that g
    by (fastforce simp: fork_seed_def o_def dest: map_eq_imp_length_eq)
  obtain old where old: "extend_chain sample_env fork_config [g] (map fork_seed [1, 2, 3, 4]) = Some ([g] @ old)"
    "map timestamp old = map (\<lambda>n. of_nat (20 + n)) [1, 2, 3, 4]" "map (\<lambda>b. cash_id (reward b)) old = map of_nat [1, 2, 3, 4]"
    "length old = 4" using ext [of "[1, 2, 3, 4]"] by auto
  obtain more1 where m1: "extend_chain sample_env fork_config [g] (map fork_seed [11, 12, 13, 14, 15]) = Some ([g] @ more1)"
    "map timestamp more1 = map (\<lambda>n. of_nat (20 + n)) [11, 12, 13, 14, 15]"
    "map (\<lambda>b. cash_id (reward b)) more1 = map of_nat [11, 12, 13, 14, 15]" "length more1 = 5"
    using ext [of "[11, 12, 13, 14, 15]"] by auto
  obtain more2 where m2: "extend_chain sample_env fork_config [g] (map fork_seed [21, 22, 23, 24]) = Some ([g] @ more2)"
    "map timestamp more2 = map (\<lambda>n. of_nat (20 + n)) [21, 22, 23, 24]"
    "map (\<lambda>b. cash_id (reward b)) more2 = map of_nat [21, 22, 23, 24]" "length more2 = 4"
    using ext [of "[21, 22, 23, 24]"] by auto
  have "map (\<lambda>b. cash_id (reward b)) ((g # old) @ more1 @ more2) =
      map of_nat [0, 1, 2, 3, 4, 11, 12, 13, 14, 15, 21, 22, 23, 24]"
    using g(5) old(3) m1(3) m2(3) by simp
  from arg_cong [OF this, of "map (ucast :: Uuid \<Rightarrow> u8)"]
  have "map (\<lambda>b. ucast (cash_id (reward b)) :: u8) ((g # old) @ more1 @ more2) =
      [0, 1, 2, 3, 4, 11, 12, 13, 14, 15, 21, 22, 23, 24]" by (simp add: o_def)
  then have "distinct (map (block_id sample_env) ((g # old) @ more1 @ more2))"
    by (intro sample_distinct_ids) simp
  moreover have "create_empty_chain sample_env fork_config (map fork_seed [0, 1, 2, 3, 4]) = Some (g # old)"
    using old(1) g(1) by (simp add: create_empty_chain_def)
  ultimately show ?thesis
    using old m1 m2 g(4) by (intro exI [of _ g] exI [of _ old] exI [of _ more1] exI [of _ more2]) simp
qed

section \<open>A handle to poll\<close>

fun sample_poll :: "(nat + unit) task_state \<Rightarrow> (((nat + unit) poll) \<times> (nat + unit) task_state) option" where
  "sample_poll Running = Some (Pending, Running)"
| "sample_poll (Ended r) = Some (Ready r, Taken)"
| "sample_poll Taken = None"

lemma sample_poll_ok: "join_handle_ok sample_poll id"
  by (simp add: join_handle_ok_def split: task_state.split)

section \<open>An encoding that a signature binds\<close>

definition binding_env :: sample_env_type where
  "binding_env = sample_env\<lparr>enc_txn_inner := \<lambda>t. concat (map (\<lambda>c. to_le_bytes 8 (amount c)) (txn_outputs t))\<rparr>"

lemma binding_amounts: "amounts_encoded binding_env"
proof -
  have "map amount cs = map amount ds"
    if "concat (map (\<lambda>c. to_le_bytes 8 (amount c)) cs) = concat (map (\<lambda>c. to_le_bytes 8 (amount c)) ds)" for cs ds
    using that
  proof (induction cs arbitrary: ds)
    case Nil
    then show ?case by (cases ds) (auto simp: to_le_bytes_def)
  next
    case (Cons c cs)
    then obtain d ds' where ds: "ds = d # ds'" by (cases ds) (auto simp: to_le_bytes_def)
    then have same: "to_le_bytes 8 (amount c) = to_le_bytes 8 (amount d)"
      "concat (map (\<lambda>c. to_le_bytes 8 (amount c)) cs) = concat (map (\<lambda>c. to_le_bytes 8 (amount c)) ds')"
      using Cons.prems by simp_all
    have "amount c = amount d" using arg_cong [OF same(1), of "from_le_bytes :: u8 list \<Rightarrow> u64"] by (simp add: from_to_le_bytes)
    then show ?case using Cons.IH [OF same(2)] ds by simp
  qed
  then show ?thesis by (auto simp: amounts_encoded_def binding_env_def)
qed

lemma binding_signatures: "signatures_verify binding_env" "signature_binds binding_env sk"
  by (simp_all add: signatures_verify_def signature_binds_def binding_env_def)

lemma sample_keys_apart: "keys_apart sample_env [7, 7] [8, 8]"
  by (simp add: keys_apart_def)

lemma receiver_hex: "\<not> isl (hex_to_bytes 32 RECEIVER_PUB_KEY)"
  by code_simp

lemma receiver_parses: "\<exists>bs. hex_to_bytes 32 RECEIVER_PUB_KEY = Inr bs"
  using receiver_hex by (cases "hex_to_bytes 32 RECEIVER_PUB_KEY") auto

lemma sample_invalid_transaction:
  "\<exists>t. create_invalid_transaction binding_env [7, 7] 30 1 2 3 = Some t"
proof -
  obtain receiver where "hex_to_bytes 32 RECEIVER_PUB_KEY = Inr receiver" using receiver_parses by blast
  moreover have "checked_sum [30 :: u64] = Some 30" by (simp add: checked_sum_Some)
  ultimately show ?thesis
    by (simp add: create_invalid_transaction_def create_transaction_Some inputs_def Cash_new_def)
qed

section \<open>Two nodes connected to each other\<close>

text \<open>Nodes 1 and 2 with the same hub, and a message for the first.\<close>

definition node_of :: "(nat, u8 list) hub \<Rightarrow> nat \<Rightarrow> (nat, u8 list) hub" where
  "node_of s i = s\<lparr>local_node_id := i, peers := fmupd (3 - i) [] fmempty\<rparr>"

definition sample_pair :: "(nat, u8 list) hub \<Rightarrow> (nat, u8 list) PeerHubActorMessage \<Rightarrow> nat net" where
  "sample_pair s m = (\<lambda>i. \<lparr>node_hub = node_of s i, mailbox = (if i = 1 then [m] else []), consumed = \<lambda>_. 0\<rparr>)"

lemma sample_pair_sel [simp]:
  "node_hub (sample_pair s m i) = node_of s i" "mailbox (sample_pair s m (Suc 0)) = [m]" "mailbox (sample_pair s m 2) = []"
  "local_node_id (node_of s i) = i" "valid_blocks (node_of s i) = valid_blocks s" "leading_block (node_of s i) = leading_block s"
  "mempool (node_of s i) = mempool s"
  by (simp_all add: sample_pair_def node_of_def)

lemma sample_pair_links: "link (sample_pair s m) (Suc 0) 2 []" "link (sample_pair s m) 2 (Suc 0) []"
  by (simp_all add: link_def sample_pair_def node_of_def)

lemma node_of_inv: "hub_inv sample_env s \<Longrightarrow> hub_inv sample_env (node_of s i)"
  by (simp add: hub_inv_def node_of_def PEER_SIZE_LIMIT_def fcard_finsert_if pool_inv_def chain_inv_def
      mempool_inv_def stored_def fcard_fempty)

lemma sample_reliable: "reliable sample_env"
  by (simp add: reliable_def sample_orders_ok)

text \<open>A parser that also knows the one transaction and the one block of an example.\<close>

definition pair_parse :: "Transaction \<Rightarrow> Block \<Rightarrow> u8 list \<Rightarrow> nat RawMessage option" where
  "pair_parse t b bs =
     (if Some bs = sample_message_bytes (GetTransactionResponse t) then Some (RawGetTransactionResponse (transaction_raw t))
      else if Some bs = sample_message_bytes (GetBlockResponse 1 b) then Some (RawGetBlockResponse 1 (raw_of_block b))
      else sample_parse bs)"

lemma length_sample_inner_bytes:
  "length (sample_inner_bytes t) = 3 + 2 * length (txn_inputs t) + 2 * length (txn_outputs t)"
proof -
  have "length (sample_cash_bytes cs) = 1 + 2 * length cs" for cs
    by (induction cs) (simp_all add: sample_cash_bytes_def)
  then show ?thesis by (simp add: sample_inner_bytes_def)
qed

lemma sample_request_travels:
  "hash_bytes t = a # h \<Longrightarrow> length h < 100 \<Longrightarrow> \<exists>buf. travels sample_env (pair_parse t' b) (GetTransactionRequest t) buf"
  "hash_bytes t = a # h \<Longrightarrow> length h < 100 \<Longrightarrow> \<exists>buf. travels sample_env (pair_parse t' b) (GetBlockRequest t) buf"
  "length (hash_bytes t) < 100 \<Longrightarrow>
     \<exists>buf. travels sample_env (pair_parse t' b) (Broadcast (BroadcastTransaction t)) buf"
  "length (hash_bytes t) < 100 \<Longrightarrow> \<exists>buf. travels sample_env (pair_parse t' b) (Broadcast (BroadcastBlock t)) buf"
  by (cases t; simp add: travels_def sample_message_bytes_def pair_parse_def sample_parse_def transport_decode_def)+

lemma sample_transaction_travels:
  assumes "transaction_valid sample_env t" "length (txn_inputs (txn_inner t)) \<le> 5" "length (txn_outputs (txn_inner t)) \<le> 5"
  shows "transaction_travels sample_env (pair_parse t b) t"
proof -
  obtain h where h: "hash_bytes (txn_id sample_env t) = 2 # h" "length h < 50"
    by (simp add: txn_id_def sample_env_def sample_sha256_def sample_inner_bytes_def numeral_eq_Suc)
  have "travels sample_env (pair_parse t b) (GetTransactionResponse t) (2 # sample_inner_bytes (txn_inner t))"
    using assms
    by (simp add: travels_def sample_message_bytes_def pair_parse_def transport_decode_def transaction_valid_def
        length_sample_inner_bytes)
  then show ?thesis
    using sample_request_travels(1) [OF h(1)] sample_request_travels(3) [of "txn_id sample_env t"] h
    by (auto simp: transaction_travels_def)
qed

lemma sample_block_travels:
  assumes "sound_block sample_env b"
  shows "block_travels sample_env (pair_parse t b) (Suc 0) b"
proof -
  obtain h where h: "hash_bytes (block_id sample_env b) = 1 # h" "length h < 50"
    by (simp add: block_id_def sample_env_def sample_sha256_def sample_block_bytes_def numeral_eq_Suc)
  have "travels sample_env (pair_parse t b) (GetBlockResponse 1 b) [4, 1, ucast (seqno b)]"
    using decode_block_of_raw [OF assms]
    by (simp add: travels_def sample_message_bytes_def pair_parse_def transport_decode_def)
  then show ?thesis
    using sample_request_travels(2) [OF h(1)] sample_request_travels(4) [of "block_id sample_env b"] h
    by (auto simp: block_travels_def)
qed

section \<open>A block mined at the first node\<close>

text \<open>The miner reads neither the streams nor the name of its node.\<close>

lemma mine_on_node_of: "mine_on env now uuid sk (node_of s i) = mine_on env now uuid sk s"
proof -
  have "prev_difficulty_adjusted_block (node_of s i) n = prev_difficulty_adjusted_block s n" for n
    unfolding prev_difficulty_adjusted_block_def confirmed_chain_def leading_block_seqno_def
    by (simp add: node_of_def cong: if_cong)
  moreover have "mempool_fee (node_of s i) = mempool_fee s"
    by (rule ext) (simp add: mempool_fee_def)
  moreover have "hub_config (node_of s i) = hub_config s" by (simp add: node_of_def)
  ultimately show ?thesis
    unfolding mine_on_def query_mempool_def by (simp add: cong: option.case_cong)
qed

lemma sample_mined_sound:
  "\<exists>b. mine_on sample_env 40 3 sample_key sample_pooled = Some (Inr b) \<and> transactions b = [sample_txn] \<and>
     sound_block sample_env b \<and> height b = 2"
proof -
  obtain b where b: "mine_on sample_env 40 3 sample_key sample_pooled = Some (Inr b)" "transactions b = [sample_txn]"
    using sample_mined by blast
  obtain leading ub adj txns where ub: "fmlookup (valid_blocks sample_pooled) (leading_block sample_pooled) = Some leading"
    "UnconfirmedBlock_new sample_env 40 3 leading (from_signer sample_env sample_key) txns adj (hub_config sample_pooled) = Some (Inr ub)"
    "try_confirm sample_env ub sample_key = Some (Inr b)"
    using mine_on_Inr [OF b(1)] by blast
  have "height b = 2"
    using UnconfirmedBlock_new_Inr(5) [OF ub(2)] try_confirm_block(1) [OF ub(3)] ub(1) by (simp add: checked_add_Some)
  moreover have "block_valid sample_env b"
    using ub(3) confirmed_block_valid [OF sample_signatures] by (auto simp: try_confirm_def)
  ultimately show ?thesis using b sample_txn_valid by (auto simp: sound_block_def)
qed

text \<open>A block of height 2 has an identifier of its own.\<close>

lemma sample_id_height: "hash_bytes (block_id sample_env b) ! 1 = ucast (seqno b)"
  by (simp add: block_id_def sample_env_def sample_sha256_def sample_block_bytes_def numeral_eq_Suc)

lemma sample_high_unheard:
  assumes "height b = 2"
  shows "unheard sample_env sample_pooled b"
proof -
  have "seqno b = 2" using assms by (simp add: word_unat_eq_iff)
  then have "hash_bytes (block_id sample_env b) ! 1 = 2" using sample_id_height [of b] by simp
  then have "block_id sample_env b \<noteq> block_id sample_env sample_genesis" "block_id sample_env b \<noteq> block_id sample_env sample_block1"
    by (auto simp: sample_ids)
  then show ?thesis by (simp add: unheard_def sample_pooled_def)
qed

text \<open>Nodes with the same new hub, the first of which gets a block.\<close>

definition sample_net :: "nat net" where
  "sample_net = (\<lambda>i. \<lparr>node_hub = sample_start, mailbox = (if i = 1 then [NewBlock None sample_block1] else []),
     consumed = \<lambda>_. 0\<rparr>)"

lemma sample_net_hub: "node_hub (sample_net i) = sample_start"
  by (simp add: sample_net_def)

lemma sample_net_start: "net_start sample_env sample_config sample_net"
  using sample_start_new by (auto simp: net_start_def sample_net_def hub_start_def sample_block1_def)

section \<open>Cash spent twice in one block\<close>

text \<open>A second transaction with the input of \<open>sample_txn\<close>, and a block of the two on the first block.\<close>

definition other_txn :: Transaction where
  "other_txn =
     (let inner = \<lparr>txn_inputs = [reward sample_block1],
                   txn_outputs = [Cash_new 11 30 \<lparr>pub_key = [9]\<rparr>, Cash_new 12 15 \<lparr>pub_key = sample_key\<rparr>]\<rparr>
      in \<lparr>txn_inner = inner, txn_signature = \<lparr>sig_bytes = sample_key @ sample_inner_bytes inner\<rparr>\<rparr>)"

definition double_block :: Block where
  "double_block = sample_block_by sample_key (block_id sample_env sample_block1) 2 40 [sample_txn, other_txn] 3 60"

lemma other_txn_new:
  "Transaction_new sample_env sample_key [reward sample_block1]
     [Cash_new 11 30 \<lparr>pub_key = [9]\<rparr>, Cash_new 12 15 \<lparr>pub_key = sample_key\<rparr>] = Some (Inr other_txn)"
  by (simp add: Transaction_new_Inr amounts_ok_def sample_block1_def Cash_new_def from_signer_def other_txn_def Let_def)

lemma double_txns: "transaction_valid sample_env other_txn"
  "inputs sample_txn = [reward sample_block1]" "inputs other_txn = [reward sample_block1]"
  "outputs sample_txn = [Cash_new 9 20 \<lparr>pub_key = [8]\<rparr>, Cash_new 10 25 \<lparr>pub_key = sample_key\<rparr>]"
  "outputs other_txn = [Cash_new 11 30 \<lparr>pub_key = [9]\<rparr>, Cash_new 12 15 \<lparr>pub_key = sample_key\<rparr>]"
  by (rule new_transaction_valid [OF sample_signatures other_txn_new])
    (simp_all add: sample_txn_def other_txn_def Let_def inputs_def outputs_def)

lemma double_block_sound: "sound_block sample_env double_block"
proof -
  let ?bi = "sample_inner_on sample_key (block_id sample_env sample_block1) 2 40 [sample_txn, other_txn] 3 60"
  have "verify_nonce sample_env ?bi"
    using length_sample_inner(1) [of ?bi] sample_met [of "sample_sha256 (enc_block_inner sample_env ?bi)"]
    by (simp add: verify_nonce_def sample_inner_on_def sample_sha256_def)
  then show ?thesis
    by (simp add: double_block_def sound_block_def valid_block double_txns sample_txn_valid) (simp add: sample_block_by_def)
qed

lemma double_accepts: "\<exists>s1. accepts sample_env sample_s1 double_block s1"
proof -
  have fees: "fee sample_txn = Some 5" "fee other_txn = Some 5"
    by (simp_all add: fee_Some double_txns Cash_new_def)
  have rew: "expected_reward sample_config double_block = Some 60"
    by (simp add: expected_reward_def double_block_def block_subsidy_def checked_div_def checked_shr_def total_fees_def
        fees checked_add_def)
  have known: "fmlookup (valid_blocks sample_s1) (block_id sample_env sample_block1) = Some sample_block1" by simp
  note cash = cash_set_at_replays [OF hub_inv_blocks [OF sample_s1_inv] known hub_inv_cash [OF sample_s1_inv]]
  have "reward sample_block1 |\<in>| fold apply_block [sample_genesis, sample_block1] (cs_set (cash_set sample_s1))"
    by (simp add: apply_block_def)
  then have "\<not> missing_input (fold apply_block (branch (valid_blocks sample_s1) (block_id sample_env sample_block1))
      (cs_set (cash_set sample_s1))) double_block"
    unfolding sample_branch1 by (simp add: missing_input_def double_block_def double_txns)
  with cash rew show ?thesis
    by (simp add: accepts_def Let_def double_block_def expected_difficulty_def checked_rem_def Cash_new_def)
qed

lemma double_worth:
  "worth (unspent [sample_genesis, sample_block1]) = 100"
  "worth (unspent [sample_genesis, sample_block1, double_block]) = 200"
proof -
  have c: "reward sample_genesis = Cash_new 0 50 \<lparr>pub_key = genesis_key\<rparr>" "reward sample_block1 = Cash_new 1 50 \<lparr>pub_key = sample_key\<rparr>"
    "reward double_block = Cash_new 3 60 \<lparr>pub_key = sample_key\<rparr>" "transactions double_block = [sample_txn, other_txn]"
    by (simp_all add: sample_genesis_def sample_block1_def double_block_def)
  show "worth (unspent [sample_genesis, sample_block1]) = 100"
    by (simp add: worth_def unspent_def apply_block_def c Cash_new_def)
  show "worth (unspent [sample_genesis, sample_block1, double_block]) = 200"
    by (simp add: worth_def unspent_def apply_block_def apply_txn_def spend_def double_txns c Cash_new_def)
qed

end
