(* ===== verification/Node_Properties.thy ===== *)
theory Node_Properties
  imports Sample_Network
begin

text \<open>
  Properties of a node as others see it: the ledger its hub refines, the answers and errors of the
  hub, the tasks that connect it to other nodes, the chains the tests send it, and several nodes.
\<close>

section \<open>The hub\<close>

text \<open>C12: The hub refines the ledger: whatever well-typed messages it handles, its valid blocks, its
  leading block and its mempool change only by pooling valid transactions and by putting blocks that
  follow the rules of the currency on blocks they extend, the tip moving only to higher blocks.\<close>

theorem hub_refines_ledger:
  assumes "env_ok env" "signatures_verify env" "hub_new env i cfg = Some s0"
    and "reachable ((=) s0) (message_ok env) (hub_step env) s"
  shows "ledger_run env cfg (ledger_of s0) (ledger_of s)"
  using assms(1,3) hub_new_inv [OF assms(1-3)]
  by (intro hub_ledger.reachable_refines [OF assms(4)]) (auto simp: hub_new_def Let_def)

theorem hub_refines_ledger_witness:
  "ledger_run sample_env sample_config (ledger_of sample_start) (ledger_of sample_s1)"
proof (rule hub_refines_ledger [OF sample_env_ok sample_signatures sample_start_new])
  have "message_ok sample_env (NewBlock None sample_block1)" by (simp add: sample_block1_def)
  moreover have "hub_step sample_env sample_start (NewBlock None sample_block1) sample_s1"
    by (rule hub_step.handles [OF sample_handle1])
  moreover have "reachable ((=) sample_start) (message_ok sample_env) (hub_step sample_env) sample_start"
    by (rule reachable.started) simp
  ultimately show "reachable ((=) sample_start) (message_ok sample_env) (hub_step sample_env) sample_s1"
    by (metis reachable.handled)
qed

text \<open>C23: What the handler returns: a reply of exactly the type of the reply port the message carries
  and none without a port (lists as long as the question); an error only for a closed port, for a
  transaction or block the node does not have, or when a stream to a peer fails.\<close>

theorem handler_returns:
  assumes "handle env now s m = Some (r, s')"
  shows "case r of
      Inr reply \<Rightarrow> reply_fits m reply
    | Inl e \<Rightarrow> (e = ReplyDropped \<and> reply_port_of m = Some False) \<or>
        (e = NoSuchTransaction \<and> (\<exists>n t. m = GetTransaction n t \<and> fmlookup (mempool s) t = None)) \<or>
        (e = NoSuchBlock \<and> (\<exists>n i. m = GetBlock n i \<and> fmlookup (valid_blocks s) i = None)) \<or>
        (stream_error e \<and> reply_port_of m = None)"
proof (cases r)
  case (Inl e)
  then show ?thesis using handle_error [of env now s m e s'] assms by simp
next
  case (Inr reply)
  then show ?thesis using handle_reply_fits [of env now s m reply s'] assms by simp
qed

theorem handler_returns_witness:
  "handle sample_env 0 sample_start (GetBlock 5 (Sha256Hash [])) = Some (Inl NoSuchBlock, sample_start) \<and>
    fmlookup (valid_blocks sample_start) (Sha256Hash []) = None"
proof -
  have h: "handle sample_env 0 sample_start (GetBlock 5 (Sha256Hash [])) = Some (Inl NoSuchBlock, sample_start)"
    by (simp add: get_block_def sample_ids)
  from handler_returns [OF h] have "fmlookup (valid_blocks sample_start) (Sha256Hash []) = None"
    by (auto simp: stream_error_def)
  with h show ?thesis by simp
qed

text \<open>C37: A peer that answers with a block whose parent is unknown, under the name of a node that is
  not a peer, makes the handler fail, which stops the hub: the hub asks the node named in the answer
  for the parent, not the one the answer came from.\<close>

theorem forged_source_stops_hub:
  assumes "env_ok env" "hub_inv env s" "fresh_block env s b" "sound_block env b" "timestamp b \<le> now"
    and "fmlookup (valid_blocks s) (prev_id b) = None"
    and "wf (parent_rel (unconfirmed_blocks (put_aside env s b)))"
    and "claimed |\<notin>| fmdom (peers s)"
  shows "handle env now s (peer_cast sender (GetBlockResponse claimed b)) = Some (Inl NoSuchPeer, put_aside env s b)"
proof -
  have "fmlookup (peers (put_aside env s b)) claimed = None"
    using assms(8) by (simp add: put_aside_def fmdom_notD)
  then show ?thesis
    using new_block_orphan(1) [OF assms(1-7), of claimed] by (simp add: send_to_peer_def no_reply_def)
qed

theorem forged_source_stops_hub_witness:
  "handle sample_env 100 sample_start (peer_cast 5 (GetBlockResponse 6 sample_block2)) =
     Some (Inl NoSuchPeer, sample_waiting)"
  using forged_source_stops_hub [OF sample_env_ok sample_start_inv sample_fresh2 _ _
      sample_block2_missing sample_waiting_acyclic [unfolded sample_waiting_def], of 100 6 5]
  by (simp add: sample_waiting_def)

text \<open>A client that asks for the leading block gets the block that led when its first query was
  answered, whatever messages the hub handles before the second one: the block asked for is never
  missing, and the call does not panic. If one of these messages stops the hub it gets an error.\<close>

theorem leading_block_is_found:
  assumes "env_ok env" "hub_inv env s" "list_all (\<lambda>(now, m). message_ok env m) between"
    and "serve env s between = Some (stopped, s')"
  shows "\<exists>b. fmlookup (valid_blocks s) (leading_block s) = Some b \<and>
    helper_leading_block env now1 now2 between s = Some (if stopped = None then Inr b else Inl CallFailed, s')"
proof (cases stopped)
  case None
  then have "handle_all env s between = Some s'" using assms(4) by (simp add: serve_ends)
  with helper_leading_block_result [OF assms(1-3) this, of now1 now2] None show ?thesis by auto
next
  case (Some e)
  obtain b where "fmlookup (valid_blocks s) (leading_block s) = Some b"
    using hub_inv_leader [OF assms(2)] by (auto simp: leads_def)
  with Some assms(4) show ?thesis by (simp add: helper_leading_block_def call_def send_reply_def)
qed

theorem leading_block_is_found_witness:
  "helper_leading_block sample_env 0 200 [(100, NewBlock None sample_block1)] sample_start =
     Some (Inr sample_genesis, sample_s1)"
proof -
  have "serve sample_env sample_start [(100, NewBlock None sample_block1)] = Some (None, sample_s1)"
    using sample_handle1 by simp
  from leading_block_is_found [OF sample_env_ok sample_start_inv _ this, of 0 200] show ?thesis
    by (simp add: sample_block1_def)
qed

section \<open>Money\<close>

text \<open>C8: The supply of money follows the schedule: in every reachable state, if the blocks of a valid
  branch spend only cash that is there, each piece once, and create only fresh cash, then what the
  unspent cash of the branch is worth is exactly the sum of the subsidies of its heights, the initial
  one halved once per half period. Fees move money and neither make nor lose any.\<close>

theorem money_follows_schedule:
  assumes "env_ok env" "signatures_verify env" "reachable (hub_start env cfg) (message_ok env) (hub_step env) s"
    and "fmlookup (valid_blocks s) i = Some b"
    and "journal_ok clean_block apply_block (branch (valid_blocks s) i) {||}"
  shows "worth (unspent (branch (valid_blocks s) i)) = (\<Sum>h \<le> height b. subsidy_at (hub_config s) h)"
proof -
  have inv: "hub_inv env s" by (rule reachable_hub_inv [OF assms(3,1,2)])
  obtain g where g: "fmlookup (valid_blocks s) (genesis_id s) = Some g" "amount (reward g) = initial_block_subsidy (hub_config s)"
    using genesis_amount [OF assms(1-3)] by blast
  then have "unat (amount (reward g)) = subsidy_at (hub_config s) 0" by (simp add: subsidy_at_def)
  with branch_worth [OF inv g(1) assms(4,5)] show ?thesis by (simp only: subsidy_sum)
qed

theorem money_follows_schedule_witness:
  "worth (unspent [sample_genesis, sample_block1]) = 50 + 50"
proof -
  have "journal_ok clean_block apply_block (branch (valid_blocks sample_s1) (block_id sample_env sample_block1)) {||}"
    unfolding sample_branch1
    by (simp add: clean_block_def apply_block_def) (simp add: sample_genesis_def sample_block1_def Cash_new_def)
  from money_follows_schedule [OF sample_env_ok sample_signatures sample_reachable _ this, of sample_block1]
  have "worth (unspent [sample_genesis, sample_block1]) = (\<Sum>h \<le> 1. subsidy_at sample_config h)"
    unfolding sample_branch1 by simp
  then show ?thesis by (simp add: subsidy_at_def)
qed


section \<open>Connecting to other nodes\<close>

text \<open>C24: The subscriber dials each node at most once and only nodes it did not know, also after a
  dial that failed, and every connection it reads from belongs to a peer of the hub, whatever the
  hub handles between its calls, also if that stops the hub.\<close>

theorem nodes_are_dialled_once:
  assumes "env_ok env" "subscriber_inv env w s" "list_all (event_ok env) es"
    and "subscriber_run env own_id runs w s es = Some (ids, stop, w', s')"
  shows "distinct ids \<and> set ids \<inter> fset (known_ids w) = {} \<and> set ids \<subseteq> fset (known_ids w') \<and>
    hub_inv env s' \<and> set (sub_tasks w') \<subseteq> fset (fmdom (peers s'))"
  using subscriber_run_dials [OF assms] by (auto simp: dials_def subscriber_inv_def)

theorem nodes_are_dialled_once_witness:
  "\<exists>w' s'. subscriber_run sample_env [1] True \<lparr>known_ids = {||}, sub_tasks = []\<rparr> sample_start
      [Item 0 (Some 5) [] 0 (Opened []), Item 0 (Some 5) [] 0 (Opened []), Item 0 None [] 0 ConnectFailed] =
    Some ([5], Some DiscoveryEnded, w', s') \<and> sub_tasks w' = [5] \<and> set (sub_tasks w') \<subseteq> fset (fmdom (peers s'))"
proof -
  let ?w = "\<lparr>known_ids = {||}, sub_tasks = []\<rparr> :: nat subscriber"
  let ?es = "[Item 0 (Some 5) [] 0 (Opened []), Item 0 (Some 5) [] 0 (Opened []), Item 0 None [] 0 ConnectFailed]
    :: (nat, u8 list) watch_event list"
  let ?w' = "\<lparr>known_ids = {|5|}, sub_tasks = [5]\<rparr> :: nat subscriber" and ?s' = "sample_start\<lparr>peers := fmupd 5 [1] fmempty\<rparr>"
  have run: "subscriber_run sample_env [1] True ?w sample_start ?es = Some ([5], Some DiscoveryEnded, ?w', ?s')"
    by (simp add: found_peer_def dial_peer_def should_connect_def takes_peer_def PEER_SIZE_LIMIT_def Let_def fcard_fempty
        served_def)
  have "subscriber_inv sample_env ?w sample_start" by (simp add: subscriber_inv_def sample_start_inv)
  from nodes_are_dialled_once [OF sample_env_ok this _ run] run show ?thesis by auto
qed

text \<open>A node with all its peers never takes another one and never loses one: no message it
  handles changes whom it is connected to, also when the connections have failed.\<close>

theorem full_node_keeps_its_peers:
  assumes "env_ok env" "hub_inv env s" "fcard (fmdom (peers s)) = PEER_SIZE_LIMIT"
    and "list_all (\<lambda>(now, m). message_ok env m) ms" "handle_all env s ms = Some s'"
  shows "fmdom (peers s') = fmdom (peers s)"
  by (rule full_node_keeps_peers [OF assms])

theorem full_node_keeps_its_peers_witness:
  "\<exists>s'. handle_all sample_env (sample_start\<lparr>peers := fmupd 7 [] (fmupd 8 [] (fmupd 9 [] fmempty))\<rparr>)
      [(0, NewPeer 5 [] True True)] = Some s' \<and> fmdom (peers s') = {|7, 8, 9|}"
proof -
  let ?s = "sample_start\<lparr>peers := fmupd 7 [] (fmupd 8 [] (fmupd 9 [] fmempty))\<rparr>"
  have "hub_inv sample_env ?s" using sample_start_inv by (simp add: hub_inv_def PEER_SIZE_LIMIT_def fcard_finsert_if)
  moreover have h: "handle_all sample_env ?s [(0, NewPeer 5 [] True True)] = Some ?s"
    by (simp add: new_peer_def send_reply_def PEER_SIZE_LIMIT_def fcard_finsert_if)
  ultimately have "fmdom (peers ?s) = {|7, 8, 9|}"
    using full_node_keeps_its_peers [OF sample_env_ok, of ?s "[(0, NewPeer 5 [] True True)]" ?s]
    by (simp add: PEER_SIZE_LIMIT_def fcard_finsert_if)
  with h show ?thesis by blast
qed

text \<open>C36: The listener stops at the first connection that breaks the handshake: it goes on over
  connections that fail before a stream is open, over peers the hub refuses and over whatever the
  hub handles meanwhile, and ends with an error exactly at the first stream that fails, is shorter
  than an identifier or names no node, and when the endpoint closes; nothing later is accepted. It ends
  earlier only if the hub has stopped, with the first connection it tells the hub of.\<close>

theorem listener_stops_at_bad_handshake:
  assumes "listener_run env id_from_bytes runs tasks s es = Some (stop, runs', tasks', s')"
  shows "stop = (case dropWhile (\<lambda>e. fatal_event id_from_bytes e = None) es of
      [] \<Rightarrow> None | e # _ \<Rightarrow> fatal_event id_from_bytes e) \<or> stop = Some HubCallFailed \<and> \<not> runs'"
  by (rule listener_run_stops [OF assms])

theorem listener_stops_at_bad_handshake_witness:
  "\<exists>tasks' s'. listener_run sample_env (\<lambda>_. None) True [] sample_start
      [Incoming 0 ConnectionError, HubHandles 0 (QueryPeers True), Incoming 0 (Accepted_stream [] [1, 2, 3]),
       Incoming 0 NoMoreConnections] = Some (Some HandshakeTooShort, True, tasks', s')"
proof -
  let ?es = "[Incoming 0 ConnectionError, HubHandles 0 (QueryPeers True), Incoming 0 (Accepted_stream [] [1, 2, 3]),
      Incoming 0 NoMoreConnections]"
  obtain stop tasks' s' where run: "listener_run sample_env (\<lambda>_. None) True [] sample_start ?es = Some (stop, True, tasks', s')"
    by (simp add: listen_once_def read_exact_def served_def send_reply_def)
  from listener_stops_at_bad_handshake [OF run] have "stop = Some HandshakeTooShort" by simp
  with run show ?thesis by blast
qed

text \<open>Polling the handle of a node: once both tasks have ended it is ready, with the error of the
  first task before that of the actor; with one task ended well and the other running it is pending,
  but the result of the first is lost, and the next poll panics.\<close>

theorem hub_handle_polls:
  assumes "join_handle_ok poll state"
  shows "(state (new_peer_listener_handler h) = Ended r \<and> state (actor_handle h) = Ended r' \<longrightarrow>
      (\<exists>h'. hub_handle_poll poll h = Some (Ready (case r of Inl e \<Rightarrow> Inl e | Inr _ \<Rightarrow> r'), h'))) \<and>
    (state (new_peer_listener_handler h) = Ended (Inr ()) \<and> state (actor_handle h) = Running \<or>
       state (new_peer_listener_handler h) = Running \<and> state (actor_handle h) = Ended (Inr ()) \<longrightarrow>
      (\<exists>h'. hub_handle_poll poll h = Some (Pending, h') \<and> hub_handle_poll poll h' = None))"
  using hub_handle_both [OF assms] hub_handle_one [OF assms] by blast

theorem hub_handle_polls_witness:
  "\<exists>h'. hub_handle_poll sample_poll \<lparr>new_peer_listener_handler = Ended (Inr ()), actor_handle = Running\<rparr> =
     Some (Pending, h') \<and> hub_handle_poll sample_poll h' = None"
  using hub_handle_polls [OF sample_poll_ok, of "\<lparr>new_peer_listener_handler = Ended (Inr ()), actor_handle = Running\<rparr>"]
  by simp

section \<open>What the tests send\<close>

text \<open>C26: The test \<open>invalid_transaction\<close> passes: a transaction whose output was replaced after it was
  signed is refused when it is decoded, if a signature fits only the message it was made for, the
  encoding determines the amounts, and encoding and parsing are inverse to each other.\<close>

theorem forged_transaction_is_refused:
  assumes "signatures_verify c" "signature_binds c sk" "amounts_encoded c"
    and "create_invalid_transaction c sk a u1 u2 u3 = Some t" "enc t = Some bytes"
    and "parse bytes = Some (transaction_raw t)"
  shows "transaction_try_from c (transaction_raw t) = Some (Inl InvalidTransaction) \<and>
    invalid_transaction c enc parse sk a u1 u2 u3 = Some True"
  using forged_transaction_rejected [OF assms(1-4)] invalid_transaction_result [of c sk a u1 u2 u3 t enc bytes parse] assms
  by blast

theorem forged_transaction_is_refused_witness:
  "\<exists>parse. invalid_transaction binding_env (\<lambda>_. Some []) parse [7, 7] 30 1 2 3 = Some True \<and> parse [] \<noteq> None"
proof -
  obtain t where t: "create_invalid_transaction binding_env [7, 7] 30 1 2 3 = Some t"
    using sample_invalid_transaction by blast
  have "invalid_transaction binding_env (\<lambda>_. Some []) (\<lambda>_. Some (transaction_raw t)) [7, 7] 30 1 2 3 = Some True"
    using forged_transaction_is_refused [OF binding_signatures binding_amounts t,
        of "\<lambda>_. Some []" "[]" "\<lambda>_. Some (transaction_raw t)"] by simp
  then show ?thesis by (intro exI [of _ "\<lambda>_. Some (transaction_raw t)"]) simp
qed

text \<open>The test \<open>invalid_block\<close> passes: a block whose miner was replaced after it was signed is
  refused when it is decoded, if no signature of one key fits the other.\<close>

theorem forged_block_is_refused:
  assumes "keys_apart c sk new_key" "create_empty_chain c INCOMPLETE_TESTING_CONFIG [seed1] = Some chain"
    and "create_invalid_block c (now, uuid, sk) new_key chain = Some b"
    and "enc b = Some bytes" "parse bytes = Some (raw_of_block b)"
  shows "(\<exists>e. block_try_from c (block_raw b) = Inl e) \<and>
    invalid_block c enc parse seed1 (now, uuid, sk) new_key = Some True"
  using forged_block_rejected [OF assms(1,3)] invalid_block_result [of c sk new_key seed1 chain now uuid b enc bytes parse] assms
  by blast

theorem forged_block_is_refused_witness:
  "\<exists>parse. invalid_block sample_env (\<lambda>_. Some []) parse (0, 0, []) (20, 1, [7, 7]) [8, 8] = Some True \<and> parse [] \<noteq> None"
proof -
  obtain g where g: "create_empty_chain sample_env INCOMPLETE_TESTING_CONFIG [(0, 0, [])] = Some [g]" "plain_block g" "height g = 0"
    using testing_genesis by (auto simp: create_empty_chain_def)
  obtain b0 where "create_empty_block sample_env (20, 1, [7, 7]) [g] = Some b0"
    using sample_empty_block [of "[g]" 20 1 "[7, 7]"] g by auto
  then obtain b where b: "create_invalid_block sample_env (20, 1, [7, 7]) [8, 8] [g] = Some b"
    by (simp add: create_invalid_block_def)
  have "invalid_block sample_env (\<lambda>_. Some []) (\<lambda>_. Some (raw_of_block b)) (0, 0, []) (20, 1, [7, 7]) [8, 8] = Some True"
    using forged_block_is_refused [OF sample_keys_apart g(1) b,
        of "\<lambda>_. Some []" "[]" "\<lambda>_. Some (raw_of_block b)"] by simp
  then show ?thesis by (intro exI [of _ "\<lambda>_. Some (raw_of_block b)"]) simp
qed

text \<open>C22: The test \<open>leading_block_with_forks\<close> on one hub, at every length up to 20 (where the only
  adjustment of the difficulty reads genesis): a new hub that gets a chain of empty blocks and then
  two forks that leave it four blocks below its end takes every block without an error, and its
  confirmed chain is the first of the longest of the three.\<close>

theorem first_longest_chain_leads:
  assumes "env_ok env" "signatures_verify env" "hub_new env i cfg = Some s"
    and "testing_rules cfg" "\<forall>i. enc_message env (Broadcast (BroadcastBlock i)) \<noteq> None"
    and "create_empty_chain env cfg seeds = Some old" "4 < length seeds" "length seeds \<le> 20"
    and "kept = take (length old - 4) old"
    and "extend_chain env cfg kept seeds1 = Some (kept @ more1)" "length (kept @ more1) \<le> 20"
      "extend_chain env cfg kept seeds2 = Some (kept @ more2)" "length (kept @ more2) \<le> 20"
    and "distinct (map (block_id env) (old @ more1 @ more2))"
    and "sorted (map timestamp old)" "sorted (map timestamp (kept @ more1))"
      "sorted (map timestamp (kept @ more2))" "\<forall>b \<in> set (old @ more1 @ more2). timestamp b \<le> now"
  shows "\<exists>s' chain. leading_block_with_forks env cfg now s seeds seeds1 seeds2 =
      Some (old, kept @ more1, kept @ more2, s') \<and> hub_inv env s' \<and>
    chain = first_longest (first_longest old (kept @ more1)) (kept @ more2) \<and>
    confirmed_chain s' = Some chain \<and> leading_block s' = block_id env (last chain)"
proof -
  let ?c = "first_longest (first_longest old (kept @ more1)) (kept @ more2)"
  obtain s' where s': "leading_block_with_forks env cfg now s seeds seeds1 seeds2 =
      Some (old, kept @ more1, kept @ more2, s')" "hub_inv env s'" "follows env s' ?c"
    using leading_block_with_forks_result [OF assms] by blast
  have "length old \<le> 20" using create_empty_chain_length [OF assms(6)] assms(8) by simp
  then have "length ?c < 2 ^ 64" using assms(11,13) by (auto simp: first_longest_def)
  with s' follows_confirmed [OF s'(2,3)] show ?thesis by (auto simp: follows_def)
qed

theorem first_longest_chain_leads_witness:
  "\<exists>s old fork1 fork2 s'. hub_new sample_env (0 :: nat) fork_config = Some s \<and>
     leading_block_with_forks sample_env fork_config 100 s (map fork_seed [0, 1, 2, 3, 4])
       (map fork_seed [11, 12, 13, 14, 15]) (map fork_seed [21, 22, 23, 24]) = Some (old, fork1, fork2, s') \<and>
     length old = 5 \<and> length fork1 = 6 \<and> confirmed_chain s' = Some fork1"
proof -
  obtain s where s: "hub_new sample_env (0 :: nat) fork_config = Some s" using fork_start by blast
  obtain g old more1 more2 where
    chains: "create_empty_chain sample_env fork_config (map fork_seed [0, 1, 2, 3, 4]) = Some (g # old)"
      "extend_chain sample_env fork_config [g] (map fork_seed [11, 12, 13, 14, 15]) = Some ([g] @ more1)"
      "extend_chain sample_env fork_config [g] (map fork_seed [21, 22, 23, 24]) = Some ([g] @ more2)"
    and len: "length old = 4" "length more1 = 5" "length more2 = 4"
    and ids: "distinct (map (block_id sample_env) ((g # old) @ more1 @ more2))"
    and times: "map timestamp (g # old) = [10, 21, 22, 23, 24]" "map timestamp ([g] @ more1) = [10, 31, 32, 33, 34, 35]"
      "map timestamp ([g] @ more2) = [10, 41, 42, 43, 44]"
    using fork_chains by (elim exE conjE) (rule that; assumption)
  have late: "\<forall>b \<in> set ((g # old) @ more1 @ more2). timestamp b \<le> 100"
  proof -
    have "list_all (\<lambda>t. t \<le> 100) (map timestamp (g # old) @ map timestamp ([g] @ more1) @ map timestamp ([g] @ more2))"
      unfolding times by simp
    then show ?thesis by (auto simp: list_all_iff)
  qed
  have kept: "[g] = take (length (g # old) - 4) (g # old)" using len by simp
  have sorted: "sorted (map timestamp (g # old))" "sorted (map timestamp ([g] @ more1))" "sorted (map timestamp ([g] @ more2))"
    unfolding times by simp_all
  have best: "first_longest (first_longest (g # old) ([g] @ more1)) ([g] @ more2) = [g] @ more1"
    using len by (simp add: first_longest_def)
  have enc: "\<forall>i. enc_message sample_env (Broadcast (BroadcastBlock i)) \<noteq> None" using sample_orders_messages by blast
  have short: "4 < length (map fork_seed [0, 1, 2, 3, 4])" "length (map fork_seed [0, 1, 2, 3, 4]) \<le> 20"
    "length ([g] @ more1) \<le> 20" "length ([g] @ more2) \<le> 20" using len by simp_all
  obtain s' where "leading_block_with_forks sample_env fork_config 100 s (map fork_seed [0, 1, 2, 3, 4])
      (map fork_seed [11, 12, 13, 14, 15]) (map fork_seed [21, 22, 23, 24]) = Some (g # old, [g] @ more1, [g] @ more2, s')"
    "confirmed_chain s' = Some ([g] @ more1)"
    using first_longest_chain_leads [OF sample_env_ok sample_signatures s fork_config_rules enc chains(1) short(1,2)
      kept chains(2) short(3) chains(3) short(4) ids sorted late] unfolding best by blast
  moreover have "length (g # old) = 5" "length ([g] @ more1) = 6" using len by simp_all
  ultimately show ?thesis using s by blast
qed

section \<open>Several nodes\<close>

text \<open>C21: In every run of a network of nodes with one configuration each node satisfies the invariant
  of a hub on its own, and two nodes that both hold a block hold the same blocks below it down to
  genesis, as long as no two of their blocks hash to the same identifier.\<close>

theorem nodes_share_history:
  assumes "env_ok env" "signatures_verify env" "net_run env parse net0 net" "net_start env cfg net0"
    and "no_collision env (valid_blocks (node_hub (net i))) (valid_blocks (node_hub (net j)))"
    and "fmlookup (valid_blocks (node_hub (net i))) k = Some b" "fmlookup (valid_blocks (node_hub (net j))) k = Some b'"
  shows "hub_inv env (node_hub (net i)) \<and> hub_inv env (node_hub (net j)) \<and> b = b' \<and>
    branch (valid_blocks (node_hub (net i))) k = branch (valid_blocks (node_hub (net j))) k"
proof -
  have s: "hub_inv env (node_hub (net i))" "hub_inv env (node_hub (net j))"
    "branch (valid_blocks (node_hub (net i))) k = branch (valid_blocks (node_hub (net j))) k"
    using shared_block [OF assms] by simp_all
  then show ?thesis
    using branch_last [OF hub_inv_blocks [OF s(1)] assms(6)] branch_last [OF hub_inv_blocks [OF s(2)] assms(7)] by simp
qed

theorem nodes_share_history_witness:
  "\<exists>net. net_run sample_env sample_parse sample_net net \<and> node_hub (net 1) = sample_s1 \<and> node_hub (net 2) = sample_start \<and>
    branch (valid_blocks sample_s1) (genesis_id sample_s1) = branch (valid_blocks sample_start) (genesis_id sample_s1)"
proof -
  let ?net = "sample_net(1 := (sample_net 1)\<lparr>node_hub := sample_s1, mailbox := []\<rparr>)"
  have "net_step sample_env sample_parse sample_net ?net"
    by (rule net_step.deliver [where m = "NewBlock None sample_block1" and now = 100 and r = "Inr None"])
       (simp_all add: sample_net_def sample_handle1 del: handle.simps)
  then have run: "net_run sample_env sample_parse sample_net ?net" by blast
  have g: "fmlookup (valid_blocks sample_s1) (genesis_id sample_s1) = Some sample_genesis"
    "fmlookup (valid_blocks sample_start) (genesis_id sample_s1) = Some sample_genesis" by (simp_all add: sample_ids)
  have apart: "no_collision sample_env (valid_blocks sample_s1) (valid_blocks sample_start)"
    by (auto simp: no_collision_def sample_ids elim!: fmran'E split: if_splits)
  have hubs: "node_hub (?net 1) = sample_s1" "node_hub (?net 2) = sample_start" by (simp_all add: sample_net_def)
  have "branch (valid_blocks (node_hub (?net 1))) (genesis_id sample_s1) =
      branch (valid_blocks (node_hub (?net 2))) (genesis_id sample_s1)"
    using nodes_share_history [OF sample_env_ok sample_signatures run sample_net_start, of 1 2 "genesis_id sample_s1"]
      apart g unfolding hubs by blast
  with run hubs show ?thesis by (intro exI [of _ ?net]) simp
qed

text \<open>A new transaction reaches a peer: from a node that gets it from a client, over two streams
  that lose nothing, by announcement, request and answer, it ends in the mempools of both.\<close>

theorem transaction_spreads:
  assumes "i \<noteq> j" "reliable env" "transaction_travels env parse t"
    and "link net i j out" "link net j i inn" "local_node_id (node_hub (net i)) = i"
    and "mailbox (net i) = [NewTransaction t]" "mailbox (net j) = []"
    and "txn_id env t |\<notin>| fmdom (mempool (node_hub (net i)))" "\<not> knows_transaction (node_hub (net j)) (txn_id env t)"
  shows "\<exists>net'. net_run env parse net net' \<and>
    fmlookup (mempool (node_hub (net' i))) (txn_id env t) = Some t \<and>
    fmlookup (mempool (node_hub (net' j))) (txn_id env t) = Some t"
  by (rule transaction_reaches_peer [OF assms])

theorem transaction_spreads_witness:
  "\<exists>net'. net_run sample_env (pair_parse sample_txn sample_block1)
      (sample_pair sample_s1 (NewTransaction sample_txn)) net' \<and>
    fmlookup (mempool (node_hub (net' 2))) (txn_id sample_env sample_txn) = Some sample_txn"
proof -
  have "transaction_travels sample_env (pair_parse sample_txn sample_block1) sample_txn"
    by (rule sample_transaction_travels [OF sample_txn_valid]) (simp_all add: sample_txn_def Let_def)
  moreover have "\<not> knows_transaction (node_hub (sample_pair sample_s1 (NewTransaction sample_txn) 2)) (txn_id sample_env sample_txn)"
    by (simp add: knows_transaction_def node_of_def sample_s1_def with_cash_def)
  ultimately show ?thesis
    using transaction_spreads [OF _ sample_reliable _ sample_pair_links, of "pair_parse sample_txn sample_block1" sample_txn
        sample_s1 "NewTransaction sample_txn"] by auto
qed



end
