(* ===== verification/Miner_Loop.thy ===== *)
theory Miner_Loop
  imports Miner Hub_Client
begin

text \<open>
  The loop of the miner (\<open>MinerConfig::run\<close> of \<open>src/src/bin/miner.rs\<close>) beside a hub that serves others: a
  round as the calls it makes, with the messages the hub handles between them, and several rounds,
  each of which casts its block to the hub.
\<close>

section \<open>A round as a sequence of calls\<close>

fun mempool_of :: "'n reply \<Rightarrow> (TransactionId \<times> u64) list option" where
  "mempool_of (MemPoolReply x) = Some x" | "mempool_of _ = None"
fun transactions_of :: "'n reply \<Rightarrow> Transaction option list option" where
  "transactions_of (TransactionsReply x) = Some x" | "transactions_of _ = None"
fun timestamp_of :: "'n reply \<Rightarrow> Timestamp option" where
  "timestamp_of (TimestampReply x) = Some x" | "timestamp_of _ = None"

text \<open>A call after the hub has handled the messages \<open>ms\<close>.\<close>

definition call_after ::
    "('sk, 'n::linorder, 'st) hub_env \<Rightarrow> Timestamp \<Rightarrow> (Timestamp \<times> ('n, 'st) PeerHubActorMessage) list \<Rightarrow>
     ('n, 'st) hub \<Rightarrow> ('n, 'st) PeerHubActorMessage \<Rightarrow> ('n reply \<Rightarrow> 'a option) \<Rightarrow>
     ((call_error + 'a) \<times> ('n, 'st) hub) option" where
  "call_after env now ms s msg proj = do {
     (stopped, s1) \<leftarrow> serve env s ms;
     (if stopped \<noteq> None then Some (Inl CallFailed, s1) else call env now s1 msg proj) }"

datatype round_error = RoundCallFailed | RoundFailed mine_error

definition call_failed :: "('n, 'st) hub \<Rightarrow> ((round_error + 'a) \<times> ('n, 'st) hub) option" where
  "call_failed s = Some (Inl RoundCallFailed, s)"

text \<open>\<open>ms1\<close> to \<open>ms4\<close> are the messages of others before the second to the fifth call. Where the fifth is not
  made, the next thing the miner asks of the hub is to take the block, which fails if it has stopped.\<close>

definition mine_with_calls ::
    "('sk, 'n::linorder, 'st) hub_env \<Rightarrow> Timestamp \<Rightarrow> Uuid \<Rightarrow> Config \<Rightarrow> 'sk \<Rightarrow> CoinAddress \<Rightarrow>
     (Timestamp \<times> ('n, 'st) PeerHubActorMessage) list \<Rightarrow> (Timestamp \<times> ('n, 'st) PeerHubActorMessage) list \<Rightarrow>
     (Timestamp \<times> ('n, 'st) PeerHubActorMessage) list \<Rightarrow> (Timestamp \<times> ('n, 'st) PeerHubActorMessage) list \<Rightarrow>
     ('n, 'st) hub \<Rightarrow> ((round_error + Block) \<times> ('n, 'st) hub) option" where
  "mine_with_calls env now uuid config signing_key own ms1 ms2 ms3 ms4 s = do {
     (r, s1) \<leftarrow> helper_leading_block env now now ms1 s;
     (case r of
        Inl _ \<Rightarrow> call_failed s1
      | Inr leading \<Rightarrow> do {
          (r, s2) \<leftarrow> call_after env now ms2 s1 (QueryMemPool True) mempool_of;
          (case r of
             Inl _ \<Rightarrow> call_failed s2
           | Inr fees \<Rightarrow> do {
               let top_ids = pick_transactions (unat (block_txn_limit config)) fees;
               (r, s3) \<leftarrow> call_after env now ms3 s2 (QueryTransactions top_ids True) transactions_of;
               (case r of
                  Inl _ \<Rightarrow> call_failed s3
                | Inr found \<Rightarrow> do {
                    new_seqno \<leftarrow> checked_add (seqno leading) 1;
                    rem \<leftarrow> checked_rem new_seqno (difficulty_adjustment_period config);
                    (r, runs, s4) \<leftarrow> (if rem = 0
                       then map_option (\<lambda>(r, s4). (map_sum id Some r, True, s4))
                              (call_after env now ms4 s3 (QueryDifficultyAdjustTime new_seqno True) timestamp_of)
                       else map_option (\<lambda>(stopped, s4). (Inr None, stopped = None, s4)) (serve env s3 ms4));
                    (case r of
                       Inl _ \<Rightarrow> call_failed s4
                     | Inr adjust \<Rightarrow> do {
                         built \<leftarrow> UnconfirmedBlock_new env now uuid leading own
                                   (found_transactions found) adjust config;
                         (case built of
                            Inl e \<Rightarrow> Some (Inl (RoundFailed (BuildFailed e)), s4)
                          | Inr unconfirmed_block \<Rightarrow> do {
                              confirmed \<leftarrow> try_confirm env unconfirmed_block signing_key;
                              (case confirmed of
                                 Inl e \<Rightarrow> Some (Inl (RoundFailed (ConfirmFailed e)), s4)
                               | Inr block \<Rightarrow> if runs then Some (Inr block, s4) else call_failed s4) }) }) }) }) }) }"

section \<open>Every call is answered\<close>

lemma handle_all_steps:
  assumes env: "env_ok env" and inv: "hub_inv env s"
    and run: "handle_all env s ms1 = Some s1" "handle_all env s1 ms2 = Some s2" "handle_all env s2 ms3 = Some s3"
      "handle_all env s3 ms4 = Some s4"
    and ok: "list_all (\<lambda>(now, m). message_ok env m) (ms1 @ ms2 @ ms3 @ ms4)"
  shows "hub_inv env s1" "hub_inv env s2" "hub_inv env s3" "hub_inv env s4"
    "keeps env s s1" "keeps env s1 s4" "keeps env s s4"
proof -
  have ok': "list_all (\<lambda>(now, m). message_ok env m) ms1" "list_all (\<lambda>(now, m). message_ok env m) ms2"
    "list_all (\<lambda>(now, m). message_ok env m) ms3" "list_all (\<lambda>(now, m). message_ok env m) ms4"
    using ok by simp_all
  note k1 = handle_all_keeps [OF env inv ok'(1) run(1)]
  note k2 = handle_all_keeps [OF env conjunct1 [OF k1] ok'(2) run(2)]
  note k3 = handle_all_keeps [OF env conjunct1 [OF k2] ok'(3) run(3)]
  note k4 = handle_all_keeps [OF env conjunct1 [OF k3] ok'(4) run(4)]
  show "hub_inv env s1" "hub_inv env s2" "hub_inv env s3" "hub_inv env s4" "keeps env s s1"
    using k1 k2 k3 k4 by simp_all
  show "keeps env s1 s4"
    using k2 k3 k4 by (meson keeps_trans)
  with \<open>keeps env s s1\<close> show "keeps env s s4" by (rule keeps_trans)
qed

lemma call_mempool:
  assumes "orders_ok env" "hub_inv env s"
  shows "\<exists>fees. query_mempool env s = Some fees \<and> call env now s (QueryMemPool True) mempool_of = Some (Inr fees, s)"
  using query_mempool_spec [OF assms] by (auto simp: call_def send_reply_def)

lemma call_transactions:
  "call env now s (QueryTransactions ts True) transactions_of = Some (Inr (map (fmlookup (mempool s)) ts), s)"
  by (simp add: call_def send_reply_def)

lemma call_adjust_time:
  "prev_difficulty_adjusted_block s n = Some p \<Longrightarrow>
     call env now s (QueryDifficultyAdjustTime n True) timestamp_of = Some (Inr (timestamp p), s)"
  by (simp add: call_def send_reply_def)

text \<open>The leading block only becomes higher, so the block that an adjustment on an older one reads is
  still there.\<close>

lemma adjusted_block_stays:
  assumes inv: "hub_inv env s'" and l: "fmlookup (valid_blocks s') i = Some leading"
    and lead: "fmlookup (valid_blocks s') (leading_block s') = Some lead" "seqno lead \<noteq> - 1"
    and period: "difficulty_adjustment_period (hub_config s') \<noteq> 0"
    and n: "checked_add (seqno leading) 1 = Some n"
  shows "\<exists>p. prev_difficulty_adjusted_block s' n = Some p"
proof -
  have "height leading \<le> height lead" using hub_inv_leader [OF inv] l lead(1) by (auto simp: leads_def)
  then have "0 < unat n" "unat n \<le> Suc (height lead)" using n by (simp_all add: checked_add_Some)
  with prev_difficulty_adjusted_block_branch [OF hub_inv_blocks [OF inv] lead period] show ?thesis by blast
qed

lemma round_end:
  "built \<bind> case_sum (\<lambda>e. Some (Inl (RoundFailed (BuildFailed e)), s))
      (\<lambda>ub. confirm ub \<bind> case_sum (\<lambda>e. Some (Inl (RoundFailed (ConfirmFailed e)), s)) (\<lambda>b. Some (Inr b, s))) =
   map_option (\<lambda>r. (map_sum RoundFailed id r, s))
     (built \<bind> case_sum (\<lambda>e. Some (Inl (BuildFailed e))) (\<lambda>ub. map_option (map_sum ConfirmFailed id) (confirm ub)))"
proof (cases built)
  case (Some x)
  show ?thesis
  proof (cases x)
    case (Inr ub)
    then show ?thesis using Some by (cases "confirm ub") (auto split: sum.split)
  qed (use Some in simp)
qed simp

text \<open>A round is \<open>mine_round\<close> on the answers of the states in which the hub gives them.\<close>

lemma mine_with_calls_answers:
  assumes env: "env_ok env" and inv: "hub_inv env s"
    and run: "handle_all env s ms1 = Some s1" "handle_all env s1 ms2 = Some s2" "handle_all env s2 ms3 = Some s3"
      "handle_all env s3 ms4 = Some s4"
    and ok: "list_all (\<lambda>(now, m). message_ok env m) (ms1 @ ms2 @ ms3 @ ms4)"
    and period: "difficulty_adjustment_period (hub_config s) \<noteq> 0"
    and lead: "fmlookup (valid_blocks s4) (leading_block s4) = Some lead" "seqno lead \<noteq> - 1"
  shows "\<exists>leading fees. fmlookup (valid_blocks s) (leading_block s) = Some leading \<and> query_mempool env s2 = Some fees \<and>
    mine_with_calls env now uuid (hub_config s) sk (from_signer env sk) ms1 ms2 ms3 ms4 s = map_option (\<lambda>r. (map_sum RoundFailed id r, s4))
      (mine_round env now uuid (hub_config s) sk (from_signer env sk) leading fees (map (fmlookup (mempool s3)))
        (\<lambda>n. map_option timestamp (prev_difficulty_adjusted_block s4 n)))"
proof -
  note k = handle_all_steps [OF env inv run ok]
  have ok1: "list_all (\<lambda>(now, m). message_ok env m) ms1" using ok by simp
  obtain leading where leading: "helper_leading_block env now now ms1 s = Some (Inr leading, s1)"
      "fmlookup (valid_blocks s) (leading_block s) = Some leading"
    using helper_leading_block_result [OF env inv ok1 run(1)] by blast
  have orders: "orders_ok env" using env by (simp add: env_ok_def)
  obtain fees where fees: "query_mempool env s2 = Some fees"
      "call env now s2 (QueryMemPool True) mempool_of = Some (Inr fees, s2)"
    using call_mempool [OF orders k(2)] by blast
  have l4: "fmlookup (valid_blocks s4) (leading_block s) = Some leading"
    using keeps_valid [OF k(7) leading(2)] .
  have cfg: "hub_config s4 = hub_config s" using k(7) by (simp add: keeps_def same_identity_def)
  note adj = adjusted_block_stays [OF k(4) l4 lead period [folded cfg]]
  note run = run [folded serve_ends]
  show ?thesis
  proof (cases "checked_add (seqno leading) 1")
    case None
    then show ?thesis
      using leading fees run
      by (simp add: mine_with_calls_def call_after_def call_transactions mine_round_def Let_def)
  next
    case (Some n)
    obtain p where p: "prev_difficulty_adjusted_block s4 n = Some p" using adj [OF Some] by blast
    show ?thesis
    proof (cases "checked_rem n (difficulty_adjustment_period (hub_config s))")
      case None
      then show ?thesis
        using leading fees run Some
        by (simp add: mine_with_calls_def call_after_def call_transactions mine_round_def Let_def)
    next
      case (Some r)
      then show ?thesis
        using leading fees run \<open>checked_add (seqno leading) 1 = Some n\<close> p
        by (cases "r = 0") (simp_all add: mine_with_calls_def call_after_def call_transactions
            call_adjust_time [OF p] mine_round_def Let_def o_def round_end)
    qed
  qed
qed

section \<open>A round that returns has mined a block\<close>

lemma helper_leading_block_answer:
  "helper_leading_block env now1 now2 ms s = Some (r, s') \<Longrightarrow>
     (\<exists>e. r = Inl CallFailed \<and> serve env s ms = Some (Some e, s')) \<or>
     (\<exists>b. r = Inr b \<and> handle_all env s ms = Some s' \<and> fmlookup (valid_blocks s') (leading_block s) = Some b)"
  by (cases "serve env s ms")
     (auto simp: helper_leading_block_def call_def send_reply_def serve_ends [symmetric] split: if_splits option.splits)

lemma call_after_answer:
  "call_after env now ms s msg proj = Some (r, s') \<Longrightarrow>
     (\<exists>e. r = Inl CallFailed \<and> serve env s ms = Some (Some e, s')) \<or>
     (\<exists>s1. handle_all env s ms = Some s1 \<and> call env now s1 msg proj = Some (r, s'))"
  by (cases "serve env s ms") (auto simp: call_after_def serve_ends [symmetric] split: if_splits)

lemma mempool_answer:
  "call env now s (QueryMemPool True) mempool_of = Some (r, s') \<Longrightarrow>
     s' = s \<and> (\<exists>fees. query_mempool env s = Some fees \<and> r = Inr fees)"
  by (auto simp: call_def send_reply_def)

lemma adjust_time_answer:
  "call env now s (QueryDifficultyAdjustTime n True) timestamp_of = Some (r, s') \<Longrightarrow>
     s' = s \<and> (\<exists>p. prev_difficulty_adjusted_block s n = Some p \<and> r = Inr (timestamp p))"
  by (auto simp: call_def send_reply_def)

lemma UnconfirmedBlock_new_error:
  assumes "UnconfirmedBlock_new c now uuid prev own txns adj cfg = Some (Inl e)"
    and "checked_add (seqno prev) 1 = Some n" "checked_rem n (difficulty_adjustment_period cfg) = Some r"
  shows "r = 0 \<and> adj = None"
  using assms by (cases "r = 0"; cases adj) (auto simp: UnconfirmedBlock_new_def)

lemma try_confirm_never_fails:
  assumes "nonce_is_last env" "ub_miner ub = from_signer env sk" "try_confirm env ub sk \<noteq> None"
  shows "\<exists>b. try_confirm env ub sk = Some (Inr b)"
proof -
  obtain k where "find_nouce env ub = Some k" using assms(3) by (cases "find_nouce env ub") (auto simp: try_confirm_def)
  from try_confirm_result [OF assms(1) this, of sk] assms(2) show ?thesis by auto
qed

text \<open>The end of a round, from the fourth call on.\<close>

lemma mine_with_calls_end:
  assumes last: "nonce_is_last env"
    and call: "mine_with_calls env now uuid cfg sk (from_signer env sk) ms1 ms2 ms3 ms4 s = Some (r, s')"
    and q1: "helper_leading_block env now now ms1 s = Some (q1, s1)" "q1 = Inr l"
    and q2: "call_after env now ms2 s1 (QueryMemPool True) mempool_of = Some (q2, s2)" "q2 = Inr fees"
    and q3: "call_after env now ms3 s2 (QueryTransactions (pick_transactions (unat (block_txn_limit cfg)) fees) True) transactions_of =
      Some (q3, s3)" "q3 = Inr found"
    and run: "handle_all env s ms1 = Some s1" "handle_all env s1 ms2 = Some s2" "handle_all env s2 ms3 = Some s3"
  shows "(\<exists>ms e. r = Inl RoundCallFailed \<and> set ms \<subseteq> set (ms1 @ ms2 @ ms3 @ ms4) \<and> serve env s ms = Some (Some e, s')) \<or>
    (\<exists>adj ub b. handle_all env s3 ms4 = Some s' \<and>
      UnconfirmedBlock_new env now uuid l (from_signer env sk) (found_transactions found) adj cfg = Some (Inr ub) \<and>
      try_confirm env ub sk = Some (Inr b) \<and> r = Inr b \<and>
      (adj = None \<or> (\<exists>p. prev_difficulty_adjusted_block s' (ub_seqno ub) = Some p \<and> adj = Some (timestamp p))))"
    (is "?stopped \<or> ?mined")
proof -
  note def = mine_with_calls_def Let_def
  note upto = call q1 q2 q3
  obtain n where n: "checked_add (seqno l) 1 = Some n"
    using upto by (cases "checked_add (seqno l) 1") (auto simp: def)
  obtain m where m: "checked_rem n (difficulty_adjustment_period cfg) = Some m"
    using upto n by (cases "checked_rem n (difficulty_adjustment_period cfg)") (auto simp: def)
  let ?finish = "\<lambda>runs s adj. UnconfirmedBlock_new env now uuid l (from_signer env sk) (found_transactions found) adj cfg \<bind>
        case_sum (\<lambda>e. Some (Inl (RoundFailed (BuildFailed e)), s))
          (\<lambda>ub. try_confirm env ub sk \<bind> case_sum (\<lambda>e. Some (Inl (RoundFailed (ConfirmFailed e)), s))
            (\<lambda>b. if runs then Some (Inr b, s) else call_failed s))"
  let ?adjust = "call_after env now ms4 s3 (QueryDifficultyAdjustTime n True) timestamp_of"
  obtain q4 runs s4 where q4: "(if m = 0 then map_option (\<lambda>(r, s4). (map_sum id Some r, True, s4)) ?adjust
       else map_option (\<lambda>(stopped, s4). (Inr None, stopped = None, s4)) (serve env s3 ms4)) = Some (q4, runs, s4)"
    and rest: "(case q4 of Inl _ \<Rightarrow> call_failed s4 | Inr adj \<Rightarrow> ?finish runs s4 adj) = Some (r, s')"
    using upto n m by (auto simp: def bind_eq_Some_conv simp del: if_split_eq1 split: prod.split_asm)
  consider (stop) e where "serve env s3 ms4 = Some (Some e, s4)" "isl q4 \<or> q4 = Inr None \<and> \<not> runs \<and> m \<noteq> 0"
    | (go) adj where "handle_all env s3 ms4 = Some s4" "q4 = Inr adj" runs
        "if m = 0 then \<exists>p. prev_difficulty_adjusted_block s4 n = Some p \<and> adj = Some (timestamp p) else adj = None"
  proof (cases "m = 0")
    case True
    then obtain q where "?adjust = Some (q, s4)" "q4 = map_sum id Some q" runs using q4 by auto
    with True call_after_answer [OF this(1)] show thesis
      by (auto dest!: adjust_time_answer intro: stop go)
  next
    case False
    then obtain stopped where "serve env s3 ms4 = Some (stopped, s4)" "q4 = Inr None" "runs = (stopped = None)" using q4 by auto
    with False show thesis by (cases stopped) (auto simp: serve_ends intro: stop go)
  qed
  note cases = this
  have finish: "\<exists>ub b. UnconfirmedBlock_new env now uuid l (from_signer env sk) (found_transactions found) adj cfg = Some (Inr ub) \<and>
      try_confirm env ub sk = Some (Inr b) \<and> ub_seqno ub = n \<and> (r, s') = (if runs then Inr b else Inl RoundCallFailed, s4)"
    if a: "q4 = Inr adj" "m = 0 \<longrightarrow> adj \<noteq> None" for adj
  proof -
    obtain res where res: "UnconfirmedBlock_new env now uuid l (from_signer env sk) (found_transactions found) adj cfg = Some res"
      using rest a(1) by (auto simp: bind_eq_Some_conv)
    have "\<exists>ub. res = Inr ub"
    proof (cases res)
      case (Inl e)
      with UnconfirmedBlock_new_error [OF res [unfolded Inl] n m] a(2) show ?thesis by auto
    qed simp
    then obtain ub where ub: "res = Inr ub" ..
    note new = UnconfirmedBlock_new_Inr [OF res [unfolded ub]]
    have conf: "try_confirm env ub sk \<noteq> None" using rest a(1) res ub by auto
    then obtain b where b: "try_confirm env ub sk = Some (Inr b)"
      using try_confirm_never_fails [OF last] new(3) by blast
    have "ub_seqno ub = n" using new(5) n by simp
    moreover have "(r, s') = (if runs then Inr b else Inl RoundCallFailed, s4)"
      using rest a(1) res ub b by (auto simp: call_failed_def split: if_splits)
    ultimately show ?thesis using res ub b by blast
  qed
  from cases show ?thesis
  proof cases
    case (stop e)
    have "r = Inl RoundCallFailed \<and> s' = s4"
      using stop(2)
    proof
      assume "isl q4"
      then show ?thesis using rest by (auto simp: isl_def call_failed_def)
    next
      assume "q4 = Inr None \<and> \<not> runs \<and> m \<noteq> 0"
      then show ?thesis using finish [of None] by auto
    qed
    with stop(1) run show ?thesis
      by (intro disjI1 exI [of _ "ms1 @ ms2 @ ms3 @ ms4"]) (auto simp: serve_append serve_ends [symmetric])
  next
    case (go adj)
    then have "m = 0 \<longrightarrow> adj \<noteq> None" by (auto split: if_splits)
    from finish [OF go(2) this] go(3) obtain ub b where ub:
      "UnconfirmedBlock_new env now uuid l (from_signer env sk) (found_transactions found) adj cfg = Some (Inr ub)"
      "try_confirm env ub sk = Some (Inr b)" "ub_seqno ub = n" "r = Inr b" "s' = s4" by auto
    have "adj = None \<or> (\<exists>p. prev_difficulty_adjusted_block s' (ub_seqno ub) = Some p \<and> adj = Some (timestamp p))"
      using go(4) ub(3,5) by (auto split: if_splits)
    with go(1) ub show ?thesis by blast
  qed
qed

text \<open>A round ends with a failed call, because a message before it stopped the hub, or with a block.\<close>

lemma mine_with_calls_result:
  assumes last: "nonce_is_last env"
    and call: "mine_with_calls env now uuid cfg sk (from_signer env sk) ms1 ms2 ms3 ms4 s = Some (r, s')"
  shows "(\<exists>ms e. r = Inl RoundCallFailed \<and> set ms \<subseteq> set (ms1 @ ms2 @ ms3 @ ms4) \<and> serve env s ms = Some (Some e, s')) \<or>
    (\<exists>s1 s2 s3 l fees adj ub b. handle_all env s ms1 = Some s1 \<and> handle_all env s1 ms2 = Some s2 \<and>
      handle_all env s2 ms3 = Some s3 \<and> handle_all env s3 ms4 = Some s' \<and>
      fmlookup (valid_blocks s1) (leading_block s) = Some l \<and> query_mempool env s2 = Some fees \<and>
      UnconfirmedBlock_new env now uuid l (from_signer env sk)
        (found_transactions (map (fmlookup (mempool s3)) (pick_transactions (unat (block_txn_limit cfg)) fees)))
        adj cfg = Some (Inr ub) \<and>
      try_confirm env ub sk = Some (Inr b) \<and> r = Inr b \<and>
      (adj = None \<or> (\<exists>p. prev_difficulty_adjusted_block s' (ub_seqno ub) = Some p \<and> adj = Some (timestamp p))))"
    (is "?stopped \<or> ?mined")
proof -
  note def = mine_with_calls_def Let_def call_failed_def
  obtain q1 s1 where q1: "helper_leading_block env now now ms1 s = Some (q1, s1)"
    using call by (cases "helper_leading_block env now now ms1 s") (auto simp: def)
  from helper_leading_block_answer [OF this] consider e where "q1 = Inl CallFailed" "serve env s ms1 = Some (Some e, s1)"
    | l where "q1 = Inr l" "handle_all env s ms1 = Some s1" "fmlookup (valid_blocks s1) (leading_block s) = Some l" by blast
  then show ?thesis
  proof cases
    case 1
    then have "r = Inl RoundCallFailed" "s' = s1" using call q1 by (simp_all add: def)
    with 1(2) show ?thesis by (intro disjI1 exI [of _ ms1]) auto
  next
    case s1: (2 l)
    obtain q2 s2 where q2: "call_after env now ms2 s1 (QueryMemPool True) mempool_of = Some (q2, s2)"
      using call q1 s1(1)
      by (cases "call_after env now ms2 s1 (QueryMemPool True) mempool_of") (auto simp: def)
    from call_after_answer [OF this] consider e where "q2 = Inl CallFailed" "serve env s1 ms2 = Some (Some e, s2)"
      | fees where "q2 = Inr fees" "handle_all env s1 ms2 = Some s2" "query_mempool env s2 = Some fees"
      by (fastforce dest: mempool_answer)
    then show ?thesis
    proof cases
      case 1
      then have "r = Inl RoundCallFailed" "s' = s2" using call q1 s1(1) q2 by (simp_all add: def)
      with 1(2) s1(2) show ?thesis
        by (intro disjI1 exI [of _ "ms1 @ ms2"]) (auto simp: serve_append serve_ends [symmetric])
    next
      case s2: (2 fees)
      let ?ids = "pick_transactions (unat (block_txn_limit cfg)) fees"
      note upto = call q1 s1(1) q2 s2(1)
      obtain q3 s3 where q3: "call_after env now ms3 s2 (QueryTransactions ?ids True) transactions_of = Some (q3, s3)"
        using upto by (cases "call_after env now ms3 s2 (QueryTransactions ?ids True) transactions_of") (auto simp: def)
      from call_after_answer [OF this] consider e where "q3 = Inl CallFailed" "serve env s2 ms3 = Some (Some e, s3)"
        | "q3 = Inr (map (fmlookup (mempool s3)) ?ids)" "handle_all env s2 ms3 = Some s3"
        by (auto simp: call_transactions)
      then show ?thesis
      proof cases
        case 1
        then have "r = Inl RoundCallFailed" "s' = s3" using upto q3 by (simp_all add: def)
        with 1(2) s1(2) s2(2) show ?thesis
          by (intro disjI1 exI [of _ "ms1 @ ms2 @ ms3"]) (auto simp: serve_append serve_ends [symmetric])
      next
        case s3: 2
        have "?stopped \<or> (\<exists>adj ub b. handle_all env s3 ms4 = Some s' \<and>
            UnconfirmedBlock_new env now uuid l (from_signer env sk)
              (found_transactions (map (fmlookup (mempool s3)) ?ids)) adj cfg = Some (Inr ub) \<and>
            try_confirm env ub sk = Some (Inr b) \<and> r = Inr b \<and>
            (adj = None \<or> (\<exists>p. prev_difficulty_adjusted_block s' (ub_seqno ub) = Some p \<and> adj = Some (timestamp p))))"
          by (rule mine_with_calls_end [OF last upto(1) q1 s1(1) q2 s2(1) q3 s3(1) s1(2) s2(2) s3(2)])
        then show ?thesis using s1 s2 s3 by blast
      qed
    qed
  qed
qed

section \<open>The loop\<close>

text \<open>What happens to the hub during a round: the messages it handles before each of the later calls,
  those that are queued before the block of the round, and those it gets while the miner sleeps.\<close>

type_synonym ('n, 'st) traffic = "(Timestamp \<times> ('n, 'st) PeerHubActorMessage) list"

record ('n, 'st) miner_round =
  round_now :: Timestamp
  round_uuid :: Uuid
  before_block :: "('n, 'st) traffic"
  before_mempool :: "('n, 'st) traffic"
  before_transactions :: "('n, 'st) traffic"
  before_adjust_time :: "('n, 'st) traffic"
  before_cast :: "('n, 'st) traffic"
  while_asleep :: "('n, 'st) traffic"

text \<open>The rounds the miner gets through, with \<open>?\<close> on what each returns. If the hub stops after it got the block,
  the first call of the next round fails.\<close>

fun miner_run ::
    "('sk, 'n::linorder, 'st) hub_env \<Rightarrow> Config \<Rightarrow> 'sk \<Rightarrow> CoinAddress \<Rightarrow> ('n, 'st) miner_round list \<Rightarrow> ('n, 'st) hub \<Rightarrow>
     ((round_error + Block list) \<times> ('n, 'st) hub) option" where
  "miner_run env config signing_key own [] s = Some (Inr [], s)"
| "miner_run env config signing_key own (rd # rounds) s = do {
     (r, s1) \<leftarrow> mine_with_calls env (round_now rd) (round_uuid rd) config signing_key own
       (before_block rd) (before_mempool rd) (before_transactions rd) (before_adjust_time rd) s;
     (case r of
        Inl e \<Rightarrow> Some (Inl e, s1)
      | Inr block \<Rightarrow> do {
          (stopped, s2) \<leftarrow> serve env s1 (before_cast rd @ (round_now rd, NewBlock None block) # while_asleep rd);
          (if stopped \<noteq> None then Some (if rounds = [] then Inr [block] else Inl RoundCallFailed, s2)
           else do {
             (rest, s3) \<leftarrow> miner_run env config signing_key own rounds s2;
             Some (map_sum id (Cons block) rest, s3) }) }) }"

definition round_ok :: "('sk, 'n, 'st) hub_env \<Rightarrow> ('n, 'st) miner_round \<Rightarrow> bool" where
  "round_ok env rd \<longleftrightarrow> list_all (\<lambda>(now, m). message_ok env m)
     (before_block rd @ before_mempool rd @ before_transactions rd @ before_adjust_time rd @
      before_cast rd @ while_asleep rd)"

text \<open>A round that returns gives a sound block on the block that led when it began, whatever the hub
  handled since; where that block is no later than the miner's clock and the transactions spend cash
  unspent on its branch, the hub accepts the block.\<close>

lemma round_block:
  assumes env: "env_ok env" "signatures_verify env" "nonce_is_last env" and inv: "hub_inv env s"
    and ok: "list_all (\<lambda>(now, m). message_ok env m) (ms1 @ ms2 @ ms3 @ ms4)"
    and call: "mine_with_calls env now uuid (hub_config s) sk (from_signer env sk) ms1 ms2 ms3 ms4 s = Some (r, s')" "r \<noteq> Inl RoundCallFailed"
  shows "\<exists>b l. r = Inr b \<and> hub_inv env s' \<and> keeps env s s' \<and> sound_block env b \<and>
    fmlookup (valid_blocks s) (leading_block s) = Some l \<and> prev_id b = leading_block s \<and>
    (timestamp l \<le> now \<longrightarrow> (\<forall>t \<in> set (transactions b).
        set (inputs t) \<subseteq> fset (unspent (branch (valid_blocks s') (leading_block s)))) \<longrightarrow>
      (\<exists>s2. accepts env s' b s2))"
proof -
  obtain s1 s2 s3 l fees adj ub b where run: "handle_all env s ms1 = Some s1" "handle_all env s1 ms2 = Some s2"
      "handle_all env s2 ms3 = Some s3" "handle_all env s3 ms4 = Some s'"
    and l: "fmlookup (valid_blocks s1) (leading_block s) = Some l"
    and ub: "UnconfirmedBlock_new env now uuid l (from_signer env sk)
      (found_transactions (map (fmlookup (mempool s3)) (pick_transactions (unat (block_txn_limit (hub_config s))) fees)))
      adj (hub_config s) = Some (Inr ub)"
    and b: "try_confirm env ub sk = Some (Inr b)" "r = Inr b"
    and adj: "adj = None \<or> (\<exists>p. prev_difficulty_adjusted_block s' (ub_seqno ub) = Some p \<and> adj = Some (timestamp p))"
    using mine_with_calls_result [OF env(3) call(1)] call(2) by blast
  note k = handle_all_steps [OF env(1) inv run ok]
  have l': "fmlookup (valid_blocks s') (leading_block s) = Some l" using keeps_valid [OF k(6) l] .
  obtain l0 where l0: "fmlookup (valid_blocks s) (leading_block s) = Some l0"
    using hub_inv_leader [OF inv] by (auto simp: leads_def)
  then have ls: "fmlookup (valid_blocks s) (leading_block s) = Some l" using keeps_valid [OF k(5) l0] l by simp
  have cfg: "hub_config s' = hub_config s" using k(7) by (simp add: keeps_def same_identity_def)
  have "list_all (transaction_valid env)
      (found_transactions (map (fmlookup (mempool s3)) (pick_transactions (unat (block_txn_limit (hub_config s))) fees)))"
    using k(3) by (auto simp: list_all_iff set_found_transactions hub_inv_def mempool_inv_def)
  then have "list_all (transaction_valid env) (transactions b)"
    using UnconfirmedBlock_new_Inr(2) [OF ub] try_confirm_block(4) [OF b(1)] by simp
  moreover have "block_valid env b" using b(1) confirmed_block_valid [OF env(2)] by (auto simp: try_confirm_def)
  ultimately have snd: "sound_block env b" by (simp add: sound_block_def)
  have prev: "prev_id b = leading_block s"
    using UnconfirmedBlock_new_Inr(1) [OF ub] try_confirm_block(3) [OF b(1)]
      blocks_inv_id [OF hub_inv_blocks [OF inv] ls] by simp
  have "\<exists>s2. accepts env s' b s2" if "timestamp l \<le> now" "\<forall>t \<in> set (transactions b).
      set (inputs t) \<subseteq> fset (unspent (branch (valid_blocks s') (leading_block s)))"
    using confirmed_block_accepted(1) [OF k(4) l' ub [folded cfg] b(1) adj that] .
  with b(2) k(4,7) snd ls prev show ?thesis by blast
qed

text \<open>The hub stops, which is what it does when a message ends with an error.\<close>

definition hub_stops :: "('sk, 'n::linorder, 'st) hub_env \<Rightarrow> ('n, 'st) hub \<Rightarrow> bool" where
  "hub_stops env s \<longleftrightarrow> (\<exists>s1 now m e s2. hub_inv env s1 \<and> keeps env s s1 \<and> message_ok env m \<and>
     handle env now s1 m = Some (Inl e, s2))"

lemma hub_stops_keeps: "keeps env s s1 \<Longrightarrow> hub_stops env s1 \<Longrightarrow> hub_stops env s"
  unfolding hub_stops_def using keeps_trans by blast

lemma serve_stops:
  assumes "env_ok env"
  shows "hub_inv env s \<Longrightarrow> list_all (\<lambda>(now, m). message_ok env m) ms \<Longrightarrow> serve env s ms = Some (Some e, s') \<Longrightarrow> hub_stops env s"
proof (induction ms arbitrary: s)
  case (Cons p ms)
  obtain now m where p: "p = (now, m)" by (cases p)
  with Cons.prems(3) obtain r s1 where h: "handle env now s m = Some (r, s1)" by (cases "handle env now s m") auto
  have ok: "message_ok env m" using Cons.prems(2) p by simp
  show ?case
  proof (cases r)
    case (Inl x)
    then show ?thesis using h ok Cons.prems(1) keeps_refl unfolding hub_stops_def by blast
  next
    case (Inr x)
    have k: "hub_inv env s1" "keeps env s s1"
      using handle_inv [OF assms Cons.prems(1) ok h] handle_keeps [OF assms Cons.prems(1) ok h] by auto
    have "serve env s1 ms = Some (Some e, s')" using Cons.prems(3) p h Inr by simp
    with Cons.IH [OF k(1)] Cons.prems(2) show ?thesis using hub_stops_keeps [OF k(2)] by simp
  qed
qed simp

text \<open>The loop ends with an error only when the hub has stopped, and leaves the hub in a state of its own rules.\<close>

lemma miner_run_goes_on:
  assumes env: "env_ok env" "signatures_verify env" "nonce_is_last env"
  shows "hub_inv env s \<Longrightarrow> hub_config s = config \<Longrightarrow> list_all (round_ok env) rounds \<Longrightarrow>
    miner_run env config sk (from_signer env sk) rounds s = Some (r, s') \<Longrightarrow>
    (r = Inl RoundCallFailed \<and> hub_stops env s \<or>
     (\<exists>blocks. r = Inr blocks \<and> length blocks = length rounds \<and> list_all (sound_block env) blocks)) \<and>
    hub_inv env s' \<and> keeps env s s'"
proof (induction rounds arbitrary: s r s')
  case Nil
  then show ?case by (simp add: keeps_refl)
next
  case (Cons rd rounds)
  let ?call = "mine_with_calls env (round_now rd) (round_uuid rd) config sk (from_signer env sk)
       (before_block rd) (before_mempool rd) (before_transactions rd) (before_adjust_time rd) s"
  obtain q s1 where call: "?call = Some (q, s1)" using Cons.prems(4) by (cases ?call) auto
  let ?before = "before_block rd @ before_mempool rd @ before_transactions rd @ before_adjust_time rd"
  have ok: "list_all (\<lambda>(now, m). message_ok env m) ?before" using Cons.prems(3) by (simp add: round_ok_def)
  show ?case
  proof (cases "q = Inl RoundCallFailed")
    case True
    then obtain ms e where ms: "set ms \<subseteq> set ?before" "serve env s ms = Some (Some e, s1)"
      using mine_with_calls_result [OF env(3) call] by blast
    then have "list_all (\<lambda>(now, m). message_ok env m) ms" using ok by (auto simp: list_all_iff)
    with serve_stops [OF env(1) Cons.prems(1) _ ms(2)] serve_keeps [OF env(1) Cons.prems(1) _ ms(2)]
    show ?thesis using Cons.prems(4) call True by simp
  next
    case False
    obtain b where b: "q = Inr b" "hub_inv env s1" "keeps env s s1" "sound_block env b"
      using round_block [OF env Cons.prems(1) ok call [folded Cons.prems(2)] False] by blast
    let ?ms = "before_cast rd @ (round_now rd, NewBlock None b) # while_asleep rd"
    obtain stopped s2 where s2: "serve env s1 ?ms = Some (stopped, s2)"
      using Cons.prems(4) call b(1) by (cases "serve env s1 ?ms") auto
    have ok2: "list_all (\<lambda>(now, m). message_ok env m) ?ms" using Cons.prems(3) b(4) by (simp add: round_ok_def)
    with serve_keeps [OF env(1) b(2) _ s2] have k: "hub_inv env s2" "keeps env s1 s2" by auto
    then have k': "keeps env s s2" using keeps_trans [OF b(3)] by blast
    show ?thesis
    proof (cases stopped)
      case (Some e)
      then have "hub_stops env s" using serve_stops [OF env(1) b(2) ok2] s2 hub_stops_keeps [OF b(3)] by blast
      moreover have "s' = s2" "r = (if rounds = [] then Inr [b] else Inl RoundCallFailed)"
        using Cons.prems(4) call b(1) s2 Some by simp_all
      ultimately show ?thesis using k(1) k' b(4) by (cases rounds) auto
    next
      case None
      then obtain rest where rest: "miner_run env config sk (from_signer env sk) rounds s2 = Some (rest, s')" "r = map_sum id (Cons b) rest"
        using Cons.prems(4) call b(1) s2 by (auto simp: bind_eq_Some_conv)
      have "hub_config s2 = config" using k' Cons.prems(2) by (simp add: keeps_def same_identity_def)
      with Cons.IH [OF k(1) this _ rest(1)] Cons.prems(3) have ih:
        "rest = Inl RoundCallFailed \<and> hub_stops env s2 \<or>
         (\<exists>blocks. rest = Inr blocks \<and> length blocks = length rounds \<and> list_all (sound_block env) blocks)"
        "hub_inv env s' \<and> keeps env s2 s'"
        by auto
      then show ?thesis using rest(2) b(4) keeps_trans [OF k'] hub_stops_keeps [OF k'] by auto
    qed
  qed
qed

end
