(* ===== verification/Miner_Properties.thy ===== *)
theory Miner_Properties
  imports Miner_Loop Sample_Network
begin

text \<open>
  Properties of the miner's loop beside a hub that serves others, with a sample round between
  queries of others.
\<close>

section \<open>The miner\<close>

text \<open>The sample hub while its miner works: queries of others come in between.\<close>

definition sample_round :: "(nat, u8 list) miner_round" where
  "sample_round = \<lparr>round_now = 40, round_uuid = 3, before_block = [(40, QueryPeers True)], before_mempool = [],
     before_transactions = [(40, QueryLocalNodeId True)], before_adjust_time = [], before_cast = [], while_asleep = []\<rparr>"

lemma sample_traffic:
  "handle_all sample_env s [(40, QueryPeers True)] = Some s"
  "handle_all sample_env s [(40, QueryLocalNodeId True)] = Some s"
  by (simp_all add: send_reply_def)

lemma sample_round_mined:
  assumes "mine_on sample_env 40 3 sample_key sample_pooled = Some (Inr b)"
  shows "mine_with_calls sample_env 40 3 sample_config sample_key (from_signer sample_env sample_key) [(40, QueryPeers True)] []
    [(40, QueryLocalNodeId True)] [] sample_pooled = Some (Inr b, sample_pooled)"
proof -
  have cfg: "hub_config sample_pooled = sample_config" by (simp add: sample_pooled_def)
  show ?thesis
    using mine_with_calls_answers [OF sample_env_ok sample_pooled_inv sample_traffic(1) handle_all_simps(1)
        sample_traffic(2) handle_all_simps(1), of sample_block1 40 3 sample_key] assms
    by (auto simp: cfg mine_on_def)
qed

lemma sample_mined_state:
  assumes b: "mine_on sample_env 40 3 sample_key sample_pooled = Some (Inr b)" "transactions b = [sample_txn]" "height b = 2"
  shows "\<exists>S m'. handle sample_env 40 sample_pooled (NewBlock None b) =
      Some (Inr None, with_block sample_env b S sample_pooled\<lparr>peers := m'\<rparr>)"
proof -
  have "set (inputs sample_txn) \<subseteq> fset (unspent (branch (valid_blocks sample_pooled) (leading_block sample_pooled)))"
    using sample_branch1 by (simp add: unspent_def apply_block_def sample_txn_def Let_def inputs_def)
  then obtain s1 where "accepts sample_env sample_pooled b s1"
    using mined_block_accepted(1) [OF sample_pooled_inv b(1), of sample_block1] b(2) by auto
  then obtain S where acc: "accepts sample_env sample_pooled b (with_cash S sample_pooled)" using accepts_with_cash by blast
  obtain leading ub adj txns where
    ub: "UnconfirmedBlock_new sample_env 40 3 leading (from_signer sample_env sample_key) txns adj (hub_config sample_pooled) = Some (Inr ub)"
    "try_confirm sample_env ub sample_key = Some (Inr b)"
    using mine_on_Inr [OF b(1)] by blast
  then have "timestamp b \<le> 40" using UnconfirmedBlock_new_Inr(4) [OF ub(1)] try_confirm_block(7) [OF ub(2)] by simp
  moreover obtain buf where "enc_message sample_env (Broadcast (BroadcastBlock (block_id sample_env b))) = Some buf"
    by (simp add: sample_env_def sample_message_bytes_def)
  ultimately obtain m' where "new_block sample_env 40 sample_pooled None b =
      Some (Inr None, with_block sample_env b S sample_pooled\<lparr>peers := m'\<rparr>)"
    using new_block_alone [OF sample_reliable sample_pooled_inv acc sample_high_unheard [OF b(3)]] by blast
  then show ?thesis by auto
qed

lemma sample_mined_taken:
  assumes b: "mine_on sample_env 40 3 sample_key sample_pooled = Some (Inr b)" "transactions b = [sample_txn]" "height b = 2"
  shows "\<exists>s'. handle sample_env 40 sample_pooled (NewBlock None b) = Some (Inr None, s') \<and> leading_block s' = block_id sample_env b"
  using sample_mined_state [OF b] b(3) by (auto simp: with_block_def)



text \<open>The hub accepts the block of a round even if it handled other messages between the calls, and
  even if another block leads by then: the block goes on the block that led when the round began,
  and the difficulty and reward the miner computed are those the hub expects now, provided the
  clock is not behind that block and the transactions spend cash that is unspent on its branch.\<close>

theorem late_block_is_accepted:
  assumes "env_ok env" "signatures_verify env" "nonce_is_last env" "hub_inv env s"
    and "list_all (\<lambda>(now, m). message_ok env m) (ms1 @ ms2 @ ms3 @ ms4)"
    and "mine_with_calls env now uuid (hub_config s) sk (from_signer env sk) ms1 ms2 ms3 ms4 s = Some (Inr b, s')"
    and "fmlookup (valid_blocks s) (leading_block s) = Some l" "timestamp l \<le> now"
    and "\<forall>t \<in> set (transactions b).
      set (inputs t) \<subseteq> fset (unspent (branch (valid_blocks s') (leading_block s)))"
  shows "prev_id b = leading_block s \<and> (\<exists>s2. check_block env s' b = Some (Accepted, s2)) \<and>
    (fresh_block env s' b \<longrightarrow> (\<forall>ids s2. validate_block env s' b = Some (ids, s2) \<longrightarrow>
       ids \<noteq> [] \<and> hd ids = block_id env b))"
proof -
  have inv: "hub_inv env s'" and prev: "prev_id b = leading_block s" and ex: "\<exists>s2. accepts env s' b s2"
    using round_block [OF assms(1-6)] assms(7-9) by auto
  then have "fmlookup (valid_blocks s') (prev_id b) \<noteq> None" by (auto simp: accepts_def)
  then have "ids \<noteq> [] \<and> hd ids = block_id env b"
    if "fresh_block env s' b" "validate_block env s' b = Some (ids, s2)" for ids s2
    using validate_block_verdict [OF env_ok_dest [OF assms(1)] hub_inv_pools [OF inv] that] ex by auto
  then show ?thesis using ex prev by (simp add: check_block_Accepted)
qed

theorem late_block_is_accepted_witness:
  "\<exists>b s2. mine_with_calls sample_env 40 3 sample_config sample_key (from_signer sample_env sample_key) [(40, QueryPeers True)] []
      [(40, QueryLocalNodeId True)] [] sample_pooled = Some (Inr b, sample_pooled) \<and> transactions b = [sample_txn] \<and>
     check_block sample_env sample_pooled b = Some (Accepted, s2)"
proof -
  obtain b where b: "mine_on sample_env 40 3 sample_key sample_pooled = Some (Inr b)" "transactions b = [sample_txn]"
    using sample_mined by blast
  have "hub_config sample_pooled = sample_config" by (simp add: sample_pooled_def)
  moreover have "set (inputs sample_txn) \<subseteq> fset (unspent (branch (valid_blocks sample_pooled) (leading_block sample_pooled)))"
    using sample_branch1 by (simp add: unspent_def apply_block_def sample_txn_def Let_def inputs_def)
  ultimately have "\<exists>s2. check_block sample_env sample_pooled b = Some (Accepted, s2)"
    using late_block_is_accepted [OF sample_env_ok sample_signatures sample_nonce_last sample_pooled_inv,
        of "[(40, QueryPeers True)]" "[]" "[(40, QueryLocalNodeId True)]" "[]" 40 3 sample_key b sample_pooled sample_block1]
      sample_round_mined [OF b(1)] b(2) by auto
  with sample_round_mined [OF b(1)] b(2) show ?thesis by blast
qed

end
