(* ===== verification/Stalled_Miner.thy ===== *)
theory Stalled_Miner
  imports Miner_Loop
begin

text \<open>
  What becomes of the miner's loop when the pool of the hub holds a transaction that spends cash which the
  leading branch has spent already. A hub pools any transaction it does not hold (\<open>NewTransaction\<close> looks at
  neither the chain nor the cash), and only takes those out that a block makes valid.
\<close>

section \<open>Blocks that spend cash twice\<close>

text \<open>Cash that the leading branch has spent.\<close>

definition spent :: "('n, 'st) hub \<Rightarrow> Cash \<Rightarrow> bool" where
  "spent s c \<longleftrightarrow> c \<in> touched (branch (valid_blocks s) (leading_block s)) \<and>
     c |\<notin>| unspent (branch (valid_blocks s) (leading_block s))"

definition spends_again :: "('n, 'st) hub \<Rightarrow> Transaction \<Rightarrow> bool" where
  "spends_again s t \<longleftrightarrow> (\<exists>c \<in> set (inputs t). spent s c)"

lemma spends_again_missing:
  assumes inv: "hub_inv env s" and prev: "fmlookup (valid_blocks s) (prev_id b) = Some prev"
    and b: "prev_id b = leading_block s" "t \<in> set (transactions b)" "spends_again s t"
    and cash: "cash_set_at env s (prev_id b) = Some (Some cash, s1)"
  shows "missing_input (cs_set cash) b"
proof -
  let ?br = "branch (valid_blocks s) (leading_block s)"
  have "cs_set cash = fold apply_block ?br (cs_set (cash_set s))"
    using cash_set_at_replays [OF hub_inv_blocks [OF inv] prev hub_inv_cash [OF inv]] cash b(1)
    by (simp add: Let_def) (auto simp: with_cash_def)
  then have members: "fset (cs_set cash) = fset (unspent ?br) \<union> (fset (cs_set (cash_set s)) - touched ?br)"
    by (simp add: replay_members)
  obtain c where c: "c \<in> set (inputs t)" "c \<in> touched ?br" "c |\<notin>| unspent ?br"
    using b(3) by (auto simp: spends_again_def spent_def)
  then have "c |\<notin>| cs_set cash" using members by auto
  then show ?thesis using b(2) c(1) by (auto simp: missing_input_def list_ex_iff)
qed

lemma spends_again_refused:
  "hub_inv env s \<Longrightarrow> prev_id b = leading_block s \<Longrightarrow> t \<in> set (transactions b) \<Longrightarrow> spends_again s t \<Longrightarrow> \<not> accepts env s b s1"
  using spends_again_missing by (fastforce simp: accepts_def)

text \<open>What of a hub such a block leaves as it is.\<close>

definition stuck :: "('n, 'st) hub \<Rightarrow> ('n, 'st) hub \<Rightarrow> bool" where
  "stuck s s' \<longleftrightarrow> valid_blocks s' = valid_blocks s \<and> leading_block s' = leading_block s \<and> mempool s' = mempool s \<and>
     hub_config s' = hub_config s"

lemma stuck_refl: "stuck s s" and stuck_trans: "stuck s s1 \<Longrightarrow> stuck s1 s2 \<Longrightarrow> stuck s s2"
  by (simp_all add: stuck_def)

lemma refused_block_stuck:
  assumes env: "env_ok env" and inv: "hub_inv env s" and b: "prev_id b = leading_block s" "\<And>s1. \<not> accepts env s b s1"
    and call: "new_block env now s None b = Some (r, s')"
  shows "stuck s s' \<and> r = Inr None"
proof -
  consider "stuck s s'" "r = Inr None" | ids s1 where "fresh_block env s b" "validate_block env s b = Some (ids, s1)"
      "after_validation env s1 None (block_id env b) (prev_id b) ids = Some (r, s')"
    using call by (auto simp: new_block_def fresh_block_def stuck_def split: if_splits)
  then show ?thesis
  proof cases
    case (2 ids s1)
    obtain l where "fmlookup (valid_blocks s) (prev_id b) = Some l"
      using hub_inv_leader [OF inv] b(1) by (auto simp: leads_def)
    with env_ok_dest [OF env] hub_inv_pools [OF inv] 2(1,2) have "ids = [] \<and> stuck s s1"
      by (cases rule: validate_block_outcome) (use b(2) in \<open>auto simp: stuck_def\<close>)
    moreover from this have "s' = s1 \<and> r = Inr None"
      using 2(3) by (auto simp: after_validation_def bind_eq_Some_conv split: if_splits)
    ultimately show ?thesis by simp
  qed simp
qed

text \<open>The hub does not stop on such a block either, if it follows the rules otherwise.\<close>

lemma spends_again_handled:
  assumes inv: "hub_inv env s" and l: "fmlookup (valid_blocks s) (leading_block s) = Some l"
    and b: "prev_id b = leading_block s" "timestamp l \<le> timestamp b" "checked_add (seqno l) 1 = Some (seqno b)"
      "expected_difficulty s b l = Some (difficulty b)" "t \<in> set (transactions b)" "spends_again s t"
    and alone: "unconfirmed_blocks s = fmempty"
  shows "\<exists>s'. new_block env now s None b = Some (Inr None, s')"
proof -
  obtain cash s1 where cash: "cash_set_at env s (leading_block s) = Some (Some cash, s1)"
    using cash_set_at_replays [OF hub_inv_blocks [OF inv] l hub_inv_cash [OF inv]] by (auto simp: Let_def)
  have "missing_input (cs_set cash) b"
    using spends_again_missing [OF inv _ b(1,5,6)] cash b(1) l by auto
  then have "check_block env s b = Some (Rejected, reject env s1 (block_id env b))"
    using l b cash by (simp add: check_block_def check_cash_def not_less)
  moreover obtain S where "s1 = with_cash S s" using cash_set_at_frame [OF cash] by blast
  ultimately show ?thesis
    using alone by (auto simp: new_block_def validate_block_def after_validation_def)
qed

section \<open>The loop goes round and round\<close>

text \<open>A round in which the hub hears of nothing but the block of the miner.\<close>

definition undisturbed :: "('n, 'st) miner_round \<Rightarrow> bool" where
  "undisturbed rd \<longleftrightarrow> before_block rd = [] \<and> before_mempool rd = [] \<and> before_transactions rd = [] \<and>
     before_adjust_time rd = [] \<and> before_cast rd = [] \<and> while_asleep rd = []"

text \<open>The next block of a miner would have a transaction that spends cash again.\<close>

definition picks_spent :: "('sk, 'n, 'st) hub_env \<Rightarrow> ('n, 'st) hub \<Rightarrow> bool" where
  "picks_spent env s \<longleftrightarrow> (\<exists>fees t x. query_mempool env s = Some fees \<and>
     t \<in> set (pick_transactions (unat (block_txn_limit (hub_config s))) fees) \<and>
     fmlookup (mempool s) t = Some x \<and> spends_again s x)"

lemma picks_spent_stuck:
  assumes "stuck s s'"
  shows "picks_spent env s' \<longleftrightarrow> picks_spent env s"
proof -
  have "valid_blocks s' = valid_blocks s" "leading_block s' = leading_block s" "mempool s' = mempool s"
    "hub_config s' = hub_config s" using assms by (simp_all add: stuck_def)
  moreover from this have "mempool_fee s' = mempool_fee s" by (intro ext) (simp add: mempool_fee_def)
  ultimately show ?thesis
    by (simp add: picks_spent_def query_mempool_def spends_again_def spent_def)
qed

lemma stalled_run:
  assumes env: "env_ok env" "signatures_verify env" "nonce_is_last env"
  shows "hub_inv env s \<Longrightarrow> hub_config s = config \<Longrightarrow> picks_spent env s \<Longrightarrow> list_all undisturbed rounds \<Longrightarrow>
    miner_run env config sk (from_signer env sk) rounds s = Some (r, s') \<Longrightarrow>
    stuck s s' \<and> (\<exists>blocks. r = Inr blocks \<and> length blocks = length rounds)"
proof (induction rounds arbitrary: s r s')
  case Nil
  then show ?case by (simp add: stuck_refl)
next
  case (Cons rd rounds)
  have rd: "before_block rd = []" "before_mempool rd = []" "before_transactions rd = []"
     "before_adjust_time rd = []" "before_cast rd = []" "while_asleep rd = []"
    using Cons.prems(4) by (simp_all add: undisturbed_def)
  obtain q s1 where call: "mine_with_calls env (round_now rd) (round_uuid rd) config sk (from_signer env sk) [] [] [] [] s = Some (q, s1)"
    using Cons.prems(5) rd by (cases "mine_with_calls env (round_now rd) (round_uuid rd) config sk (from_signer env sk) [] [] [] [] s") auto
  from mine_with_calls_result [OF env(3) this] obtain fees l adj ub b where round: "s1 = s" "query_mempool env s = Some fees"
      "UnconfirmedBlock_new env (round_now rd) (round_uuid rd) l (from_signer env sk) (found_transactions
        (map (fmlookup (mempool s)) (pick_transactions (unat (block_txn_limit config)) fees))) adj config = Some (Inr ub)"
      "try_confirm env ub sk = Some (Inr b)" and b: "q = Inr b"
    by auto
  then have ne: "q \<noteq> Inl RoundCallFailed" by simp
  have snd: "sound_block env b" and prev: "prev_id b = leading_block s"
    using round_block [OF env Cons.prems(1) _ call [folded Cons.prems(2)] ne] b by auto
  obtain t x where t: "t \<in> set (pick_transactions (unat (block_txn_limit config)) fees)" "fmlookup (mempool s) t = Some x"
    "spends_again s x"
    using Cons.prems(2,3) round(2) by (auto simp: picks_spent_def)
  moreover have "transactions b = found_transactions (map (fmlookup (mempool s)) (pick_transactions (unat (block_txn_limit config)) fees))"
    using UnconfirmedBlock_new_Inr(2) [OF round(3)] try_confirm_block(4) [OF round(4)] by simp
  ultimately have "x \<in> set (transactions b)" by (force simp: set_found_transactions)
  note refused = spends_again_refused [OF Cons.prems(1) prev this t(3)]
  obtain p s2 where s2: "new_block env (round_now rd) s None b = Some (p, s2)"
    using Cons.prems(5) call b round(1) rd by (cases "new_block env (round_now rd) s None b") auto
  note after = refused_block_stuck [OF env(1) Cons.prems(1) prev refused s2]
  have "hub_inv env s2"
    using handle_inv [OF env(1) Cons.prems(1), of "NewBlock None b"] snd s2 by simp
  moreover have "hub_config s2 = config" "picks_spent env s2"
    using after Cons.prems(2,3) picks_spent_stuck [of s s2 env] by (auto simp: stuck_def)
  moreover obtain rest where rest: "miner_run env config sk (from_signer env sk) rounds s2 = Some (rest, s')" "r = map_sum id (Cons b) rest"
    using Cons.prems(5) call b round(1) rd s2 after by (auto simp: bind_eq_Some_conv)
  ultimately show ?case
    using Cons.IH [OF _ _ _ _ rest(1)] Cons.prems(4) stuck_trans [of s s2 s'] after rest(2) by auto
qed

end
