(* ===== verification/Stall_Properties.thy ===== *)
theory Stall_Properties
  imports Stalled_Miner Sample_Network
begin

text \<open>
  Property of the miner's loop on a pool with a transaction that spends cash again, applied to a hub that got
  such a transaction back after it was mined.
\<close>

section \<open>A transaction that comes back\<close>

text \<open>The sample hub once its leading block holds \<open>sample_txn\<close>, and the hub with that transaction pooled again.\<close>

lemma sample_respent:
  "\<exists>s. hub_inv sample_env s \<and> hub_config s = sample_config \<and> unconfirmed_blocks s = fmempty \<and>
     leading_block s = block_id sample_env double_block \<and>
     fmlookup (valid_blocks s) (leading_block s) = Some double_block \<and>
     mempool s = fmupd (txn_id sample_env sample_txn) sample_txn fmempty \<and> spends_again s sample_txn"
proof -
  obtain s1 where "accepts sample_env sample_s1 double_block s1" using double_accepts by blast
  then obtain S where acc: "accepts sample_env sample_s1 double_block (with_cash S sample_s1)" using accepts_with_cash by blast
  have "seqno double_block = 2" by (simp add: double_block_def)
  then have "hash_bytes (block_id sample_env double_block) ! 1 = 2" using sample_id_height [of double_block] by simp
  then have id: "block_id sample_env double_block \<noteq> block_id sample_env sample_genesis"
      "block_id sample_env double_block \<noteq> block_id sample_env sample_block1"
    by (auto simp: sample_ids)
  then have new: "unheard sample_env sample_s1 double_block" by (simp add: unheard_def)
  let ?s = "with_block sample_env double_block S sample_s1"
  have "hub_inv sample_env ?s"
    using validate_block_hub_inv [OF sample_env_ok sample_s1_inv _ double_block_sound accepted_alone [OF sample_s1_inv acc new]]
      unheard_block(3,4) [OF new] by (simp add: fresh_block_def)
  let ?s2 = "?s\<lparr>mempool := fmupd (txn_id sample_env sample_txn) sample_txn (mempool ?s)\<rparr>"
  have pool: "mempool ?s = fmempty" by (rule fmap_ext) (simp add: with_block_def)
  have inv: "hub_inv sample_env ?s2" by (rule hub_inv_pool [OF \<open>hub_inv sample_env ?s\<close> sample_txn_valid])
  have lead: "leading_block ?s = block_id sample_env double_block" by (simp add: with_block_def double_block_def)
  have "branch (valid_blocks ?s) (block_id sample_env double_block) = branch (valid_blocks ?s) (prev_id double_block) @ [double_block]"
    by (rule branch_step [OF hub_inv_blocks [OF \<open>hub_inv sample_env ?s\<close>]]) (simp_all add: id)
  also have "branch (valid_blocks ?s) (prev_id double_block) = [sample_genesis, sample_block1]"
    using branch_extend [OF hub_inv_blocks [OF sample_s1_inv], of "block_id sample_env double_block" double_block "prev_id double_block" sample_block1]
      hub_inv_blocks [OF \<open>hub_inv sample_env ?s\<close>] id sample_branch1 by (simp add: double_block_def)
  finally have br: "branch (valid_blocks ?s) (block_id sample_env double_block) = [sample_genesis, sample_block1, double_block]" by simp
  have c: "reward sample_genesis = Cash_new 0 50 \<lparr>pub_key = genesis_key\<rparr>" "reward sample_block1 = Cash_new 1 50 \<lparr>pub_key = sample_key\<rparr>"
    "reward double_block = Cash_new 3 60 \<lparr>pub_key = sample_key\<rparr>" "transactions double_block = [sample_txn, other_txn]"
    by (simp_all add: sample_genesis_def sample_block1_def double_block_def)
  have "reward sample_block1 |\<notin>| unspent [sample_genesis, sample_block1, double_block]"
    by (simp add: unspent_def apply_block_def apply_txn_def spend_def double_txns c Cash_new_def)
  moreover have "reward sample_block1 \<in> touched [sample_genesis, sample_block1, double_block]" by (simp add: touched_def)
  ultimately have spent: "spends_again ?s2 sample_txn"
    using lead br by (simp add: spends_again_def spent_def double_txns)
  show ?thesis
    by (rule exI [of _ ?s2]) (use inv lead pool spent in simp)
qed

text \<open>A round of the miner on it, at time 50.\<close>

definition stalled_round :: "(nat, u8 list) miner_round" where
  "stalled_round = \<lparr>round_now = 50, round_uuid = 4, before_block = [], before_mempool = [],
     before_transactions = [], before_adjust_time = [], before_cast = [], while_asleep = []\<rparr>"

lemma sample_stalled_round:
  assumes inv: "hub_inv sample_env s" and cfg: "hub_config s = sample_config" and alone: "unconfirmed_blocks s = fmempty"
    and lead: "leading_block s = block_id sample_env double_block" "fmlookup (valid_blocks s) (leading_block s) = Some double_block"
    and pool: "mempool s = fmupd (txn_id sample_env sample_txn) sample_txn fmempty" and spent: "spends_again s sample_txn"
  shows "\<exists>b s'. miner_run sample_env sample_config sample_key (from_signer sample_env sample_key) [stalled_round] s = Some (Inr [b], s')"
    "query_mempool sample_env s = Some [(txn_id sample_env sample_txn, 5)]"
proof -
  let ?own = "from_signer sample_env sample_key"
  let ?ub = "\<lparr>ub_seqno = 3, ub_difficulty = Difficulty (- 1), ub_prev_id = block_id sample_env double_block,
    ub_transactions = [sample_txn], ub_reward = Cash_new 4 55 ?own, ub_miner = ?own, ub_timestamp = 50\<rparr>"
  have d: "seqno double_block = 2" "difficulty double_block = Difficulty (- 1)" "timestamp double_block = 40"
    by (simp_all add: double_block_def)
  have fee: "fee sample_txn = Some 5"
    by (simp add: fee_Some double_txns Cash_new_def sample_block1_def)
  show fees: "query_mempool sample_env s = Some [(txn_id sample_env sample_txn, 5)]"
    by (simp add: query_mempool_def mempool_fee_def fee pool sorted_list_of_fset.rep_eq)
  have ub: "UnconfirmedBlock_new sample_env 50 4 double_block ?own [sample_txn] None sample_config = Some (Inr ?ub)"
    by (simp add: UnconfirmedBlock_new_def checked_add_def checked_rem_def block_subsidy_def checked_div_def
        checked_shr_def total_fees_def fee d)
  obtain b where b: "try_confirm sample_env ?ub sample_key = Some (Inr b)"
    using try_confirm_result [OF sample_nonce_last sample_nonce_met, of ?ub sample_key] by auto
  have "mine_round sample_env 50 4 sample_config sample_key ?own double_block [(txn_id sample_env sample_txn, 5)] (map (fmlookup (mempool s))) adj =
      Some (Inr b)" for adj
    using ub b by (simp add: mine_round_def Let_def pick_transactions_def found_transactions_def pool d
        checked_add_def checked_rem_def sample_config_def default_config_def)
  then have call: "mine_with_calls sample_env 50 4 sample_config sample_key (from_signer sample_env sample_key) [] [] [] [] s = Some (Inr b, s)"
    using mine_with_calls_answers [OF sample_env_ok inv handle_all_simps(1) handle_all_simps(1) handle_all_simps(1) handle_all_simps(1),
        of double_block 50 4 sample_key] lead fees by (auto simp: cfg d)
  note fields = try_confirm_block [OF b]
  obtain s' where "new_block sample_env 50 s None b = Some (Inr None, s')"
  proof (rule exE)
    show "\<exists>s'. new_block sample_env 50 s None b = Some (Inr None, s')"
      by (rule spends_again_handled [OF inv lead(2)])
        (use fields lead alone spent in \<open>simp_all add: d checked_add_def expected_difficulty_def checked_rem_def cfg\<close>)
  qed
  with call have "miner_run sample_env sample_config sample_key (from_signer sample_env sample_key) [stalled_round] s = Some (Inr [b], s')"
    by (simp add: stalled_round_def)
  then show "\<exists>b s'. miner_run sample_env sample_config sample_key (from_signer sample_env sample_key) [stalled_round] s = Some (Inr [b], s')" by blast
qed

text \<open>C15: One transaction that spends cash the leading branch has already spent brings a miner to a stand: a hub
  pools it again if anybody sends it, also when it has long been mined, takes it out only with a block that
  becomes valid, and the miner puts it into each of its blocks, which the hub then refuses. However many
  rounds the miner gets through with a hub that hears of nothing else, each casts a block, and the chain, its
  leading block and the pool stay as they are.\<close>

theorem spent_transaction_stalls_miner:
  assumes "env_ok env" "signatures_verify env" "nonce_is_last env" "hub_inv env s"
    and "query_mempool env s = Some fees" "t \<in> set (pick_transactions (unat (block_txn_limit (hub_config s))) fees)"
    and "fmlookup (mempool s) t = Some x" "c \<in> set (inputs x)"
    and "c \<in> touched (branch (valid_blocks s) (leading_block s))" "c |\<notin>| unspent (branch (valid_blocks s) (leading_block s))"
    and "list_all undisturbed rounds" "miner_run env (hub_config s) sk (from_signer env sk) rounds s = Some (r, s')"
  shows "(\<exists>blocks. r = Inr blocks \<and> length blocks = length rounds) \<and> valid_blocks s' = valid_blocks s \<and>
    leading_block s' = leading_block s \<and> mempool s' = mempool s"
proof -
  have "picks_spent env s" using assms(5-10) unfolding picks_spent_def spends_again_def spent_def by blast
  with stalled_run [OF assms(1-4) refl _ assms(11,12)] show ?thesis by (simp add: stuck_def)
qed

theorem spent_transaction_stalls_miner_witness:
  "\<exists>s b s'. miner_run sample_env sample_config sample_key (from_signer sample_env sample_key) [stalled_round] s = Some (Inr [b], s') \<and>
     leading_block s = block_id sample_env double_block \<and> leading_block s' = block_id sample_env double_block \<and>
     fmlookup (mempool s') (txn_id sample_env sample_txn) = Some sample_txn"
proof -
  obtain s where s: "hub_inv sample_env s" "hub_config s = sample_config" "unconfirmed_blocks s = fmempty"
     "leading_block s = block_id sample_env double_block" "fmlookup (valid_blocks s) (leading_block s) = Some double_block"
     "mempool s = fmupd (txn_id sample_env sample_txn) sample_txn fmempty" "spends_again s sample_txn"
    using sample_respent by blast
  obtain c where c: "c \<in> set (inputs sample_txn)" "c \<in> touched (branch (valid_blocks s) (leading_block s))"
      "c |\<notin>| unspent (branch (valid_blocks s) (leading_block s))"
    using s(7) unfolding spends_again_def spent_def by blast
  obtain b s' where run: "miner_run sample_env sample_config sample_key (from_signer sample_env sample_key) [stalled_round] s = Some (Inr [b], s')"
    using sample_stalled_round(1) [OF s] by blast
  have "txn_id sample_env sample_txn \<in> set (pick_transactions (unat (block_txn_limit (hub_config s))) [(txn_id sample_env sample_txn, 5)])"
    by (simp add: pick_transactions_def s(2) sample_config_def default_config_def)
  from spent_transaction_stalls_miner [OF sample_env_ok sample_signatures sample_nonce_last s(1) sample_stalled_round(2) [OF s]
      this _ c, of "[stalled_round]" sample_key "Inr [b]" s']
  have "leading_block s' = leading_block s \<and> mempool s' = mempool s"
    using s(2,6) run by (simp add: undisturbed_def stalled_round_def)
  with run s(4,6) show ?thesis by (intro exI [of _ s] exI [of _ b] exI [of _ s']) simp
qed

end
