(* ===== verification/Startup.thy ===== *)
theory Startup
  imports Hub_Handle Network
begin

text \<open>
  Starting a node (\<open>Config::run\<close> and its helpers in \<open>src/src/config.rs\<close>, \<open>ddcoin::run\<close> in \<open>src/src/lib.rs\<close>)
  and the program that only runs one (\<open>src/src/bin/propagator.rs\<close>). What the network package and the
  runtime do is the record \<open>runtime\<close>: the discovery services, binding an endpoint, spawning an actor and
  the task that waits for the two connection tasks.
\<close>

section \<open>The packages a node starts with\<close>

text \<open>
  \<open>local_swarm\<close> and \<open>bind\<close> fail with \<open>None\<close> (the first is unwrapped); \<open>endpoint_discovery\<close> and \<open>subscribe\<close>
  are unwrapped. \<open>bind\<close> gets the key, the services and the protocols the endpoint accepts. \<open>spawn\<close> gets
  what \<open>pre_start\<close> returned, \<open>None\<close> if it panicked.
\<close>

record ('key, 'svc, 'disc, 'ep, 'items, 'n, 'st, 'h) runtime =
  local_swarm :: "'key \<Rightarrow> 'svc option"
  pkarr_publisher :: "'key \<Rightarrow> 'svc"
  dns_discovery :: 'svc
  bind_endpoint :: "'key \<Rightarrow> 'svc list \<Rightarrow> u8 list list \<Rightarrow> 'ep option"
  endpoint_discovery :: "'ep \<Rightarrow> 'disc option"
  subscribe :: "'disc \<Rightarrow> 'items option"
  endpoint_node_id :: "'ep \<Rightarrow> 'n"
  actor_spawn :: "('n, 'st) hub option \<Rightarrow> (('n, 'st) hub \<times> 'h) option"
  task_spawn :: 'h

text \<open>An actor that starts has the state that \<open>pre_start\<close> returned.\<close>

definition runtime_ok :: "('key, 'svc, 'disc, 'ep, 'items, 'n, 'st, 'h, 'z) runtime_scheme \<Rightarrow> bool" where
  "runtime_ok rt \<longleftrightarrow> (\<forall>r s h. actor_spawn rt r = Some (s, h) \<longrightarrow> r = Some s)"

section \<open>The two connection tasks\<close>

record ('items, 'ep) NewPeerStreamSubscriber =
  sub_stream :: 'items
  sub_endpoint :: 'ep
  sub_alpn :: "u8 list"

record 'ep IncomingConnectionListener =
  listen_endpoint :: 'ep

definition NewPeerStreamSubscriber_new :: "'items \<Rightarrow> 'ep \<Rightarrow> u8 list \<Rightarrow> ('items, 'ep) NewPeerStreamSubscriber" where
  "NewPeerStreamSubscriber_new stream endpoint protocol =
     \<lparr>sub_stream = stream, sub_endpoint = endpoint, sub_alpn = protocol\<rparr>"

definition IncomingConnectionListener_new :: "'ep \<Rightarrow> 'ep IncomingConnectionListener" where
  "IncomingConnectionListener_new endpoint = \<lparr>listen_endpoint = endpoint\<rparr>"

definition HubHandle_new :: "'h \<Rightarrow> 'h \<Rightarrow> 'h HubHandle" where
  "HubHandle_new listener_join actor_join =
     \<lparr>new_peer_listener_handler = listener_join, actor_handle = actor_join\<rparr>"

section \<open>Starting a node\<close>

datatype start_error = BindFailed | ActorNotStarted

record ('items, 'ep, 'n, 'st, 'h) started =
  hub_actor :: "('n, 'st) hub"
  subscriber_task :: "('items, 'ep) NewPeerStreamSubscriber"
  listener_task :: "'ep IncomingConnectionListener"
  hub_handle :: "'h HubHandle"

definition run_with_secret_and_discovery ::
    "('key, 'svc, 'disc, 'ep, 'items, 'n, 'st, 'h, 'z) runtime_scheme \<Rightarrow> ('sk, 'n, 'st) hub_env \<Rightarrow> Config \<Rightarrow>
     'key \<Rightarrow> 'svc list \<Rightarrow> (start_error + ('items, 'ep, 'n, 'st, 'h) started) option" where
  "run_with_secret_and_discovery rt env self secret_key discovery =
     (case bind_endpoint rt secret_key discovery [alpn self] of
        None \<Rightarrow> Some (Inl BindFailed)
      | Some endpoint \<Rightarrow> do {
          disc \<leftarrow> endpoint_discovery rt endpoint;
          peer_stream \<leftarrow> subscribe rt disc;
          (case actor_spawn rt (hub_new env (endpoint_node_id rt endpoint) self) of
             None \<Rightarrow> Some (Inl ActorNotStarted)
           | Some (hub, peer_hub_actor_handle) \<Rightarrow>
               Some (Inr \<lparr>hub_actor = hub,
                 subscriber_task = NewPeerStreamSubscriber_new peer_stream endpoint (alpn self),
                 listener_task = IncomingConnectionListener_new endpoint,
                 hub_handle = HubHandle_new (task_spawn rt) peer_hub_actor_handle\<rparr>)) })"

definition run_with_local_discovery ::
    "('key, 'svc, 'disc, 'ep, 'items, 'n, 'st, 'h, 'z) runtime_scheme \<Rightarrow> ('sk, 'n, 'st) hub_env \<Rightarrow> Config \<Rightarrow>
     'key \<Rightarrow> (start_error + ('items, 'ep, 'n, 'st, 'h) started) option" where
  "run_with_local_discovery rt env self secret_key = do {
     swarm \<leftarrow> local_swarm rt secret_key;
     run_with_secret_and_discovery rt env self secret_key [swarm] }"

definition run_config ::
    "('key, 'svc, 'disc, 'ep, 'items, 'n, 'st, 'h, 'z) runtime_scheme \<Rightarrow> ('sk, 'n, 'st) hub_env \<Rightarrow> Config \<Rightarrow>
     'key \<Rightarrow> (start_error + ('items, 'ep, 'n, 'st, 'h) started) option" where
  "run_config rt env self secret_key = do {
     swarm \<leftarrow> local_swarm rt secret_key;
     run_with_secret_and_discovery rt env self secret_key
       [pkarr_publisher rt secret_key, dns_discovery rt, swarm] }"

text \<open>\<open>ddcoin::run\<close>.\<close>

definition run_default ::
    "('key, 'svc, 'disc, 'ep, 'items, 'n, 'st, 'h, 'z) runtime_scheme \<Rightarrow> ('sk, 'n, 'st) hub_env \<Rightarrow>
     'key \<Rightarrow> (start_error + ('items, 'ep, 'n, 'st, 'h) started) option" where
  "run_default rt env secret_key = run_config rt env default_config secret_key"

section \<open>The program that runs a node\<close>

text \<open>\<open>handle.await\<close> polls the handle, each time it is woken, until it is ready: \<open>None\<close> is a poll that
  panics, or a handle that is never ready.\<close>

partial_function (option) await_handle :: "('h, 'e) poller \<Rightarrow> 'h HubHandle \<Rightarrow> ('e + unit) option" where
  "await_handle poll h = do {
     (r, h') \<leftarrow> hub_handle_poll poll h;
     (case r of Ready x \<Rightarrow> Some x | Pending \<Rightarrow> await_handle poll h') }"

declare await_handle.simps [code]

datatype 'e main_error = NotStarted start_error | HandleFailed 'e

definition propagator_main ::
    "('key, 'svc, 'disc, 'ep, 'items, 'n, 'st, 'h, 'z) runtime_scheme \<Rightarrow> ('sk, 'n, 'st) hub_env \<Rightarrow>
     ('h, 'e) poller \<Rightarrow> 'key \<Rightarrow> ('e main_error + unit) option" where
  "propagator_main rt env poll secret_key = do {
     r \<leftarrow> run_default rt env secret_key;
     (case r of
        Inl e \<Rightarrow> Some (Inl (NotStarted e))
      | Inr node \<Rightarrow> map_option (map_sum HandleFailed id) (await_handle poll (hub_handle node))) }"

section \<open>A started node\<close>

lemma run_starts:
  assumes "runtime_ok rt" "run_with_secret_and_discovery rt env cfg key services = Some (Inr node)"
  shows "\<exists>ep. bind_endpoint rt key services [alpn cfg] = Some ep \<and>
    hub_new env (endpoint_node_id rt ep) cfg = Some (hub_actor node) \<and>
    sub_endpoint (subscriber_task node) = ep \<and> sub_alpn (subscriber_task node) = alpn cfg \<and>
    listen_endpoint (listener_task node) = ep"
  using assms
  by (auto simp: run_with_secret_and_discovery_def runtime_ok_def NewPeerStreamSubscriber_new_def
      IncomingConnectionListener_new_def split: option.splits)

lemma hub_new_peers: "hub_new env i cfg = Some s \<Longrightarrow> peers s = fmempty"
  by (auto simp: hub_new_def Let_def)

lemma run_starts_hub:
  assumes "runtime_ok rt"
    and "run_config rt env cfg key = Some (Inr node) \<or> run_with_local_discovery rt env cfg key = Some (Inr node)"
  shows "hub_start env cfg (hub_actor node)" "sub_alpn (subscriber_task node) = alpn cfg"
    "peers (hub_actor node) = fmempty"
proof -
  obtain services where "run_with_secret_and_discovery rt env cfg key services = Some (Inr node)"
    using assms(2) by (auto simp: run_config_def run_with_local_discovery_def)
  from run_starts [OF assms(1) this]
  show "hub_start env cfg (hub_actor node)" "sub_alpn (subscriber_task node) = alpn cfg"
    "peers (hub_actor node) = fmempty"
    by (auto simp: hub_start_def dest: hub_new_peers)
qed

lemma run_default_starts:
  "run_default rt env key = Some (Inr node) \<Longrightarrow> run_config rt env default_config key = Some (Inr node)"
  by (simp add: run_default_def)

section \<open>Waiting for the handle\<close>

lemma await_handle_both:
  assumes "join_handle_ok poll state"
    and "state (new_peer_listener_handler h) = Ended r" "state (actor_handle h) = Ended r'"
  shows "await_handle poll h = Some (case r of Inl e \<Rightarrow> Inl e | Inr _ \<Rightarrow> r')"
  using hub_handle_both [OF assms] by (subst await_handle.simps) auto

lemma await_handle_one:
  assumes "join_handle_ok poll state"
    and "state (new_peer_listener_handler h) = Ended (Inr ()) \<and> state (actor_handle h) = Running \<or>
         state (new_peer_listener_handler h) = Running \<and> state (actor_handle h) = Ended (Inr ())"
  shows "await_handle poll h = None"
proof -
  obtain h' where "hub_handle_poll poll h = Some (Pending, h')" "hub_handle_poll poll h' = None"
    using hub_handle_one [OF assms] by blast
  then show ?thesis by (subst await_handle.simps) (simp add: await_handle.simps [of poll h'])
qed

end
