(* ===== verification/Full_Mesh.thy ===== *)
theory Full_Mesh
  imports Startup Test_Util
begin

text \<open>
  Starting several nodes and waiting until each has all the others as peers (\<open>fully_connected\<close> of
  \<open>src/src/test_util.rs\<close>, used by the tests of \<open>src/src/lib.rs\<close>). While the test waits, the hubs handle
  messages: \<open>traffic i k\<close> is what hub \<open>i\<close> gets before the \<open>k\<close>-th query of it.
\<close>

type_synonym ('n, 'st) polled = "nat \<Rightarrow> (Timestamp \<times> ('n, 'st) PeerHubActorMessage) list"

datatype mesh_error = NodeNotStarted start_error | QueryFailed

text \<open>One node after the other; the first error ends it.\<close>

fun start_nodes ::
    "('sk, 'n, 'st) hub_env \<Rightarrow> Config \<Rightarrow>
     (('key, 'svc, 'disc, 'ep, 'items, 'n, 'st, 'h, 'z) runtime_scheme \<times> 'key) list \<Rightarrow>
     (mesh_error + ('items, 'ep, 'n, 'st, 'h) started list) option" where
  "start_nodes env config [] = Some (Inr [])"
| "start_nodes env config ((rt, key) # later) = do {
     r \<leftarrow> run_with_local_discovery rt env config key;
     (case r of
        Inl e \<Rightarrow> Some (Inl (NodeNotStarted e))
      | Inr node \<Rightarrow> map_option (map_sum id (Cons node)) (start_nodes env config later)) }"

text \<open>The loop over one hub: \<open>None\<close> is a panic, or a loop that does not end.\<close>

partial_function (option) wait_for_peers ::
    "('sk, 'n::linorder, 'st) hub_env \<Rightarrow> nat \<Rightarrow> ('n, 'st) polled \<Rightarrow> nat \<Rightarrow> ('n, 'st) hub \<Rightarrow>
     (mesh_error + ('n, 'st) hub) option" where
  "wait_for_peers env n traffic k s = do {
     (stopped, s1) \<leftarrow> serve env s (traffic k);
     (if stopped \<noteq> None then Some (Inl QueryFailed)
      else do {
        (r, s2) \<leftarrow> helper_peers env 0 s1;
        (case r of
           Inl _ \<Rightarrow> Some (Inl QueryFailed)
         | Inr ids \<Rightarrow> if length ids = n - 1 then Some (Inr s2) else wait_for_peers env n traffic (Suc k) s2) }) }"

declare wait_for_peers.simps [code]

fun wait_for_all ::
    "('sk, 'n::linorder, 'st) hub_env \<Rightarrow> nat \<Rightarrow> (nat \<Rightarrow> ('n, 'st) polled) \<Rightarrow> nat \<Rightarrow>
     ('items, 'ep, 'n, 'st, 'h) started list \<Rightarrow> (mesh_error + ('items, 'ep, 'n, 'st, 'h) started list) option" where
  "wait_for_all env n traffic i [] = Some (Inr [])"
| "wait_for_all env n traffic i (node # nodes) = do {
     r \<leftarrow> wait_for_peers env n (traffic i) 0 (hub_actor node);
     (case r of
        Inl e \<Rightarrow> Some (Inl e)
      | Inr s \<Rightarrow> map_option (map_sum id (Cons (node\<lparr>hub_actor := s\<rparr>))) (wait_for_all env n traffic (Suc i) nodes)) }"

definition fully_connected ::
    "('sk, 'n::linorder, 'st) hub_env \<Rightarrow> Config \<Rightarrow>
     (('key, 'svc, 'disc, 'ep, 'items, 'n, 'st, 'h, 'z) runtime_scheme \<times> 'key) list \<Rightarrow> (nat \<Rightarrow> ('n, 'st) polled) \<Rightarrow>
     (mesh_error + ('items, 'ep, 'n, 'st, 'h) started list) option" where
  "fully_connected env config seeds traffic = do {
     r \<leftarrow> start_nodes env config seeds;
     (case r of
        Inl e \<Rightarrow> Some (Inl e)
      | Inr nodes \<Rightarrow> wait_for_all env (length seeds) traffic 0 nodes) }"

text \<open>The test \<open>connect_to_peers\<close>: \<open>expect\<close> on four nodes.\<close>

definition connect_to_peers ::
    "('sk, 'n::linorder, 'st) hub_env \<Rightarrow> Timestamp \<Rightarrow> u8 list \<Rightarrow>
     (('key, 'svc, 'disc, 'ep, 'items, 'n, 'st, 'h, 'z) runtime_scheme \<times> 'key) list \<Rightarrow> (nat \<Rightarrow> ('n, 'st) polled) \<Rightarrow>
     ('items, 'ep, 'n, 'st, 'h) started list option" where
  "connect_to_peers env now random_bytes seeds traffic =
     (let config = config_with_random_alpn now random_bytes
      in unwrap (fully_connected env config (take 4 seeds) traffic))"

section \<open>Waiting for one node\<close>

lemma helper_peers_result:
  assumes "orders_ok env"
  shows "\<exists>ids. helper_peers env now s = Some (Inr ids, s) \<and> length ids = fcard (fmdom (peers s)) \<and>
    set ids = fset (fmdom (peers s))"
proof -
  have "distinct (peer_order env (fmdom (peers s)))" "set (peer_order env (fmdom (peers s))) = fset (fmdom (peers s))"
    using assms by (simp_all add: orders_ok_def)
  then have "length (peer_order env (fmdom (peers s))) = fcard (fmdom (peers s))"
    using distinct_card [of "peer_order env (fmdom (peers s))"] by (simp add: fcard.rep_eq)
  then show ?thesis
    using \<open>set _ = _\<close> by (simp add: helper_peers_def call_def send_reply_def)
qed

text \<open>The queries leave the hub alone: between them it handles the traffic so far.\<close>

lemma wait_for_peers_step:
  assumes "orders_ok env" "serve env s (traffic k) = Some (None, s1)"
  shows "wait_for_peers env n traffic k s =
    (if fcard (fmdom (peers s1)) = n - 1 then Some (Inr s1) else wait_for_peers env n traffic (Suc k) s1)"
proof -
  obtain ids where "helper_peers env 0 s1 = Some (Inr ids, s1)" "length ids = fcard (fmdom (peers s1))"
    using helper_peers_result [OF assms(1)] by blast
  then show ?thesis using assms(2) by (subst wait_for_peers.simps) simp
qed

definition waited :: "('sk, 'n, 'st) hub_env \<Rightarrow> nat \<Rightarrow> ('n, 'st) hub \<Rightarrow> mesh_error + ('n, 'st) hub \<Rightarrow> bool" where
  "waited env n s r \<longleftrightarrow> (case r of
     Inl e \<Rightarrow> e = QueryFailed
   | Inr s' \<Rightarrow> hub_inv env s' \<and> keeps env s s' \<and> fcard (fmdom (peers s')) = n - 1)"

lemma wait_for_peers_result:
  assumes env: "env_ok env" and ok: "\<forall>k. list_all (\<lambda>(now, m). message_ok env m) (traffic k)"
    and "wait_for_peers env n traffic k s = Some r" "hub_inv env s"
  shows "waited env n s r"
proof -
  let ?P = "\<lambda>env' n' traffic' k s r. env' = env \<longrightarrow> n' = n \<longrightarrow> traffic' = traffic \<longrightarrow> hub_inv env s \<longrightarrow> waited env n s r"
  have orders: "orders_ok env" using env by (simp add: env_ok_def)
  have "?P env n traffic k s r"
  proof (rule wait_for_peers.raw_induct [where P = ?P, OF _ assms(3)])
    fix w env' n' traffic' k s r
    assume IH: "\<And>env n traffic k s r. w env n traffic k s = Some r \<Longrightarrow> ?P env n traffic k s r"
      and body: "serve env' s (traffic' k) \<bind> (\<lambda>(stopped, s1).
        if stopped \<noteq> None then Some (Inl QueryFailed)
        else helper_peers env' 0 s1 \<bind> (\<lambda>(r, s2).
        case r of Inl x \<Rightarrow> Some (Inl QueryFailed)
        | Inr ids \<Rightarrow> if length ids = n' - 1 then Some (Inr s2) else w env' n' traffic' (Suc k) s2)) = Some r"
    show "?P env' n' traffic' k s r"
    proof (intro impI)
      assume eq: "env' = env" "n' = n" "traffic' = traffic" and inv: "hub_inv env s"
      obtain e s1 where s1: "serve env s (traffic k) = Some (e, s1)"
        using body eq by (cases "serve env s (traffic k)") auto
      have k: "hub_inv env s1" "keeps env s s1"
        using serve_keeps [OF env inv _ s1] ok by auto
      obtain ids where ids: "helper_peers env 0 s1 = Some (Inr ids, s1)" "length ids = fcard (fmdom (peers s1))"
        using helper_peers_result [OF orders] by blast
      consider "e \<noteq> None" | "e = None" "length ids = n - 1" | "e = None" "length ids \<noteq> n - 1" by blast
      then show "waited env n s r"
      proof cases
        case 3
        then have "w env n traffic (Suc k) s1 = Some r" using body eq s1 ids by simp
        then have "?P env n traffic (Suc k) s1 r" by (rule IH)
        then have "waited env n s1 r" using k(1) by simp
        then show ?thesis using keeps_trans [OF k(2)] by (cases r) (auto simp: waited_def)
      qed (use body eq s1 ids k in \<open>auto simp: waited_def\<close>)
    qed
  qed
  then show ?thesis using assms(4) by simp
qed

text \<open>The loop ends if at some query the hub has the peers it is to have.\<close>

definition gets_peers ::
    "('sk, 'n::linorder, 'st) hub_env \<Rightarrow> nat \<Rightarrow> ('n, 'st) polled \<Rightarrow> nat \<Rightarrow> ('n, 'st) hub \<Rightarrow> bool" where
  "gets_peers env n traffic k s \<longleftrightarrow> (\<exists>s'. serve env s (concat (map traffic [0..<Suc k])) = Some (None, s') \<and>
     fcard (fmdom (peers s')) = n - 1)"

lemma wait_for_peers_ends:
  assumes "orders_ok env"
  shows "serve env s (concat (map traffic [k..<Suc (k + i)])) = Some (None, s') \<Longrightarrow>
    fcard (fmdom (peers s')) = n - 1 \<Longrightarrow> \<exists>s1. wait_for_peers env n traffic k s = Some (Inr s1)"
proof (induction i arbitrary: k s)
  case 0
  then show ?case by (simp add: wait_for_peers_step [OF assms])
next
  case (Suc i)
  have "[k..<Suc (k + Suc i)] = k # [Suc k..<Suc (Suc k + i)]" by (simp add: upt_conv_Cons)
  then have run: "serve env s (traffic k @ concat (map traffic [Suc k..<Suc (Suc k + i)])) = Some (None, s')"
    using Suc.prems(1) by (simp del: upt_Suc)
  then obtain s1 where s1: "serve env s (traffic k) = Some (None, s1)"
    by (auto simp: serve_append simp del: upt_Suc split: option.splits)
  have "serve env s1 (concat (map traffic [Suc k..<Suc (Suc k + i)])) = Some (None, s')"
    using run s1 by (simp add: serve_append del: upt_Suc)
  then have "\<exists>s1'. wait_for_peers env n traffic (Suc k) s1 = Some (Inr s1')" using Suc.IH Suc.prems(2) by blast
  with s1 show ?case by (simp add: wait_for_peers_step [OF assms])
qed

lemma gets_peers_ends:
  "orders_ok env \<Longrightarrow> gets_peers env n traffic k s \<Longrightarrow> \<exists>s1. wait_for_peers env n traffic 0 s = Some (Inr s1)"
  using wait_for_peers_ends [of env s traffic 0 k] by (auto simp: gets_peers_def)

section \<open>All nodes\<close>

text \<open>A hub of a mesh of \<open>n\<close> nodes: it has the others as peers, and the genesis block of the configuration.\<close>

definition meshed :: "('sk, 'n, 'st) hub_env \<Rightarrow> Config \<Rightarrow> nat \<Rightarrow> ('n, 'st) hub \<Rightarrow> bool" where
  "meshed env cfg n s \<longleftrightarrow> hub_inv env s \<and> hub_config s = cfg \<and> fcard (fmdom (peers s)) = n - 1 \<and>
     (\<exists>g. create_genesis_block env cfg = Some g \<and> genesis_id s = block_id env g)"

lemma hub_start_genesis:
  "hub_start env cfg s \<Longrightarrow> hub_config s = cfg \<and> (\<exists>g. create_genesis_block env cfg = Some g \<and> genesis_id s = block_id env g)"
  by (auto simp: hub_start_def hub_new_def Let_def create_genesis_block_def)

lemma start_nodes_result:
  "start_nodes env cfg seeds = Some (Inr nodes) \<Longrightarrow> list_all (\<lambda>(rt, key). runtime_ok rt) seeds \<Longrightarrow>
     length nodes = length seeds \<and> list_all (\<lambda>node. hub_start env cfg (hub_actor node) \<and>
       sub_alpn (subscriber_task node) = alpn cfg) nodes"
proof (induction env cfg seeds arbitrary: nodes rule: start_nodes.induct)
  case (2 env cfg rt key later)
  obtain node where node: "run_with_local_discovery rt env cfg key = Some (Inr node)"
    using "2.prems"(1) by (cases "run_with_local_discovery rt env cfg key") (auto split: sum.splits)
  obtain rest where rest: "start_nodes env cfg later = Some (Inr rest)" "nodes = node # rest"
    using "2.prems"(1) node by (auto simp: map_sum_Inr)
  have "runtime_ok rt" using "2.prems"(2) by simp
  note run_starts_hub [OF this disjI2 [OF node]]
  with "2.IH" [OF node refl rest(1)] "2.prems"(2) rest(2) show ?case by simp
qed simp

lemma start_nodes_error:
  "start_nodes env cfg seeds = Some (Inl e) \<Longrightarrow> \<exists>d. e = NodeNotStarted d"
proof (induction env cfg seeds arbitrary: e rule: start_nodes.induct)
  case (2 env cfg rt key later)
  obtain q where q: "run_with_local_discovery rt env cfg key = Some q"
    using "2.prems" by (cases "run_with_local_discovery rt env cfg key") auto
  show ?case
  proof (cases q)
    case (Inr node)
    then obtain rest where "start_nodes env cfg later = Some rest" "map_sum id (Cons node) rest = Inl e"
      using "2.prems" q by auto
    then show ?thesis using "2.IH" [OF q Inr, of e] by (cases rest) auto
  qed (use "2.prems" q in auto)
qed simp

lemma wait_for_all_result:
  assumes env: "env_ok env" "signatures_verify env"
    and ok: "\<forall>i k. list_all (\<lambda>(now, m). message_ok env m) (traffic i k)"
  shows "wait_for_all env n traffic i nodes = Some r \<Longrightarrow> list_all (\<lambda>node. hub_start env cfg (hub_actor node)) nodes \<Longrightarrow>
    r = Inl QueryFailed \<or> (\<exists>nodes'. r = Inr nodes' \<and> length nodes' = length nodes \<and>
      list_all (\<lambda>node. meshed env cfg n (hub_actor node)) nodes')"
proof (induction nodes arbitrary: i r)
  case (Cons node nodes)
  obtain q where q: "wait_for_peers env n (traffic i) 0 (hub_actor node) = Some q"
    using Cons.prems(1) by (cases "wait_for_peers env n (traffic i) 0 (hub_actor node)") auto
  have start: "hub_start env cfg (hub_actor node)" using Cons.prems(2) by simp
  then have "hub_inv env (hub_actor node)" using hub_new_inv env by (auto simp: hub_start_def)
  moreover have "\<forall>k. list_all (\<lambda>(now, m). message_ok env m) (traffic i k)" using ok by blast
  ultimately have w: "waited env n (hub_actor node) q" using wait_for_peers_result [OF env(1) _ q] by blast
  show ?case
  proof (cases q)
    case (Inl e)
    then show ?thesis using Cons.prems(1) q w by (simp add: waited_def)
  next
    case (Inr s')
    obtain rest where rest: "wait_for_all env n traffic (Suc i) nodes = Some rest"
      and r: "r = map_sum id (Cons (node\<lparr>hub_actor := s'\<rparr>)) rest"
      using Cons.prems(1) q Inr by auto
    have "meshed env cfg n s'"
      using w Inr hub_start_genesis [OF start] by (simp add: waited_def meshed_def keeps_def same_identity_def)
    then show ?thesis using Cons.IH [OF rest] Cons.prems(2) r by auto
  qed
qed simp

lemma fully_connected_result:
  assumes env: "env_ok env" "signatures_verify env"
    and ok: "\<forall>i k. list_all (\<lambda>(now, m). message_ok env m) (traffic i k)" "list_all (\<lambda>(rt, key). runtime_ok rt) seeds"
    and call: "fully_connected env cfg seeds traffic = Some r"
  shows "(case r of
     Inl (NodeNotStarted e) \<Rightarrow> start_nodes env cfg seeds = Some r
   | Inl QueryFailed \<Rightarrow> True
   | Inr nodes \<Rightarrow> length nodes = length seeds \<and> length seeds \<le> Suc PEER_SIZE_LIMIT \<and>
      list_all (\<lambda>node. meshed env cfg (length seeds) (hub_actor node)) nodes)"
proof -
  obtain q where q: "start_nodes env cfg seeds = Some q"
    using call by (cases "start_nodes env cfg seeds") (auto simp: fully_connected_def)
  show ?thesis
  proof (cases q)
    case (Inl e)
    then show ?thesis using call q start_nodes_error [OF q [unfolded Inl]]
      by (auto simp: fully_connected_def)
  next
    case (Inr nodes)
    then have w: "wait_for_all env (length seeds) traffic 0 nodes = Some r" using call q by (simp add: fully_connected_def)
    note started = start_nodes_result [OF q [unfolded Inr] ok(2)]
    then have "list_all (\<lambda>node. hub_start env cfg (hub_actor node)) nodes" by (auto simp: list.pred_mono_strong)
    from wait_for_all_result [OF env ok(1) w this] consider "r = Inl QueryFailed"
      | nodes' where "r = Inr nodes'" "length nodes' = length seeds"
        "list_all (\<lambda>node. meshed env cfg (length seeds) (hub_actor node)) nodes'"
      using started by auto
    then show ?thesis
    proof cases
      case (2 nodes')
      have "length seeds \<le> Suc PEER_SIZE_LIMIT"
      proof (cases nodes')
        case (Cons node rest)
        then have "meshed env cfg (length seeds) (hub_actor node)" using 2 by simp
        then have "length seeds - 1 \<le> PEER_SIZE_LIMIT" by (simp add: meshed_def hub_inv_def)
        then show ?thesis by linarith
      qed (use 2 in simp)
      with 2 show ?thesis by simp
    qed simp
  qed
qed

text \<open>It returns the nodes if all start, no actor stops and each gets its peers.\<close>

lemma wait_for_all_ends:
  assumes "orders_ok env"
  shows "\<forall>j < length nodes. \<exists>k. gets_peers env n (traffic (i + j)) k (hub_actor (nodes ! j)) \<Longrightarrow>
    \<exists>nodes'. wait_for_all env n traffic i nodes = Some (Inr nodes')"
proof (induction nodes arbitrary: i)
  case (Cons node nodes)
  obtain k where "gets_peers env n (traffic i) k (hub_actor node)" using Cons.prems by fastforce
  from gets_peers_ends [OF assms this] obtain s1 where
    "wait_for_peers env n (traffic i) 0 (hub_actor node) = Some (Inr s1)" by blast
  moreover have "\<forall>j < length nodes. \<exists>k. gets_peers env n (traffic (Suc i + j)) k (hub_actor (nodes ! j))"
    using Cons.prems by fastforce
  then obtain nodes' where "wait_for_all env n traffic (Suc i) nodes = Some (Inr nodes')" using Cons.IH by blast
  ultimately show ?case by simp
qed simp

lemma fully_connected_ends:
  assumes "orders_ok env" "start_nodes env cfg seeds = Some (Inr nodes)"
    and "\<forall>i < length nodes. \<exists>k. gets_peers env (length seeds) (traffic i) k (hub_actor (nodes ! i))"
  shows "\<exists>nodes'. fully_connected env cfg seeds traffic = Some (Inr nodes')"
  using wait_for_all_ends [OF assms(1), of nodes "length seeds" traffic 0] assms(2,3)
  by (simp add: fully_connected_def)

end
