(* ===== verification/Test_Runs.thy ===== *)
theory Test_Runs
  imports Full_Mesh Chain_Service
begin

text \<open>
  The tests of \<open>src/src/lib.rs\<close> over two connected nodes: they send transactions, or blocks, to the first node and
  ask the second one for them until it has them. What the second node handles meanwhile is an argument:
  \<open>later k\<close> before query \<open>k\<close>. A test ends with the messages it sent; \<open>None\<close> is a failed \<open>unwrap\<close> or
  assertion, or a wait without end (which the timeout of the code turns into a failure).
\<close>

section \<open>Asking until there is an answer\<close>

partial_function (option) poll_until ::
    "('sk, 'n::linorder, 'st) hub_env \<Rightarrow> ('n, 'st) polled \<Rightarrow>
     (nat \<Rightarrow> ('n, 'st) hub \<Rightarrow> ((call_error + 'a option) \<times> ('n, 'st) hub) option) \<Rightarrow> nat \<Rightarrow> ('n, 'st) hub \<Rightarrow>
     ('a \<times> nat \<times> ('n, 'st) hub) option" where
  "poll_until env later query k s = do {
     (stopped, s1) \<leftarrow> serve env s (later k);
     (if stopped \<noteq> None then None
      else do {
        (r, s2) \<leftarrow> query k s1;
        (case r of
           Inl _ \<Rightarrow> None
         | Inr None \<Rightarrow> poll_until env later query (Suc k) s2
         | Inr (Some x) \<Rightarrow> Some (x, Suc k, s2)) }) }"

declare poll_until.simps [code]

definition poll_transaction ::
    "('sk, 'n::linorder, 'st) hub_env \<Rightarrow> ('n, 'st) polled \<Rightarrow> TransactionId \<Rightarrow> nat \<Rightarrow> ('n, 'st) hub \<Rightarrow>
     (Transaction \<times> nat \<times> ('n, 'st) hub) option" where
  "poll_transaction env later t = poll_until env later (\<lambda>_ s. helper_get_transaction env 0 s t)"

definition poll_block ::
    "('sk, 'n::linorder, 'st) hub_env \<Rightarrow> ('n, 'st) polled \<Rightarrow> BlockId \<Rightarrow> nat \<Rightarrow> ('n, 'st) hub \<Rightarrow>
     (Block \<times> nat \<times> ('n, 'st) hub) option" where
  "poll_block env later i = poll_until env later (\<lambda>_ s. helper_get_block env 0 s i)"

text \<open>The leading block is asked for in two queries; the hub handles \<open>between k\<close> between them.\<close>

definition poll_leader ::
    "('sk, 'n::linorder, 'st) hub_env \<Rightarrow> ('n, 'st) polled \<Rightarrow> ('n, 'st) polled \<Rightarrow> (Block \<Rightarrow> bool) \<Rightarrow> nat \<Rightarrow> ('n, 'st) hub \<Rightarrow>
     (Block \<times> nat \<times> ('n, 'st) hub) option" where
  "poll_leader env later between good = poll_until env later (\<lambda>k s.
     map_option (map_prod (map_sum id (\<lambda>b. if good b then Some b else None)) id) (helper_leading_block env 0 0 (between k) s))"

section \<open>The tests\<close>

text \<open>What a random transaction draws: a key, an amount and two identifiers.\<close>

type_synonym 'sk txn_seed = "'sk \<times> u64 \<times> Uuid \<times> Uuid"

definition drawn_transaction :: "('sk, 'z) crypto_scheme \<Rightarrow> 'sk txn_seed \<Rightarrow> Transaction option" where
  "drawn_transaction c = (\<lambda>(sk, a, u1, u2). create_transaction c sk a u1 u2)"

text \<open>\<open>runs\<close> tells whether the first node still runs when the messages are sent to it.\<close>

definition propagate_transactions ::
    "('sk, 'n::linorder, 'st) hub_env \<Rightarrow> Config \<Rightarrow>
     (('key, 'svc, 'disc, 'ep, 'items, 'n, 'st, 'h, 'z) runtime_scheme \<times> 'key) list \<Rightarrow> (nat \<Rightarrow> ('n, 'st) polled) \<Rightarrow>
     'sk txn_seed \<Rightarrow> 'sk txn_seed \<Rightarrow> bool \<Rightarrow> ('n, 'st) polled \<Rightarrow> ('n, 'st) PeerHubActorMessage list option" where
  "propagate_transactions env config seeds traffic seed1 seed2 runs later = do {
     nodes \<leftarrow> unwrap (fully_connected env config (take 2 seeds) traffic);
     txn1 \<leftarrow> drawn_transaction env seed1;
     txn2 \<leftarrow> drawn_transaction env seed2;
     (if \<not> runs then None
      else do {
        (recv_txn1, k, s) \<leftarrow> poll_transaction env later (txn_id env txn1) 0 (hub_actor (nodes ! 1));
        (if recv_txn1 \<noteq> txn1 then None
         else do {
           (recv_txn2, _, _) \<leftarrow> poll_transaction env later (txn_id env txn2) k s;
           (if recv_txn2 \<noteq> txn2 then None else Some [NewTransaction txn1, NewTransaction txn2]) }) }) }"

text \<open>The loop over the blocks that were sent.\<close>

fun check_blocks ::
    "('sk, 'n::linorder, 'st) hub_env \<Rightarrow> ('n, 'st) polled \<Rightarrow> Block list \<Rightarrow> nat \<Rightarrow> ('n, 'st) hub \<Rightarrow> ('n, 'st) hub option" where
  "check_blocks env later [] k s = Some s"
| "check_blocks env later (block # blocks) k s = do {
     (recv_block, k1, s1) \<leftarrow> poll_block env later (block_id env block) k s;
     (if recv_block \<noteq> block then None else check_blocks env later blocks k1 s1) }"

definition propagate_blocks ::
    "('sk, 'n::linorder, 'st) hub_env \<Rightarrow> Config \<Rightarrow> 'sk seed list \<Rightarrow>
     (('key, 'svc, 'disc, 'ep, 'items, 'n, 'st, 'h, 'z) runtime_scheme \<times> 'key) list \<Rightarrow> (nat \<Rightarrow> ('n, 'st) polled) \<Rightarrow>
     bool \<Rightarrow> ('n, 'st) polled \<Rightarrow> ('n, 'st) PeerHubActorMessage list option" where
  "propagate_blocks env config block_seeds seeds traffic runs later = do {
     blocks \<leftarrow> create_empty_chain env config
       (take (unat (difficulty_adjustment_period INCOMPLETE_TESTING_CONFIG) + 2) block_seeds);
     nodes \<leftarrow> unwrap (fully_connected env config (take 2 seeds) traffic);
     (if \<not> runs then None
      else do {
        _ \<leftarrow> check_blocks env later blocks 0 (hub_actor (nodes ! 1));
        Some (map (NewBlock None) blocks) }) }"

text \<open>The test of forks: the last query is made once a block of the right height leads.\<close>

definition forks_test ::
    "('sk, 'n::linorder, 'st) hub_env \<Rightarrow> Config \<Rightarrow> 'sk seed list \<Rightarrow> 'sk seed list \<Rightarrow> 'sk seed list \<Rightarrow>
     (('key, 'svc, 'disc, 'ep, 'items, 'n, 'st, 'h, 'z) runtime_scheme \<times> 'key) list \<Rightarrow> (nat \<Rightarrow> ('n, 'st) polled) \<Rightarrow>
     bool \<Rightarrow> ('n, 'st) polled \<Rightarrow> ('n, 'st) polled \<Rightarrow> ('n, 'st) PeerHubActorMessage list option" where
  "forks_test env config old_seeds seeds1 seeds2 seeds traffic runs later between = do {
     (old_chain, fork1, fork2) \<leftarrow> chains_with_forks env config
       (take (unat (difficulty_adjustment_period INCOMPLETE_TESTING_CONFIG) + 2) old_seeds) (take 6 seeds1) (take 5 seeds2);
     (if fork1 = [] then None
      else do {
        let correct_seqno = seqno (last fork1);
        let correct_leading_block = block_id env (last fork1);
        nodes \<leftarrow> unwrap (fully_connected env config (take 2 seeds) traffic);
        (if \<not> runs then None
         else do {
           (_, k, s) \<leftarrow> poll_leader env later between (\<lambda>b. \<not> seqno b < correct_seqno) 0 (hub_actor (nodes ! 1));
           (stopped, s1) \<leftarrow> serve env s (later k);
           (if stopped \<noteq> None then None
            else do {
              (r, _) \<leftarrow> helper_leading_block env 0 0 (between k) s1;
              (case r of
                 Inl _ \<Rightarrow> None
               | Inr b \<Rightarrow> if block_id env b \<noteq> correct_leading_block then None
                          else Some (map (NewBlock None) (old_chain @ fork1 @ fork2))) }) }) }) }"

section \<open>A query is answered as soon as it can be\<close>

lemma poll_until_step:
  assumes "handle_all env s (later k) = Some s1" "query k s1 = Some (Inr a, s2)"
  shows "poll_until env later query k s = (case a of None \<Rightarrow> poll_until env later query (Suc k) s2 | Some x \<Rightarrow> Some (x, Suc k, s2))"
  using assms by (subst poll_until.simps) (simp add: serve_ends [symmetric])

text \<open>For a query that only reads: if one of the next answers is positive, then the first of these is returned.\<close>

lemma poll_until_ends:
  assumes reads: "\<And>k s. query k s = Some (Inr (f s), s)"
  shows "handle_all env s (concat (map later [k..<Suc (k + i)])) = Some s' \<Longrightarrow> f s' \<noteq> None \<Longrightarrow>
    \<exists>j s1 x. k < j \<and> j \<le> Suc (k + i) \<and> handle_all env s (concat (map later [k..<j])) = Some s1 \<and> f s1 = Some x \<and>
      poll_until env later query k s = Some (x, j, s1)"
proof (induction i arbitrary: k s)
  case 0
  then have h: "handle_all env s (later k) = Some s'" by simp
  obtain x where x: "f s' = Some x" using 0(2) by blast
  have "poll_until env later query k s = Some (x, Suc k, s')"
    using poll_until_step [of env s later k s' query, OF h reads] x by simp
  with h x show ?case by (intro exI [of _ "Suc k"] exI [of _ s'] exI [of _ x]) simp
next
  case (Suc i)
  have "[k..<Suc (k + Suc i)] = k # [Suc k..<Suc (Suc k + i)]" by (simp add: upt_conv_Cons)
  then obtain s1 where s1: "handle_all env s (later k) = Some s1"
    "handle_all env s1 (concat (map later [Suc k..<Suc (Suc k + i)])) = Some s'"
    using Suc.prems(1) by (auto simp: handle_all_append bind_eq_Some_conv simp del: upt_Suc)
  note here = poll_until_step [of env s later k s1 query, OF s1(1) reads]
  show ?case
  proof (cases "f s1")
    case (Some x)
    with here s1(1) show ?thesis by (intro exI [of _ "Suc k"] exI [of _ s1] exI [of _ x]) simp
  next
    case None
    from Suc.IH [OF s1(2) Suc.prems(2)] obtain j s2 x where j: "Suc k < j" "j \<le> Suc (Suc k + i)"
      "handle_all env s1 (concat (map later [Suc k..<j])) = Some s2" "f s2 = Some x"
      "poll_until env later query (Suc k) s1 = Some (x, j, s2)" by blast
    have "[k..<j] = k # [Suc k..<j]" using j(1) by (simp add: upt_conv_Cons)
    then have "handle_all env s (concat (map later [k..<j])) = Some s2"
      using s1(1) j(3) by (simp add: handle_all_append)
    with j here None show ?thesis by (intro exI [of _ j] exI [of _ s2] exI [of _ x]) simp
  qed
qed

lemma poll_transaction_ends:
  assumes "handle_all env s (concat (map later [k..<Suc (k + i)])) = Some s'" "fmlookup (mempool s') t \<noteq> None"
  shows "\<exists>j s1 x. k < j \<and> j \<le> Suc (k + i) \<and> handle_all env s (concat (map later [k..<j])) = Some s1 \<and>
    fmlookup (mempool s1) t = Some x \<and> poll_transaction env later t k s = Some (x, j, s1)"
  unfolding poll_transaction_def
  by (rule poll_until_ends [where f = "\<lambda>s. fmlookup (mempool s) t", OF _ assms(1)])
     (simp_all add: assms(2) helper_get_transaction_def call_def send_reply_def)

lemma poll_block_ends:
  assumes "handle_all env s (concat (map later [k..<Suc (k + i)])) = Some s'" "fmlookup (valid_blocks s') t \<noteq> None"
  shows "\<exists>j s1 x. k < j \<and> j \<le> Suc (k + i) \<and> handle_all env s (concat (map later [k..<j])) = Some s1 \<and>
    fmlookup (valid_blocks s1) t = Some x \<and> poll_block env later t k s = Some (x, j, s1)"
  unfolding poll_block_def
  by (rule poll_until_ends [where f = "\<lambda>s. fmlookup (valid_blocks s) t", OF _ assms(1)])
     (simp_all add: assms(2) helper_get_block_def call_def send_reply_def)

text \<open>The test of transactions passes if from some query on the second node has both, and it never has another
  transaction with one of the two identifiers.\<close>

lemma propagate_transactions_passes:
  assumes mesh: "fully_connected env config (take 2 seeds) traffic = Some (Inr nodes)"
    and drawn: "drawn_transaction env seed1 = Some t1" "drawn_transaction env seed2 = Some t2"
    and has: "\<And>n. K \<le> n \<Longrightarrow> \<exists>s'. handle_all env (hub_actor (nodes ! 1)) (concat (map later [0..<Suc n])) = Some s' \<and>
      fmlookup (mempool s') (txn_id env t1) = Some t1 \<and> fmlookup (mempool s') (txn_id env t2) = Some t2"
    and only: "\<And>n s' x. handle_all env (hub_actor (nodes ! 1)) (concat (map later [0..<n])) = Some s' \<Longrightarrow>
      (fmlookup (mempool s') (txn_id env t1) = Some x \<longrightarrow> x = t1) \<and> (fmlookup (mempool s') (txn_id env t2) = Some x \<longrightarrow> x = t2)"
  shows "propagate_transactions env config seeds traffic seed1 seed2 True later = Some [NewTransaction t1, NewTransaction t2]"
proof -
  let ?s = "hub_actor (nodes ! 1)"
  obtain s' where s': "handle_all env ?s (concat (map later [0..<Suc (0 + K)])) = Some s'" "fmlookup (mempool s') (txn_id env t1) \<noteq> None"
    using has [of K] by auto
  obtain j s1 where j: "j \<le> Suc K" "handle_all env ?s (concat (map later [0..<j])) = Some s1"
    and poll1: "poll_transaction env later (txn_id env t1) 0 ?s = Some (t1, j, s1)"
    using poll_transaction_ends [OF s'] only by (metis add_0)
  obtain s2 where s2: "handle_all env ?s (concat (map later [0..<Suc (Suc K)])) = Some s2" "fmlookup (mempool s2) (txn_id env t2) \<noteq> None"
    using has [of "Suc K"] by auto
  obtain i where i: "Suc K = j + i" using j(1) le_Suc_ex by blast
  have "[0..<Suc (j + i)] = [0..<j] @ [j..<Suc (j + i)]" using upt_add_eq_append [of 0 j "Suc i"] by simp
  then have "handle_all env s1 (concat (map later [j..<Suc (j + i)])) = Some s2"
    using s2(1) j(2) by (simp add: i handle_all_append del: upt_Suc)
  from poll_transaction_ends [OF this s2(2)] obtain j2 s3 x where poll2: "j < j2"
    "handle_all env s1 (concat (map later [j..<j2])) = Some s3" "fmlookup (mempool s3) (txn_id env t2) = Some x"
    "poll_transaction env later (txn_id env t2) j s1 = Some (x, j2, s3)" by blast
  have "[0..<j2] = [0..<j] @ [j..<j2]" using upt_add_eq_append [of 0 j "j2 - j"] poll2(1) by simp
  then have "handle_all env ?s (concat (map later [0..<j2])) = Some s3" using j(2) poll2(2) by (simp add: handle_all_append)
  then have "x = t2" using only poll2(3) by blast
  with poll1 poll2(4) mesh drawn show ?thesis by (simp add: propagate_transactions_def)
qed

text \<open>The loop over the blocks ends well if from some query on the second node has all of them, and no other
  block with the identifier of one of them.\<close>

lemma check_blocks_passes:
  "\<forall>b \<in> set blocks. \<forall>n \<ge> K. \<exists>s'. handle_all env s0 (concat (map later [0..<Suc n])) = Some s' \<and>
      fmlookup (valid_blocks s') (block_id env b) = Some b \<Longrightarrow>
   \<forall>b \<in> set blocks. \<forall>n s' x. handle_all env s0 (concat (map later [0..<n])) = Some s' \<longrightarrow>
      fmlookup (valid_blocks s') (block_id env b) = Some x \<longrightarrow> x = b \<Longrightarrow>
   handle_all env s0 (concat (map later [0..<k])) = Some s \<Longrightarrow>
   \<exists>s'. check_blocks env later blocks k s = Some s'"
proof (induction blocks arbitrary: k s)
  case (Cons b blocks)
  obtain s' where s': "handle_all env s0 (concat (map later [0..<Suc (k + K)])) = Some s'" "fmlookup (valid_blocks s') (block_id env b) = Some b"
    using Cons.prems(1) [rule_format, of b "k + K"] by (auto simp del: upt_Suc)
  have "[0..<Suc (k + K)] = [0..<k] @ [k..<Suc (k + K)]" using upt_add_eq_append [of 0 k "Suc K"] by simp
  then have "handle_all env s (concat (map later [k..<Suc (k + K)])) = Some s'"
    using s'(1) Cons.prems(3) by (simp add: handle_all_append del: upt_Suc)
  from poll_block_ends [OF this, of "block_id env b"] s'(2) obtain j s1 x where poll: "k < j"
    "handle_all env s (concat (map later [k..<j])) = Some s1" "fmlookup (valid_blocks s1) (block_id env b) = Some x"
    "poll_block env later (block_id env b) k s = Some (x, j, s1)" by auto
  have "[0..<j] = [0..<k] @ [k..<j]" using upt_add_eq_append [of 0 k "j - k"] poll(1) by simp
  then have run: "handle_all env s0 (concat (map later [0..<j])) = Some s1" using Cons.prems(3) poll(2) by (simp add: handle_all_append)
  then have "x = b" using Cons.prems(2) poll(3) by simp
  with poll(4) Cons.IH [OF _ _ run] Cons.prems(1,2) show ?case by simp
qed simp

end
