(* ===== verification/Outgoing.thy ===== *)
theory Outgoing
  imports Network
begin

text \<open>
  What a handled message makes a hub say: which messages it writes for which peer (\<open>outgoing\<close>), and that the
  bytes it appends to the streams are the frames of these, on streams that do not fail.
\<close>

section \<open>What a hub knows of blocks\<close>

definition known :: "('n, 'st) hub \<Rightarrow> BlockId set" where
  "known s = fset (fmdom (valid_blocks s)) \<union> fset (fmdom (unconfirmed_blocks s)) \<union> fset (invalid_blocks s)"

lemma knows_block_known: "knows_block s i \<longleftrightarrow> i \<in> known s"
  by (simp add: knows_block_def known_def)

lemma known_other [simp]:
  "known (s\<lparr>peers := m\<rparr>) = known s" "known (s\<lparr>annoucements := a\<rparr>) = known s" "known (s\<lparr>mempool := q\<rparr>) = known s"
  "known (with_cash S s) = known s"
  by (simp_all add: known_def)

lemma reject_known:
  assumes "orders_ok env"
  shows "insert i (known s) \<subseteq> known (reject env s i)"
  using spreads_super [OF reject_spreads [OF assms, of s i]] by (auto simp: known_def)

lemma put_aside_known: "insert (block_id env b) (known s) \<subseteq> known (put_aside env s b)"
  by (auto simp: known_def put_aside_def)

lemma take_known: "known s \<subseteq> insert i (known (take_unconfirmed i s))"
  by (auto simp: known_def)

lemma enter_block_known:
  assumes "enter_block env s b = Some (w, s')"
  shows "insert (block_id env b) (known s) \<subseteq> known s'"
proof -
  let ?s = "s\<lparr>mempool := fmfilter (\<lambda>t. \<not> list_ex (\<lambda>x. txn_id env x = t) (transactions b)) (mempool s),
                valid_blocks := fmupd (block_id env b) b (valid_blocks s)\<rparr>"
  obtain lead where "leading_block_seqno ?s = Some lead"
    using assms by (cases "leading_block_seqno ?s") (simp_all add: enter_block_def Let_def)
  then have "valid_blocks s' = fmupd (block_id env b) b (valid_blocks s) \<and> invalid_blocks s' = invalid_blocks s"
    using assms by (cases "lead < seqno b") (auto simp: enter_block_def Let_def)
  then show ?thesis using enter_block_unconfirmed [OF assms] by (auto simp: known_def)
qed

lemma vstep_known:
  assumes "orders_ok env" "vstep env c ids c'" "pool_inv env (fst c) (snd c)"
  shows "known (snd c) \<subseteq> known (snd c')"
  using assms(2)
proof (cases rule: vstep.cases)
  case (refuse i P s b s1)
  obtain S where s1: "s1 = reject env (with_cash S (take_unconfirmed i s)) (block_id env b)"
    using check_block_cases [OF refuse(6)] by auto
  have "block_id env b = i" using assms(3) refuse(1,5) pools_unconf by (fastforce simp: pool_inv_def)
  then have "insert i (known (take_unconfirmed i s)) \<subseteq> known s1"
    using reject_known [OF assms(1), of i "with_cash S (take_unconfirmed i s)"] s1 by simp
  then show ?thesis using refuse(1,3) take_known [of s i] by auto
next
  case (accept i P s b s1 w s2)
  have i: "block_id env b = i" using assms(3) accept(1,5) pools_unconf by (fastforce simp: pool_inv_def)
  obtain S where "s1 = with_cash S (take_unconfirmed i s)" using accepts_with_cash [OF accept(6)] by blast
  then have "insert i (known (take_unconfirmed i s)) \<subseteq> known s2" using enter_block_known [OF accept(7)] i by simp
  then show ?thesis using accept(1,3) take_known [of s i] by auto
qed

lemma vsteps_known:
  assumes "orders_ok env" "no_zero_id env" "vsteps env c ids c'" "pool_inv env (fst c) (snd c)"
  shows "known (snd c) \<subseteq> known (snd c')"
proof -
  have "pool_inv env (fst c') (snd c') \<and> known (snd c) \<subseteq> known (snd c')"
    using vsteps_invariant [OF assms(3), of "\<lambda>d. pool_inv env (fst d) (snd d) \<and> known (snd c) \<subseteq> known (snd d)"]
      assms(4) vstep_pool_inv [OF assms(1,2)] vstep_known [OF assms(1)] by (meson order_refl subset_trans)
  then show ?thesis by blast
qed

lemma validate_block_known:
  assumes "orders_ok env" "no_zero_id env" "pool_inv env {} s" "fresh_block env s b"
    and "validate_block env s b = Some (ids, s')"
  shows "insert (block_id env b) (known s) \<subseteq> known s'"
  using assms
proof (cases rule: validate_block_outcome)
  case ambiguous
  then show ?thesis using put_aside_known by blast
next
  case (rejected S)
  then show ?thesis using reject_known [OF assms(1), of "block_id env b" "with_cash S s"] by simp
next
  case (accepted s1 w s2 more)
  have "known s1 = known s" using accepts_with_cash [OF accepted(1)] by auto
  then show ?thesis
    using enter_block_known [OF accepted(2)] vsteps_known [OF assms(1,2) accepted(5)] accepted(4) by auto
qed

section \<open>The messages a hub writes\<close>

type_synonym 'n letters = "'n \<Rightarrow> 'n PeerMessage list"

definition silent :: "'n letters" where "silent = (\<lambda>_. [])"

definition to_peer :: "'n \<Rightarrow> 'n PeerMessage \<Rightarrow> 'n letters" where
  "to_peer n pm = (\<lambda>k. if k = n then [pm] else [])"

definition to_all :: "('n, 'st) hub \<Rightarrow> 'n PeerMessage list \<Rightarrow> 'n letters" where
  "to_all s pms = (\<lambda>k. if k |\<in>| fmdom (peers s) \<and> k \<noteq> local_node_id s then pms else [])"

text \<open>A new block is announced with all it made valid; if its parent is missing, that is requested.\<close>

definition block_letters ::
    "('sk, 'n, 'st) hub_env \<Rightarrow> Timestamp \<Rightarrow> ('n, 'st) hub \<Rightarrow> 'n option \<Rightarrow> Block \<Rightarrow> 'n letters" where
  "block_letters env now s node b =
     (if knows_block s (block_id env b) \<or> now < timestamp b then silent
      else case validate_block env s b of
        None \<Rightarrow> silent
      | Some (ids, s1) \<Rightarrow>
          if ids \<noteq> [] then to_all s (map (\<lambda>i. Broadcast (BroadcastBlock i)) ids)
          else case node of
            Some n \<Rightarrow> if block_id env b |\<in>| fmdom (unconfirmed_blocks s1) then to_peer n (GetBlockRequest (prev_id b)) else silent
          | None \<Rightarrow> silent)"

fun outgoing ::
    "('sk, 'n, 'st) hub_env \<Rightarrow> Timestamp \<Rightarrow> ('n, 'st) hub \<Rightarrow> ('n, 'st) PeerHubActorMessage \<Rightarrow> 'n letters" where
  "outgoing env now s (AnnounceTransaction n t) =
     (if knows_transaction s t then silent else to_peer n (GetTransactionRequest t))"
| "outgoing env now s (NewTransaction x) =
     (if txn_id env x |\<in>| fmdom (mempool s) then silent
      else to_all s [Broadcast (BroadcastTransaction (txn_id env x))])"
| "outgoing env now s (GetTransaction n t) =
     (case fmlookup (mempool s) t of None \<Rightarrow> silent | Some x \<Rightarrow> to_peer n (GetTransactionResponse x))"
| "outgoing env now s (AnnounceBlock n i) =
     (if knows_block s i then silent else to_peer n (GetBlockRequest i))"
| "outgoing env now s (GetBlock n i) =
     (case fmlookup (valid_blocks s) i of
        None \<Rightarrow> silent | Some b \<Rightarrow> to_peer n (GetBlockResponse (local_node_id s) b))"
| "outgoing env now s (NewBlock node b) = block_letters env now s node b"
| "outgoing env now s _ = silent"

section \<open>They are what it writes\<close>

definition wire_bytes :: "('sk, 'n, 'st) hub_env \<Rightarrow> 'n PeerMessage list \<Rightarrow> u8 list" where
  "wire_bytes env pms = concat (map (\<lambda>pm. frame_bytes (the (enc_message env pm))) pms)"

text \<open>The streams of \<open>s\<close> have grown by the letters.\<close>

definition wrote :: "('sk, 'n, u8 list) hub_env \<Rightarrow> ('n, u8 list) hub \<Rightarrow> 'n letters \<Rightarrow> ('n, u8 list) hub \<Rightarrow> bool" where
  "wrote env s letters s' \<longleftrightarrow> (\<forall>k. case fmlookup (peers s) k of
     None \<Rightarrow> fmlookup (peers s') k = None \<and> letters k = []
   | Some st \<Rightarrow> fmlookup (peers s') k = Some (st @ wire_bytes env (letters k)) \<and>
       (\<forall>pm \<in> set (letters k). enc_message env pm \<noteq> None))"

lemma wire_bytes_simps [simp]:
  "wire_bytes env [] = []" "wire_bytes env (pms @ pms') = wire_bytes env pms @ wire_bytes env pms'"
  "wire_bytes env (pm # pms) = frame_bytes (the (enc_message env pm)) @ wire_bytes env pms"
  by (simp_all add: wire_bytes_def)

lemma wrote_at:
  assumes "wrote env s letters s'"
  shows "fmlookup (peers s) k = Some st \<Longrightarrow> fmlookup (peers s') k = Some (st @ wire_bytes env (letters k))"
    "fmlookup (peers s) k = None \<Longrightarrow> fmlookup (peers s') k = None"
  using assms [unfolded wrote_def, rule_format, of k] by simp_all

lemma wrote_silent: "peers s' = peers s \<Longrightarrow> wrote env s silent s'"
  by (simp add: wrote_def silent_def split: option.split)

lemma wrote_append:
  assumes "wrote env s l s1" "wrote env s1 l' s2"
  shows "wrote env s (\<lambda>k. l k @ l' k) s2"
  unfolding wrote_def
proof
  fix k
  have "case fmlookup (peers s) k of None \<Rightarrow> fmlookup (peers s1) k = None \<and> l k = []
    | Some st \<Rightarrow> fmlookup (peers s1) k = Some (st @ wire_bytes env (l k)) \<and> (\<forall>pm \<in> set (l k). enc_message env pm \<noteq> None)"
    "case fmlookup (peers s1) k of None \<Rightarrow> fmlookup (peers s2) k = None \<and> l' k = []
    | Some st \<Rightarrow> fmlookup (peers s2) k = Some (st @ wire_bytes env (l' k)) \<and> (\<forall>pm \<in> set (l' k). enc_message env pm \<noteq> None)"
    using assms by (simp_all add: wrote_def)
  then show "case fmlookup (peers s) k of None \<Rightarrow> fmlookup (peers s2) k = None \<and> l k @ l' k = []
    | Some st \<Rightarrow> fmlookup (peers s2) k = Some (st @ wire_bytes env (l k @ l' k)) \<and>
       (\<forall>pm \<in> set (l k @ l' k). enc_message env pm \<noteq> None)"
    by (cases "fmlookup (peers s) k") auto
qed

lemma wrote_same:
  "peers s = peers s0 \<Longrightarrow> peers s' = peers s0' \<Longrightarrow> wrote env s l s' \<longleftrightarrow> wrote env s0 l s0'"
  by (simp add: wrote_def cong: option.case_cong)

lemma no_reply_Inr: "no_reply p = Some (Inr r, s') \<Longrightarrow> p = (Inr (), s')"
  by (cases p; cases "fst p") (simp_all add: no_reply_def)

lemma send_wrote:
  assumes "reliable env" "send_to_peer env s pm n = (Inr (), s')"
  shows "wrote env s (to_peer n pm) s'"
  using assms(2)
  by (auto simp: send_to_peer_def reliable_write [OF assms(1)] wrote_def to_peer_def split: option.splits)

lemma broadcast_wrote:
  assumes rel: "reliable env" and call: "broadcast env s (local_node_id s) msg = (Inr (), s')"
  shows "wrote env s (to_all s [Broadcast msg]) s'"
proof -
  obtain buf where buf: "enc_message env (Broadcast msg) = Some buf"
    using call by (cases "enc_message env (Broadcast msg)") (auto simp: broadcast_def)
  have orders: "orders_ok env" using rel by (simp add: reliable_def)
  obtain m' where "s' = s\<lparr>peers := m'\<rparr>" and look: "\<And>k. fmlookup m' k = (if k = local_node_id s then fmlookup (peers s) k
       else map_option (\<lambda>st. fst (write_frame env st buf)) (fmlookup (peers s) k))"
    using broadcast_ok [OF orders reliable_writes_ok [OF rel] buf, of s "local_node_id s"] call by auto
  then show ?thesis
    using buf by (auto simp: wrote_def to_all_def reliable_write [OF rel] fmdomI split: option.split)
qed

lemma to_all_append: "to_all s (pms @ pms') = (\<lambda>k. to_all s pms k @ to_all s pms' k)"
  and to_all_Nil: "to_all s [] = silent"
  by (auto simp: to_all_def silent_def)

lemma to_all_same: "same_but_streams s s' \<Longrightarrow> to_all s' pms = to_all s pms"
  by (auto simp: to_all_def same_but_streams_def)

lemma announce_wrote:
  assumes rel: "reliable env"
  shows "announce_blocks env s ids = (Inr (), s') \<Longrightarrow>
    wrote env s (to_all s (map (\<lambda>i. Broadcast (BroadcastBlock i)) ids)) s'"
proof (induction ids arbitrary: s)
  case Nil
  then show ?case by (simp add: to_all_Nil wrote_silent)
next
  case (Cons i ids)
  obtain r s1 where b: "broadcast env s (local_node_id s) (BroadcastBlock i) = (r, s1)"
    by (cases "broadcast env s (local_node_id s) (BroadcastBlock i)")
  then have r: "r = Inr ()" "announce_blocks env s1 ids = (Inr (), s')"
    using Cons.prems by (cases r; simp)+
  note same = to_all_same [OF broadcast_frame [OF b]]
  have "wrote env s1 (to_all s (map (\<lambda>i. Broadcast (BroadcastBlock i)) ids)) s'"
    using Cons.IH [OF r(2)] same by simp
  from wrote_append [OF broadcast_wrote [OF rel b [unfolded r(1)]] this]
  moreover have "to_all s (map (\<lambda>i. Broadcast (BroadcastBlock i)) (i # ids)) =
      (\<lambda>k. to_all s [Broadcast (BroadcastBlock i)] k @ to_all s (map (\<lambda>i. Broadcast (BroadcastBlock i)) ids) k)"
    by (auto simp: to_all_def)
  ultimately show ?case by (simp only:)
qed

text \<open>A block that is left unconfirmed misses its parent, which is what the hub then asks for.\<close>

lemma left_unconfirmed:
  assumes "env_ok env" "hub_inv env s" "fresh_block env s b" "validate_block env s b = Some ([], s1)"
    and "block_id env b |\<in>| fmdom (unconfirmed_blocks s1)"
  shows "fmlookup (valid_blocks s) (prev_id b) = None" "s1 = put_aside env s b"
proof -
  have "fmlookup (valid_blocks s) (prev_id b) = None \<and> s1 = put_aside env s b"
    using env_ok_dest [OF assms(1)] hub_inv_pools [OF assms(2)] assms(3,4)
  proof (cases rule: validate_block_outcome)
    case (rejected S)
    then show ?thesis using assms(3,5) by (simp add: fresh_block_iff fmlookup_dom_iff)
  qed simp_all
  then show "fmlookup (valid_blocks s) (prev_id b) = None" "s1 = put_aside env s b" by simp_all
qed

lemma after_validation_orphan:
  assumes env: "env_ok env" and inv: "hub_inv env s" "sound_block env b" and b: "fresh_block env s b" "validate_block env s b = Some ([], s1)"
    and left: "block_id env b |\<in>| fmdom (unconfirmed_blocks s1)"
    and call: "after_validation env s1 (Some n) (block_id env b) (prev_id b) [] = Some (r, s')"
  shows "Some (r, s') = no_reply (send_to_peer env s1 (GetBlockRequest (prev_id b)) n)"
proof -
  note missing = left_unconfirmed [OF env inv(1) b left]
  have inv1: "hub_inv env s1" by (rule validate_block_hub_inv [OF env inv(1) b(1) inv(2) b(2)])
  obtain root where root: "block_root s1 (prev_id b) = Some root" "Some (r, s') = no_reply (send_to_peer env s1 (GetBlockRequest root) n)"
    using call left by (auto simp: after_validation_def bind_eq_Some_conv split: if_splits)
  have "fmlookup (valid_blocks s1) (prev_id b) = None" using missing by (simp add: put_aside_def)
  with root block_root_argument [OF inv1 _ root(1)] show ?thesis by simp
qed

lemma new_block_wrote:
  assumes env: "env_ok env" "reliable env" and inv: "hub_inv env s" "sound_block env b"
    and call: "new_block env now s node b = Some (Inr r, s')"
  shows "wrote env s (block_letters env now s node b) s'"
proof (cases "knows_block s (block_id env b) \<or> now < timestamp b")
  case True
  then have "peers s' = peers s" using call by (auto simp: new_block_def split: if_splits)
  then show ?thesis using True by (simp add: block_letters_def wrote_silent)
next
  case False
  then have fresh: "fresh_block env s b" by (simp add: fresh_block_def)
  then have nb: "block_id env b |\<notin>| invalid_blocks s" by (simp add: fresh_block_iff)
  obtain ids s1 where v: "validate_block env s b = Some (ids, s1)"
    and a: "after_validation env s1 node (block_id env b) (prev_id b) ids = Some (Inr r, s')"
    using call False nb by (auto simp: new_block_def)
  note grow = validate_block_grows [OF env_ok_dest [OF env(1)] hub_inv_pools [OF inv(1)] fresh v]
  have same: "peers s1 = peers s" "local_node_id s1 = local_node_id s"
    using grows_same [OF grow] by (simp_all add: same_node_def)
  show ?thesis
  proof (cases "ids = []")
    case False
    have "no_reply (announce_blocks env s1 ids) = Some (Inr r, s')" using a False by (simp add: after_validation_def)
    from no_reply_Inr [OF this] have "announce_blocks env s1 ids = (Inr (), s')" .
    from announce_wrote [OF env(2) this] have "wrote env s1 (to_all s (map (\<lambda>i. Broadcast (BroadcastBlock i)) ids)) s'"
      using same by (simp add: to_all_def)
    moreover have "block_letters env now s node b = to_all s (map (\<lambda>i. Broadcast (BroadcastBlock i)) ids)"
      using \<open>\<not> (knows_block s (block_id env b) \<or> now < timestamp b)\<close> v False by (simp add: block_letters_def)
    ultimately show ?thesis by (simp add: wrote_same [OF same(1) refl])
  next
    case ids: True
    have letters: "block_letters env now s node b = (case node of
        Some n \<Rightarrow> if block_id env b |\<in>| fmdom (unconfirmed_blocks s1) then to_peer n (GetBlockRequest (prev_id b)) else silent
      | None \<Rightarrow> silent)"
      using False v ids by (simp add: block_letters_def)
    show ?thesis
    proof (cases "block_id env b |\<in>| fmdom (unconfirmed_blocks s1) \<and> node \<noteq> None")
      case True
      then obtain n where n: "node = Some n" by blast
      have "no_reply (send_to_peer env s1 (GetBlockRequest (prev_id b)) n) = Some (Inr r, s')"
        using after_validation_orphan [OF env(1) inv fresh v [unfolded ids]] True a n ids by simp
      from no_reply_Inr [OF this] have "send_to_peer env s1 (GetBlockRequest (prev_id b)) n = (Inr (), s')" .
      from send_wrote [OF env(2) this] show ?thesis
        using True n letters by (simp add: wrote_same [OF same(1) refl])
    next
      case False
      then have "s' = s1" using a ids by (auto simp: after_validation_def bind_eq_Some_conv split: if_splits option.splits)
      then show ?thesis using False letters same wrote_silent by (auto split: option.splits)
    qed
  qed
qed

lemma new_transaction_wrote:
  assumes rel: "reliable env" and call: "new_transaction env s x = Some (Inr r, s')"
  shows "wrote env s (outgoing env now s (NewTransaction x)) s'"
proof (cases "txn_id env x |\<in>| fmdom (mempool s)")
  case True
  then have "s' = s" using call by (simp add: new_transaction_known)
  then show ?thesis using True by (simp add: wrote_silent)
next
  case False
  let ?s = "s\<lparr>mempool := fmupd (txn_id env x) x (mempool s)\<rparr>"
  obtain q s1 where b: "broadcast env ?s (local_node_id ?s) (BroadcastTransaction (txn_id env x)) = (q, s1)"
    by (cases "broadcast env ?s (local_node_id ?s) (BroadcastTransaction (txn_id env x))")
  then have q: "q = Inr ()" "peers s' = peers s1"
    using call False by (cases q; auto simp: new_transaction_def Let_def)+
  have "wrote env ?s (to_all ?s [Broadcast (BroadcastTransaction (txn_id env x))]) s1"
    using broadcast_wrote [OF rel] b q(1) by blast
  then have "wrote env s (to_all ?s [Broadcast (BroadcastTransaction (txn_id env x))]) s'"
    by (subst wrote_same [of s ?s s' s1]) (simp_all add: q(2))
  then show ?thesis using False by (simp add: to_all_def)
qed

fun makes_peer :: "('n, 'st) PeerHubActorMessage \<Rightarrow> bool" where
  "makes_peer (NewPeer _ _ _ _) = True"
| "makes_peer _ = False"

lemma query_leading_cash_peers:
  "query_leading_cash env s = Some (S, s') \<Longrightarrow> peers s' = peers s"
  by (auto simp: query_leading_cash_def dest!: cash_set_at_frame split: option.splits)

text \<open>The streams grow by exactly the frames of the letters.\<close>

lemma handle_wrote:
  assumes env: "env_ok env" "reliable env" and inv: "hub_inv env s" "message_ok env m"
    and call: "handle env now s m = Some (Inr r, s')" and "\<not> makes_peer m"
  shows "wrote env s (outgoing env now s m) s'"
proof (cases m)
  case (AnnounceTransaction n t)
  show ?thesis
  proof (cases "knows_transaction s t")
    case True
    then show ?thesis using call AnnounceTransaction by (simp add: announce_transaction_def wrote_silent)
  next
    case False
    let ?s = "s\<lparr>annoucements := fmupd t n (annoucements s)\<rparr>"
    have "send_to_peer env ?s (GetTransactionRequest t) n = (Inr (), s')"
      using call AnnounceTransaction False by (intro no_reply_Inr [of _ r]) (simp add: announce_transaction_def)
    from send_wrote [OF env(2) this] have "wrote env s (to_peer n (GetTransactionRequest t)) s'"
      by (subst wrote_same [of s ?s s' s']) simp_all
    then show ?thesis using AnnounceTransaction False by simp
  qed
next
  case (AnnounceBlock n i)
  show ?thesis
  proof (cases "knows_block s i")
    case False
    have "send_to_peer env s (GetBlockRequest i) n = (Inr (), s')"
      using call AnnounceBlock False by (intro no_reply_Inr [of _ r]) (simp add: announce_block_def)
    from send_wrote [OF env(2) this] show ?thesis using AnnounceBlock False by simp
  qed (use call AnnounceBlock in \<open>simp add: announce_block_def wrote_silent\<close>)
next
  case (GetTransaction n t)
  obtain x where x: "fmlookup (mempool s) t = Some x" "no_reply (send_to_peer env s (GetTransactionResponse x) n) = Some (Inr r, s')"
    using call GetTransaction by (cases "fmlookup (mempool s) t") (auto simp: get_transaction_def)
  show ?thesis using send_wrote [OF env(2) no_reply_Inr [OF x(2)]] GetTransaction x(1) by simp
next
  case (GetBlock n i)
  obtain b where b: "fmlookup (valid_blocks s) i = Some b"
      "no_reply (send_to_peer env s (GetBlockResponse (local_node_id s) b) n) = Some (Inr r, s')"
    using call GetBlock by (cases "fmlookup (valid_blocks s) i") (auto simp: get_block_def)
  show ?thesis using send_wrote [OF env(2) no_reply_Inr [OF b(2)]] GetBlock b(1) by simp
next
  case (NewTransaction x)
  then show ?thesis using new_transaction_wrote [OF env(2)] call by simp
next
  case (NewBlock node b)
  then show ?thesis using new_block_wrote [OF env] inv call by simp
next
  case (QueryLeadingCashSet port)
  then have "peers s' = peers s" using call by (auto dest: query_leading_cash_peers)
  then show ?thesis using QueryLeadingCashSet by (simp add: wrote_silent)
qed (use call assms(6) in \<open>auto simp: wrote_silent\<close>)

end
