(* ===== verification/Gossip.thy ===== *)
theory Gossip
  imports Prelude
begin

text \<open>
  Announce, ask, answer: nodes that tell their neighbours what they have, ask for what they do not have, and
  answer with it, over wires that keep the order of the messages. The steps of the nodes may come in any
  order. The interface \<open>gossip\<close> states what one handled message must do; from it follows that in a network
  with nothing left to deliver every node has got whatever a neighbour has.
\<close>

section \<open>Nodes, inboxes and wires\<close>

record ('n, 's, 'm, 'p) wires =
  at_node :: "'n \<Rightarrow> 's"
  inbox :: "'n \<Rightarrow> 'm list"
  wire :: "'n \<Rightarrow> 'n \<Rightarrow> 'p list"

text \<open>\<open>acts s m s' out\<close>: a node in state \<open>s\<close> handles \<open>m\<close>, goes to \<open>s'\<close> and writes \<open>out k\<close> for each \<open>k\<close>.
  \<open>arrives i p\<close> is what a message \<open>p\<close> from \<open>i\<close> becomes in an inbox.\<close>

inductive wire_step ::
    "('s \<Rightarrow> 'm \<Rightarrow> 's \<Rightarrow> ('n \<Rightarrow> 'p list) \<Rightarrow> bool) \<Rightarrow> ('n \<Rightarrow> 'p \<Rightarrow> 'm) \<Rightarrow> ('m \<Rightarrow> bool) \<Rightarrow>
     ('n, 's, 'm, 'p) wires \<Rightarrow> ('n, 's, 'm, 'p) wires \<Rightarrow> bool"
  for acts arrives may where
  act: "\<lbrakk>inbox w i = m # ms; acts (at_node w i) m s' out\<rbrakk> \<Longrightarrow>
    wire_step acts arrives may w (w\<lparr>at_node := (at_node w)(i := s'), inbox := (inbox w)(i := ms),
      wire := (wire w)(i := \<lambda>k. wire w i k @ out k)\<rparr>)"
| arrive: "\<lbrakk>wire w i j = p # ps; may (arrives i p)\<rbrakk> \<Longrightarrow>
    wire_step acts arrives may w (w\<lparr>inbox := (inbox w)(j := inbox w j @ [arrives i p]),
      wire := (wire w)(i := (wire w i)(j := ps))\<rparr>)"
| inject: "may m \<Longrightarrow> wire_step acts arrives may w (w\<lparr>inbox := (inbox w)(i := inbox w i @ [m])\<rparr>)"

definition quiet :: "('n, 's, 'm, 'p) wires \<Rightarrow> bool" where
  "quiet w \<longleftrightarrow> (\<forall>i. inbox w i = []) \<and> (\<forall>i j. wire w i j = [])"

text \<open>A message that satisfies \<open>P\<close> is on its way from \<open>i\<close> to \<open>j\<close>.\<close>

definition coming :: "('n \<Rightarrow> 'p \<Rightarrow> 'm) \<Rightarrow> ('n, 's, 'm, 'p) wires \<Rightarrow> 'n \<Rightarrow> 'n \<Rightarrow> ('p \<Rightarrow> bool) \<Rightarrow> bool" where
  "coming arrives w i j P \<longleftrightarrow>
     (\<exists>p \<in> set (wire w i j). P p) \<or> (\<exists>p. P p \<and> arrives i p \<in> set (inbox w j))"

lemma quiet_coming: "quiet w \<Longrightarrow> \<not> coming arrives w i j P"
  by (simp add: quiet_def coming_def)

lemma coming_mono:
  "coming arrives w i j P \<Longrightarrow> set (wire w i j) \<subseteq> set (wire w' i j) \<Longrightarrow> set (inbox w j) \<subseteq> set (inbox w' j) \<Longrightarrow>
     coming arrives w' i j P"
  by (auto simp: coming_def)

text \<open>Handling a message leaves what is on its way, but for that message.\<close>

lemma coming_act:
  assumes "coming arrives w i j P" "inbox w n = m # ms"
  shows "coming arrives (w\<lparr>at_node := a, inbox := (inbox w)(n := ms), wire := (wire w)(n := \<lambda>k. wire w n k @ out k)\<rparr>) i j P \<or>
    (j = n \<and> (\<exists>p. P p \<and> m = arrives i p))"
  using assms by (auto simp: coming_def split: if_splits)

lemma coming_out:
  "p \<in> set (out j) \<Longrightarrow> P p \<Longrightarrow>
     coming arrives (w\<lparr>at_node := a, inbox := b, wire := (wire w)(n := \<lambda>k. wire w n k @ out k)\<rparr>) n j P"
  by (auto simp: coming_def)

lemma coming_arrive:
  assumes "coming arrives w a b P" "wire w i j = p # ps"
  shows "coming arrives (w\<lparr>inbox := (inbox w)(j := inbox w j @ [arrives i p]), wire := (wire w)(i := (wire w i)(j := ps))\<rparr>) a b P"
  using assms by (auto simp: coming_def split: if_splits)

section \<open>The interface\<close>

locale gossip =
  fixes acts :: "'s \<Rightarrow> 'm \<Rightarrow> 's \<Rightarrow> ('n \<Rightarrow> 'p list) \<Rightarrow> bool"
    and arrives :: "'n \<Rightarrow> 'p \<Rightarrow> 'm"
    and may :: "'m \<Rightarrow> bool"
    and good :: "'s \<Rightarrow> bool"
    and self :: "'s \<Rightarrow> 'n"
    and neighbours :: "'s \<Rightarrow> 'n set"
    and has :: "'s \<Rightarrow> 'x \<Rightarrow> bool"
    and got :: "'s \<Rightarrow> 'x \<Rightarrow> bool"
    and asked :: "'s \<Rightarrow> 'x \<Rightarrow> 'n option"
    and announcement :: "'x \<Rightarrow> 'p"
    and request :: "'x \<Rightarrow> 'p"
    and answers :: "'p \<Rightarrow> 'x \<Rightarrow> bool"
  assumes stays: "good s \<Longrightarrow> may m \<Longrightarrow> acts s m s' out \<Longrightarrow> good s' \<and> self s' = self s \<and> neighbours s' = neighbours s"
    and got_kept: "good s \<Longrightarrow> may m \<Longrightarrow> acts s m s' out \<Longrightarrow> got s x \<Longrightarrow> got s' x"
    and announces: "good s \<Longrightarrow> may m \<Longrightarrow> acts s m s' out \<Longrightarrow> has s' x \<Longrightarrow> \<not> has s x \<Longrightarrow>
      k \<in> neighbours s \<Longrightarrow> k \<noteq> self s \<Longrightarrow> announcement x \<in> set (out k)"
    and asks: "good s \<Longrightarrow> acts s (arrives k (announcement x)) s' out \<Longrightarrow>
      got s' x \<or> asked s' x \<noteq> None \<or> request x \<in> set (out k)"
    and asked_kept: "good s \<Longrightarrow> may m \<Longrightarrow> acts s m s' out \<Longrightarrow> asked s x \<noteq> None \<Longrightarrow> asked s' x \<noteq> None \<or> got s' x"
    and asked_new: "good s \<Longrightarrow> may m \<Longrightarrow> acts s m s' out \<Longrightarrow> asked s' x = Some k \<Longrightarrow>
      asked s x = Some k \<and> \<not> (\<exists>i p. answers p x \<and> m = arrives i p) \<or> request x \<in> set (out k)"
    and serves: "good s \<Longrightarrow> acts s (arrives k (request x)) s' out \<Longrightarrow> \<exists>p \<in> set (out k). answers p x"
    and takes: "good s \<Longrightarrow> acts s (arrives k p) s' out \<Longrightarrow> answers p x \<Longrightarrow> got s' x"
begin

text \<open>Whatever a node has, a neighbour has got, has asked for, hears of, asks for, or is being sent; and what
  a node has asked for is asked for or being sent.\<close>

definition heard_of :: "('n, 's, 'm, 'p) wires \<Rightarrow> 'n \<Rightarrow> 'n \<Rightarrow> 'x \<Rightarrow> bool" where
  "heard_of w i j x \<longleftrightarrow> got (at_node w j) x \<or> asked (at_node w j) x \<noteq> None \<or>
     coming arrives w i j ((=) (announcement x)) \<or> coming arrives w j i ((=) (request x)) \<or>
     coming arrives w i j (\<lambda>p. answers p x)"

definition awaited :: "('n, 's, 'm, 'p) wires \<Rightarrow> 'n \<Rightarrow> 'n \<Rightarrow> 'x \<Rightarrow> bool" where
  "awaited w j k x \<longleftrightarrow> coming arrives w j k ((=) (request x)) \<or> coming arrives w k j (\<lambda>p. answers p x)"

definition sane :: "('n, 's, 'm, 'p) wires \<Rightarrow> bool" where
  "sane w \<longleftrightarrow> (\<forall>i. good (at_node w i) \<and> self (at_node w i) = i \<and> list_all may (inbox w i))"

definition spreading :: "('n, 's, 'm, 'p) wires \<Rightarrow> bool" where
  "spreading w \<longleftrightarrow> sane w \<and>
     (\<forall>i j x. i \<noteq> j \<longrightarrow> j \<in> neighbours (at_node w i) \<longrightarrow> has (at_node w i) x \<longrightarrow> heard_of w i j x) \<and>
     (\<forall>j k x. asked (at_node w j) x = Some k \<longrightarrow> awaited w j k x)"

lemma spreading_quiet:
  assumes "spreading w" "quiet w" "i \<noteq> j" "j \<in> neighbours (at_node w i)" "has (at_node w i) x"
  shows "got (at_node w j) x"
proof -
  have "asked (at_node w j) x = None"
    using assms(1) quiet_coming [OF assms(2)] by (cases "asked (at_node w j) x") (auto simp: spreading_def awaited_def)
  moreover have "heard_of w i j x" using assms(1,3-5) unfolding spreading_def by blast
  ultimately show ?thesis using quiet_coming [OF assms(2)] by (simp add: heard_of_def)
qed

text \<open>The start: no node has what another has not got, and nothing is under way but messages of clients.\<close>

lemma spreading_start:
  assumes "sane w" "\<And>i j x. has (at_node w i) x \<Longrightarrow> got (at_node w j) x" "\<And>j x. asked (at_node w j) x = None"
  shows "spreading w"
  using assms by (simp add: spreading_def heard_of_def)

text \<open>A node handles a message.\<close>

lemma act_heard_of:
  assumes w: "sane w" and m: "inbox w n = m # ms" "acts (at_node w n) m s' out"
    and old: "\<And>i j x. i \<noteq> j \<Longrightarrow> j \<in> neighbours (at_node w i) \<Longrightarrow> has (at_node w i) x \<Longrightarrow> heard_of w i j x"
    and w': "w' = w\<lparr>at_node := (at_node w)(n := s'), inbox := (inbox w)(n := ms), wire := (wire w)(n := \<lambda>k. wire w n k @ out k)\<rparr>"
    and ij: "i \<noteq> j" "j \<in> neighbours (at_node w' i)" "has (at_node w' i) x"
  shows "heard_of w' i j x"
proof -
  have n: "good (at_node w n)" "self (at_node w n) = n" "may m" using w m(1) by (auto simp: sane_def) (metis list.pred_inject(2))
  note st = stays [OF n(1,3) m(2)]
  show ?thesis
  proof (cases "i = n \<and> \<not> has (at_node w n) x")
    case True
    then have "announcement x \<in> set (out j)"
      using announces [OF n(1,3) m(2), of x j] ij st n(2) w' by simp
    then have "coming arrives w' i j ((=) (announcement x))" using True coming_out [of "announcement x" out j "(=) (announcement x)"] w' by simp
    then show ?thesis by (simp add: heard_of_def)
  next
    case False
    then have "has (at_node w i) x" "j \<in> neighbours (at_node w i)" using ij st w' by (auto split: if_splits)
    then have h: "heard_of w i j x" using old ij(1) by blast
    have keep: "coming arrives w a b P \<Longrightarrow> coming arrives w' a b P \<or> (b = n \<and> (\<exists>p. P p \<and> m = arrives a p))" for a b P
      unfolding w' by (rule coming_act [OF _ m(1)])
    from h show ?thesis unfolding heard_of_def [of w]
    proof (elim disjE)
      assume "got (at_node w j) x"
      then have "got (at_node w' j) x" using got_kept [OF n(1,3) m(2), of x] w' by auto
      then show ?thesis by (simp add: heard_of_def)
    next
      assume "asked (at_node w j) x \<noteq> None"
      then have "got (at_node w' j) x \<or> asked (at_node w' j) x \<noteq> None" using asked_kept [OF n(1,3) m(2), of x] w' by auto
      then show ?thesis by (auto simp: heard_of_def)
    next
      assume "coming arrives w i j ((=) (announcement x))"
      from keep [OF this] show ?thesis
      proof (elim disjE conjE exE)
        fix p assume "j = n" "announcement x = p" "m = arrives i p"
        with asks [OF n(1), of i x s' out] m(2) have "got s' x \<or> asked s' x \<noteq> None \<or> request x \<in> set (out i)" by blast
        then show ?thesis using \<open>j = n\<close> coming_out [of "request x" out i "(=) (request x)"] w' by (auto simp: heard_of_def)
      qed (simp add: heard_of_def)
    next
      assume "coming arrives w j i ((=) (request x))"
      from keep [OF this] show ?thesis
      proof (elim disjE conjE exE)
        fix p assume "i = n" "request x = p" "m = arrives j p"
        with serves [OF n(1), of j x s' out] m(2) obtain q where "q \<in> set (out j)" "answers q x" by blast
        then have "coming arrives w' i j (\<lambda>p. answers p x)" using \<open>i = n\<close> coming_out [of q out j "\<lambda>p. answers p x"] w' by simp
        then show ?thesis by (simp add: heard_of_def)
      qed (simp add: heard_of_def)
    next
      assume "coming arrives w i j (\<lambda>p. answers p x)"
      from keep [OF this] show ?thesis
      proof (elim disjE conjE exE)
        fix p assume "j = n" "answers p x" "m = arrives i p"
        with takes [OF n(1), of i p s' out x] m(2) show ?thesis using w' by (simp add: heard_of_def)
      qed (simp add: heard_of_def)
    qed
  qed
qed

lemma act_awaited:
  assumes w: "sane w" and m: "inbox w n = m # ms" "acts (at_node w n) m s' out"
    and old: "\<And>j k x. asked (at_node w j) x = Some k \<Longrightarrow> awaited w j k x"
    and w': "w' = w\<lparr>at_node := (at_node w)(n := s'), inbox := (inbox w)(n := ms), wire := (wire w)(n := \<lambda>k. wire w n k @ out k)\<rparr>"
    and a: "asked (at_node w' j) x = Some k"
  shows "awaited w' j k x"
proof -
  have n: "good (at_node w n)" "may m" using w m(1) by (auto simp: sane_def) (metis list.pred_inject(2))
  show ?thesis
  proof (cases "j = n \<and> request x \<in> set (out k)")
    case True
    then have "coming arrives w' j k ((=) (request x))" using True coming_out [of "request x" out k "(=) (request x)"] w' by simp
    then show ?thesis by (simp add: awaited_def)
  next
    case False
    then have old_a: "asked (at_node w j) x = Some k" "j = n \<Longrightarrow> \<not> (\<exists>i p. answers p x \<and> m = arrives i p)"
      using a asked_new [OF n m(2), of x k] w' by (auto split: if_splits)
    have keep: "coming arrives w a b P \<Longrightarrow> coming arrives w' a b P \<or> (b = n \<and> (\<exists>p. P p \<and> m = arrives a p))" for a b P
      unfolding w' by (rule coming_act [OF _ m(1)])
    from old [OF old_a(1)] show ?thesis unfolding awaited_def [of w]
    proof (elim disjE)
      assume "coming arrives w j k ((=) (request x))"
      from keep [OF this] show ?thesis
      proof (elim disjE conjE exE)
        fix p assume "k = n" "request x = p" "m = arrives j p"
        with serves [OF n(1), of j x s' out] m(2) obtain q where "q \<in> set (out j)" "answers q x" by blast
        then have "coming arrives w' k j (\<lambda>p. answers p x)" using \<open>k = n\<close> coming_out [of q out j "\<lambda>p. answers p x"] w' by simp
        then show ?thesis by (simp add: awaited_def)
      qed (simp add: awaited_def)
    next
      assume "coming arrives w k j (\<lambda>p. answers p x)"
      from keep [OF this] show ?thesis using old_a(2) by (auto simp: awaited_def)
    qed
  qed
qed

lemma wire_step_sane:
  assumes "wire_step acts arrives may w w'" "sane w"
  shows "sane w'"
  using assms(1)
proof (cases rule: wire_step.cases)
  case (act n m ms s' out)
  have n: "good (at_node w n)" "may m" "list_all may ms" using assms(2) act(2) by (auto simp: sane_def) (metis list.pred_inject(2))+
  show ?thesis using stays [OF n(1,2) act(3)] assms(2) n(3) act(1) by (auto simp: sane_def)
qed (use assms(2) in \<open>auto simp: sane_def\<close>)

lemma wire_step_spreading:
  assumes "wire_step acts arrives may w w'" "spreading w"
  shows "spreading w'"
  using assms(1)
proof (cases rule: wire_step.cases)
  case (act n m ms s' out)
  have s: "sane w" using assms(2) by (simp add: spreading_def)
  have "sane w'" by (rule wire_step_sane [OF assms(1) s])
  moreover have "heard_of w' i j x"
    if "i \<noteq> j" "j \<in> neighbours (at_node w' i)" "has (at_node w' i) x" for i j x
    using act_heard_of [OF s act(2,3) _ act(1) that] assms(2) by (simp add: spreading_def)
  moreover have "awaited w' j k x" if "asked (at_node w' j) x = Some k" for j k x
    using act_awaited [OF s act(2,3) _ act(1) that] assms(2) by (simp add: spreading_def)
  ultimately show ?thesis by (simp add: spreading_def)
next
  case (arrive i j p ps)
  have keep: "coming arrives w a b P \<Longrightarrow> coming arrives w' a b P" for a b P
    using coming_arrive [OF _ arrive(2)] arrive(1) by simp
  have "sane w'" "at_node w' = at_node w" using assms(2) wire_step_sane [OF assms(1)] arrive(1) by (simp_all add: spreading_def)
  then show ?thesis using assms(2) keep unfolding spreading_def heard_of_def awaited_def by metis
next
  case (inject m i)
  have keep: "coming arrives w a b P \<Longrightarrow> coming arrives w' a b P" for a b P
    using inject(1) by (auto simp: coming_def)
  have "sane w'" "at_node w' = at_node w" using assms(2) wire_step_sane [OF assms(1)] inject(1) by (simp_all add: spreading_def)
  then show ?thesis using assms(2) keep unfolding spreading_def heard_of_def awaited_def by metis
qed

text \<open>A run from a start where no node has what another has not got: the nodes stay good, and at rest every
  node has got whatever a neighbour has.\<close>

lemma run_good:
  assumes "(wire_step acts arrives may)\<^sup>*\<^sup>* w w'"
    and "\<forall>i. good (at_node w i) \<and> self (at_node w i) = i \<and> list_all may (inbox w i)"
  shows "\<forall>i. good (at_node w' i) \<and> self (at_node w' i) = i \<and> list_all may (inbox w' i)"
proof -
  have "sane w'" using assms(1)
  proof (induction rule: rtranclp_induct)
    case base
    then show ?case using assms(2) by (simp add: sane_def)
  next
    case (step w1 w2)
    then show ?case using wire_step_sane by blast
  qed
  then show ?thesis by (simp add: sane_def)
qed

lemma run_complete:
  assumes "(wire_step acts arrives may)\<^sup>*\<^sup>* w w'" "quiet w'"
    and "\<forall>i. good (at_node w i) \<and> self (at_node w i) = i \<and> list_all may (inbox w i)"
    and "\<forall>i j x. has (at_node w i) x \<longrightarrow> got (at_node w j) x" "\<forall>j x. asked (at_node w j) x = None"
    and "i \<noteq> j" "j \<in> neighbours (at_node w' i)" "has (at_node w' i) x"
  shows "got (at_node w' j) x"
proof -
  have "spreading w" using assms(3-5) by (intro spreading_start) (simp_all add: sane_def)
  with assms(1) have "spreading w'" by (induction rule: rtranclp_induct) (auto intro: wire_step_spreading)
  then show ?thesis using spreading_quiet assms(2,6-8) by blast
qed

end

end
