(* ===== verification/Convergence.thy ===== *)
theory Convergence
  imports Outgoing Gossip
begin

text \<open>
  The hubs of a network spread blocks and transactions: both are instances of \<open>gossip\<close>. A network over
  byte streams is simulated by one over wires that carry messages, so what \<open>gossip\<close> shows holds for it.
\<close>

section \<open>What a handled message changes\<close>

abbreviation hub_may :: "('sk, 'n, 'st) hub_env \<Rightarrow> ('n, 'st) PeerHubActorMessage \<Rightarrow> bool" where
  "hub_may env m \<equiv> message_ok env m \<and> \<not> makes_peer m"

definition hub_acts ::
    "('sk, 'n::linorder, 'st) hub_env \<Rightarrow> ('n, 'st) hub \<Rightarrow> ('n, 'st) PeerHubActorMessage \<Rightarrow> ('n, 'st) hub \<Rightarrow>
     'n letters \<Rightarrow> bool" where
  "hub_acts env s m s' out \<longleftrightarrow> (\<exists>now r. handle env now s m = Some (Inr r, s') \<and> out = outgoing env now s m)"

definition same_blocks :: "('n, 'st) hub \<Rightarrow> ('n, 'st) hub \<Rightarrow> bool" where
  "same_blocks s s' \<longleftrightarrow> valid_blocks s' = valid_blocks s \<and> unconfirmed_blocks s' = unconfirmed_blocks s \<and>
     invalid_blocks s' = invalid_blocks s"

definition same_pool :: "('n, 'st) hub \<Rightarrow> ('n, 'st) hub \<Rightarrow> bool" where
  "same_pool s s' \<longleftrightarrow> mempool s' = mempool s \<and> annoucements s' = annoucements s"

lemma streams_same: "same_but_streams s s' \<Longrightarrow> same_blocks s s' \<and> same_pool s s' \<and> fmdom (peers s') = fmdom (peers s)"
  unfolding same_but_streams_def same_blocks_def same_pool_def by (elim exE conjE) simp

lemma same_blocks_known: "same_blocks s s' \<Longrightarrow> known s' = known s"
  by (simp add: same_blocks_def known_def)

text \<open>The arms that only write, or do nothing, and what the others may change besides streams.\<close>

fun only_writes :: "('n, 'st) PeerHubActorMessage \<Rightarrow> bool" where
  "only_writes (NewPeer _ _ _ _) = False" | "only_writes (AnnounceTransaction _ _) = False"
| "only_writes (NewTransaction _) = False" | "only_writes (NewBlock _ _) = False"
| "only_writes (QueryLeadingCashSet _) = False" | "only_writes _ = True"

lemma only_writes_streams:
  assumes "handle env now s m = Some (r, s')" "only_writes m"
  shows "same_but_streams s s'"
proof (cases m)
  case (GetTransaction n t)
  then show ?thesis using assms(1)
    by (cases "fmlookup (mempool s) t") (auto simp: get_transaction_def no_reply_Some same_but_streams_refl dest: send_to_peer_frame)
next
  case (GetBlock n i)
  then show ?thesis using assms(1)
    by (cases "fmlookup (valid_blocks s) i") (auto simp: get_block_def no_reply_Some same_but_streams_refl dest: send_to_peer_frame)
next
  case (AnnounceBlock n i)
  then show ?thesis using assms(1)
    by (cases "knows_block s i") (auto simp: announce_block_def no_reply_Some same_but_streams_refl dest: send_to_peer_frame)
qed (use assms in \<open>auto simp: same_but_streams_refl\<close>)

lemma announce_transaction_streams:
  assumes "announce_transaction env s n t = Some (r, s')"
  shows "knows_transaction s t \<and> s' = s \<or> \<not> knows_transaction s t \<and> same_but_streams (s\<lparr>annoucements := fmupd t n (annoucements s)\<rparr>) s'"
  using assms by (cases "knows_transaction s t") (auto simp: announce_transaction_def no_reply_Some dest: send_to_peer_frame)

lemma new_transaction_streams:
  assumes "new_transaction env s x = Some (Inr r, s')" "txn_id env x |\<notin>| fmdom (mempool s)"
  shows "\<exists>s1. same_but_streams (s\<lparr>mempool := fmupd (txn_id env x) x (mempool s)\<rparr>) s1 \<and>
    s' = s1\<lparr>annoucements := fmdrop (txn_id env x) (annoucements s1)\<rparr>"
proof -
  let ?s = "s\<lparr>mempool := fmupd (txn_id env x) x (mempool s)\<rparr>"
  obtain q s1 where b: "broadcast env ?s (local_node_id ?s) (BroadcastTransaction (txn_id env x)) = (q, s1)"
    by (cases "broadcast env ?s (local_node_id ?s) (BroadcastTransaction (txn_id env x))")
  moreover from this have "s' = s1\<lparr>annoucements := fmdrop (txn_id env x) (annoucements s1)\<rparr>"
    using assms by (cases q) (auto simp: new_transaction_def Let_def)
  ultimately show ?thesis using broadcast_frame [OF b] by blast
qed

lemma handle_same_blocks:
  assumes "handle env now s m = Some (Inr r, s')" "\<forall>node b. m \<noteq> NewBlock node b"
  shows "same_blocks s s'"
proof -
  consider (writes) "only_writes m" | (peer) n st c p where "m = NewPeer n st c p"
    | (announce) n t where "m = AnnounceTransaction n t" | (txn) x where "m = NewTransaction x"
    | (cash) p where "m = QueryLeadingCashSet p" using assms(2) by (cases m) auto
  then show ?thesis
  proof cases
    case writes
    then show ?thesis using streams_same [OF only_writes_streams [OF assms(1)]] by blast
  next
    case announce
    then show ?thesis using announce_transaction_streams [of env s n t "Inr r" s'] assms(1)
      by (auto simp: same_blocks_def dest!: streams_same)
  next
    case txn
    show ?thesis
    proof (cases "txn_id env x |\<in>| fmdom (mempool s)")
      case False
      then show ?thesis using new_transaction_streams [of env s x r s'] assms(1) txn
        by (auto simp: same_blocks_def dest!: streams_same)
    qed (use assms(1) txn in \<open>simp add: new_transaction_known same_blocks_def\<close>)
  next
    case cash
    then show ?thesis
      using assms(1) by (auto simp: query_leading_cash_def same_blocks_def dest!: cash_set_at_frame split: option.splits)
  qed (use assms(1) in \<open>auto simp: new_peer_def same_blocks_def split: if_splits\<close>)
qed

lemma handle_same_pool:
  assumes "handle env now s m = Some (Inr r, s')" "\<forall>node b. m \<noteq> NewBlock node b" "\<forall>x. m \<noteq> NewTransaction x"
    and "\<forall>n t. m \<noteq> AnnounceTransaction n t"
  shows "same_pool s s'"
proof -
  consider (writes) "only_writes m" | (peer) n st c p where "m = NewPeer n st c p"
    | (cash) p where "m = QueryLeadingCashSet p" using assms(2-4) by (cases m) auto
  then show ?thesis
  proof cases
    case writes
    then show ?thesis using streams_same [OF only_writes_streams [OF assms(1)]] by blast
  next
    case cash
    then show ?thesis
      using assms(1) by (auto simp: query_leading_cash_def same_pool_def dest!: cash_set_at_frame split: option.splits)
  qed (use assms(1) in \<open>auto simp: new_peer_def same_pool_def split: if_splits\<close>)
qed

lemma handle_same_peers:
  assumes "handle env now s m = Some (Inr r, s')" "\<not> makes_peer m" "env_ok env" "hub_inv env s"
  shows "fmdom (peers s') = fmdom (peers s)"
proof -
  consider (writes) "only_writes m" | (block) node b where "m = NewBlock node b"
    | (announce) n t where "m = AnnounceTransaction n t" | (txn) x where "m = NewTransaction x"
    | (cash) p where "m = QueryLeadingCashSet p" using assms(2) by (cases m) auto
  then show ?thesis
  proof cases
    case writes
    then show ?thesis using streams_same [OF only_writes_streams [OF assms(1)]] by blast
  next
    case block
    then consider "s' = s" | "s' = reject env s (block_id env b)"
      | (valid) ids s1 where "fresh_block env s b" "validate_block env s b = Some (ids, s1)"
        "after_validation env s1 node (block_id env b) (prev_id b) ids = Some (Inr r, s')"
      using assms(1) by (auto simp: new_block_def fresh_block_def split: if_splits)
    then show ?thesis
    proof cases
      case valid
      note grow = validate_block_grows [OF env_ok_dest [OF assms(3)] hub_inv_pools [OF assms(4)] valid(1,2)]
      have "peers s1 = peers s" using grows_same [OF grow] by (simp add: same_node_def)
      then show ?thesis using streams_same [OF after_validation_streams [OF valid(3)]] by simp
    qed simp_all
  next
    case announce
    then have "announce_transaction env s n t = Some (Inr r, s')" using assms(1) by simp
    from announce_transaction_streams [OF this] show ?thesis
    proof (elim disjE conjE)
      assume "same_but_streams (s\<lparr>annoucements := fmupd t n (annoucements s)\<rparr>) s'"
      from streams_same [OF this] show ?thesis by simp
    qed simp
  next
    case txn
    show ?thesis
    proof (cases "txn_id env x |\<in>| fmdom (mempool s)")
      case False
      then show ?thesis using new_transaction_streams [of env s x r s'] assms(1) txn by (auto dest!: streams_same)
    qed (use assms(1) txn in \<open>simp add: new_transaction_known\<close>)
  next
    case cash
    then show ?thesis using assms(1) by (auto dest: query_leading_cash_peers)
  qed
qed

text \<open>How a block is handled, if it does not stop the hub.\<close>

lemma new_block_cases [consumes 1, case_names knows late fresh]:
  assumes "new_block env now s node b = Some (Inr r, s')"
  obtains "knows_block s (block_id env b)" "s' = s"
    | "now < timestamp b" "s' = reject env s (block_id env b)"
    | ids s1 where "\<not> knows_block s (block_id env b)" "\<not> now < timestamp b" "fresh_block env s b"
        "validate_block env s b = Some (ids, s1)"
        "after_validation env s1 node (block_id env b) (prev_id b) ids = Some (Inr r, s')"
proof -
  consider "knows_block s (block_id env b)" "s' = s"
    | "now < timestamp b" "s' = reject env s (block_id env b)"
    | ids s1 where "\<not> knows_block s (block_id env b)" "\<not> now < timestamp b" "fresh_block env s b"
        "validate_block env s b = Some (ids, s1)"
        "after_validation env s1 node (block_id env b) (prev_id b) ids = Some (Inr r, s')"
    using assms by (auto simp: new_block_def fresh_block_def knows_block_def split: if_splits)
  then show thesis by cases (fact that)+
qed

text \<open>A new block: the hub knows it afterwards, and everything that became valid is announced.\<close>

lemma new_block_effect:
  assumes env: "env_ok env" and inv: "hub_inv env s" and call: "new_block env now s node b = Some (Inr r, s')"
  shows "insert (block_id env b) (known s) \<subseteq> known s'" "annoucements s' = annoucements s"
    "\<exists>ids. adds_blocks (valid_blocks s) ids (valid_blocks s') \<and>
       (\<forall>t. fmlookup (mempool s') t = (if mined_in env (valid_blocks s') ids t then None else fmlookup (mempool s) t)) \<and>
       (\<forall>i \<in> set ids. \<forall>k. k |\<in>| fmdom (peers s) \<longrightarrow> k \<noteq> local_node_id s \<longrightarrow>
          Broadcast (BroadcastBlock i) \<in> set (block_letters env now s node b k))"
proof -
  note ok = env_ok_dest [OF env] hub_inv_pools [OF inv]
  have "insert (block_id env b) (known s) \<subseteq> known s' \<and> annoucements s' = annoucements s \<and>
    (\<exists>ids. adds_blocks (valid_blocks s) ids (valid_blocks s') \<and>
       (\<forall>t. fmlookup (mempool s') t = (if mined_in env (valid_blocks s') ids t then None else fmlookup (mempool s) t)) \<and>
       (\<forall>i \<in> set ids. \<forall>k. k |\<in>| fmdom (peers s) \<longrightarrow> k \<noteq> local_node_id s \<longrightarrow>
          Broadcast (BroadcastBlock i) \<in> set (block_letters env now s node b k)))"
  using call
  proof (cases rule: new_block_cases)
    case knows
    then show ?thesis by (auto simp: knows_block_known mined_in_def adds_blocks_refl intro!: exI [of _ "[]"])
  next
    case late
    then show ?thesis using reject_known [OF ok(1), of "block_id env b" s]
      by (auto simp: mined_in_def adds_blocks_refl intro!: exI [of _ "[]"])
  next
    case (fresh ids s1)
    note grow = validate_block_grows [OF ok fresh(3,4)]
    note same = conjunct1 [OF streams_same [OF after_validation_streams [OF fresh(5)]]]
      conjunct1 [OF conjunct2 [OF streams_same [OF after_validation_streams [OF fresh(5)]]]]
    have "insert (block_id env b) (known s) \<subseteq> known s'"
      using validate_block_known [OF ok fresh(3,4)] same_blocks_known [OF same(1)] by simp
    moreover have "annoucements s' = annoucements s"
      using grows_same [OF grow] same(2) by (simp add: same_node_def same_pool_def)
    moreover have "block_letters env now s node b k = map (\<lambda>i. Broadcast (BroadcastBlock i)) ids"
      if "ids \<noteq> []" "k |\<in>| fmdom (peers s)" "k \<noteq> local_node_id s" for k
      using that fresh(1,2,4) by (simp add: block_letters_def to_all_def)
    then have "\<forall>i \<in> set ids. \<forall>k. k |\<in>| fmdom (peers s) \<longrightarrow> k \<noteq> local_node_id s \<longrightarrow>
          Broadcast (BroadcastBlock i) \<in> set (block_letters env now s node b k)"
      by (metis (no_types, lifting) image_eqI list.set_map empty_iff list.set(1))
    ultimately show ?thesis
      using grows_adds [OF grow] grows_mempool [OF grow] same by (auto simp: same_blocks_def same_pool_def intro!: exI [of _ ids])
  qed
  then show "insert (block_id env b) (known s) \<subseteq> known s'" "annoucements s' = annoucements s"
    "\<exists>ids. adds_blocks (valid_blocks s) ids (valid_blocks s') \<and>
       (\<forall>t. fmlookup (mempool s') t = (if mined_in env (valid_blocks s') ids t then None else fmlookup (mempool s) t)) \<and>
       (\<forall>i \<in> set ids. \<forall>k. k |\<in>| fmdom (peers s) \<longrightarrow> k \<noteq> local_node_id s \<longrightarrow>
          Broadcast (BroadcastBlock i) \<in> set (block_letters env now s node b k))" by blast+
qed

section \<open>Blocks are spread\<close>

definition hub_good :: "('sk, 'n, 'st) hub_env \<Rightarrow> ('n, 'st) hub \<Rightarrow> bool" where
  "hub_good env s \<longleftrightarrow> env_ok env \<and> hub_inv env s \<and> (\<forall>t. t |\<in>| fmdom (mempool s) \<longrightarrow> t |\<notin>| fmdom (annoucements s))"

definition neighbours_of :: "('n, 'st) hub \<Rightarrow> 'n set" where
  "neighbours_of s = fset (fmdom (peers s))"

fun answers_block :: "('sk, 'z) codec_scheme \<Rightarrow> 'n PeerMessage \<Rightarrow> BlockId \<Rightarrow> bool" where
  "answers_block c (GetBlockResponse n b) i \<longleftrightarrow> block_id c b = i"
| "answers_block c _ i \<longleftrightarrow> False"

fun answers_transaction :: "('sk, 'z) codec_scheme \<Rightarrow> 'n PeerMessage \<Rightarrow> TransactionId \<Rightarrow> bool" where
  "answers_transaction c (GetTransactionResponse x) t \<longleftrightarrow> txn_id c x = t"
| "answers_transaction c _ t \<longleftrightarrow> False"

lemma pools_apart:
  assumes "handle env now s m = Some (Inr r, s')" "hub_good env s"
  shows "\<forall>t. t |\<in>| fmdom (mempool s') \<longrightarrow> t |\<notin>| fmdom (annoucements s')"
proof -
  have old: "\<forall>t. t |\<in>| fmdom (mempool s) \<longrightarrow> t |\<notin>| fmdom (annoucements s)" using assms(2) by (simp add: hub_good_def)
  consider (block) node b where "m = NewBlock node b" | (announce) n t where "m = AnnounceTransaction n t"
    | (txn) x where "m = NewTransaction x" | (other) "same_pool s s'"
    using handle_same_pool [OF assms(1)] by blast
  then show ?thesis
  proof cases
    case block
    then have "new_block env now s node b = Some (Inr r, s')" using assms(1) by simp
    from new_block_effect(2,3) [OF _ _ this] assms(2) obtain ids where
      "annoucements s' = annoucements s" "\<And>t. fmlookup (mempool s') t = (if mined_in env (valid_blocks s') ids t then None else fmlookup (mempool s) t)"
      by (auto simp: hub_good_def)
    then show ?thesis using old by (auto simp: fmlookup_dom_iff split: if_splits)
  next
    case announce
    then show ?thesis using announce_transaction_streams [of env s n t "Inr r" s'] assms(1) old
      by (auto simp: same_pool_def knows_transaction_def dest!: streams_same)
  next
    case txn
    show ?thesis
    proof (cases "txn_id env x |\<in>| fmdom (mempool s)")
      case True
      then show ?thesis using assms(1) txn old by (simp add: new_transaction_known)
    next
      case False
      then obtain s1 where "same_but_streams (s\<lparr>mempool := fmupd (txn_id env x) x (mempool s)\<rparr>) s1"
        "s' = s1\<lparr>annoucements := fmdrop (txn_id env x) (annoucements s1)\<rparr>"
        using new_transaction_streams [of env s x r s'] assms(1) txn by auto
      then show ?thesis using streams_same [of "s\<lparr>mempool := fmupd (txn_id env x) x (mempool s)\<rparr>" s1] old
        by (auto simp: same_pool_def)
    qed
  qed (use old in \<open>simp add: same_pool_def\<close>)
qed

lemma hub_stays:
  assumes "hub_good env s" "hub_may env m" "hub_acts env s m s' out"
  shows "hub_good env s' \<and> local_node_id s' = local_node_id s \<and> neighbours_of s' = neighbours_of s"
proof -
  obtain now r where h: "handle env now s m = Some (Inr r, s')" using assms(3) by (auto simp: hub_acts_def)
  have ok: "env_ok env" "hub_inv env s" using assms(1) by (simp_all add: hub_good_def)
  have "fmdom (peers s') = fmdom (peers s)" using handle_same_peers [OF h _ ok] assms(2) by simp
  then show ?thesis
    using handle_inv [OF ok _ h] handle_keeps [OF ok _ h] pools_apart [OF h assms(1)] assms(2) ok(1)
    by (simp add: hub_good_def keeps_def same_identity_def neighbours_of_def)
qed

lemma hub_known_kept:
  assumes "hub_good env s" "hub_acts env s m s' out"
  shows "known s \<subseteq> known s'"
proof -
  obtain now r where h: "handle env now s m = Some (Inr r, s')" using assms(2) by (auto simp: hub_acts_def)
  show ?thesis
  proof (cases "\<exists>node b. m = NewBlock node b")
    case True
    then obtain node b where "new_block env now s node b = Some (Inr r, s')" using h by auto
    from new_block_effect(1) [OF _ _ this] assms(1) show ?thesis by (auto simp: hub_good_def)
  next
    case False
    then show ?thesis using same_blocks_known [OF handle_same_blocks [OF h]] by simp
  qed
qed

lemma hub_announces_block:
  assumes "hub_good env s" "hub_acts env s m s' out" "i |\<in>| fmdom (valid_blocks s')" "i |\<notin>| fmdom (valid_blocks s)"
    and "k \<in> neighbours_of s" "k \<noteq> local_node_id s"
  shows "Broadcast (BroadcastBlock i) \<in> set (out k)"
proof -
  obtain now r where h: "handle env now s m = Some (Inr r, s')" and out: "out = outgoing env now s m"
    using assms(2) by (auto simp: hub_acts_def)
  have "\<not> same_blocks s s'" using assms(3,4) by (auto simp: same_blocks_def)
  then obtain node b where m: "m = NewBlock node b" using handle_same_blocks [OF h] by blast
  then have "new_block env now s node b = Some (Inr r, s')" using h by simp
  from new_block_effect(3) [OF _ _ this] assms(1) obtain ids where ids: "adds_blocks (valid_blocks s) ids (valid_blocks s')"
    "\<And>i k. i \<in> set ids \<Longrightarrow> k |\<in>| fmdom (peers s) \<Longrightarrow> k \<noteq> local_node_id s \<Longrightarrow>
          Broadcast (BroadcastBlock i) \<in> set (block_letters env now s node b k)"
    by (auto simp: hub_good_def)
  have "fmlookup (valid_blocks s') i = None \<longleftrightarrow> fmlookup (valid_blocks s) i = None \<and> i \<notin> set ids"
    using ids(1) by (simp add: adds_blocks_def)
  moreover have "fmlookup (valid_blocks s) i = None" by (rule fmdom_notD [OF assms(4)])
  ultimately have "i \<in> set ids" using assms(3) by (auto simp: fmlookup_dom_iff)
  then show ?thesis using ids(2) assms(5,6) out m by (simp add: neighbours_of_def)
qed

lemma hub_serves_block:
  assumes "hub_good env s" "hub_acts env s (GetBlock k i) s' out"
  shows "\<exists>p \<in> set (out k). answers_block env p i"
proof -
  obtain b where b: "fmlookup (valid_blocks s) i = Some b"
    using assms(2) by (cases "fmlookup (valid_blocks s) i") (auto simp: hub_acts_def get_block_def)
  then have "block_id env b = i" using assms(1) blocks_inv_id hub_inv_blocks by (fastforce simp: hub_good_def)
  then show ?thesis using assms(2) b by (auto simp: hub_acts_def to_peer_def)
qed

interpretation blocks_spread: gossip "hub_acts env" peer_cast "hub_may env" "hub_good env" local_node_id neighbours_of
    "\<lambda>s i. i |\<in>| fmdom (valid_blocks s)" knows_block "\<lambda>_ _. None"
    "\<lambda>i. Broadcast (BroadcastBlock i)" GetBlockRequest "answers_block env" for env
proof (unfold_locales, goal_cases)
  case (1 s m s' out)
  then show ?case by (rule hub_stays)
next
  case (2 s m s' out x)
  then show ?case using hub_known_kept [OF 2(1,3)] by (auto simp: knows_block_known)
next
  case (3 s m s' out x k)
  then show ?case by (intro hub_announces_block)
next
  case (4 s k x s' out)
  then show ?case by (auto simp: hub_acts_def announce_block_def to_peer_def split: if_splits)
next
  case (7 s k x s' out)
  then show ?case by (simp add: hub_serves_block)
next
  case (8 s k p s' out x)
  then obtain n b where p: "p = GetBlockResponse n b" "block_id env b = x" by (cases p) auto
  then obtain now r where "new_block env now s (Some n) b = Some (Inr r, s')" using 8(2) by (auto simp: hub_acts_def)
  from new_block_effect(1) [OF _ _ this] 8(1) p show ?case by (auto simp: hub_good_def knows_block_known)
qed simp_all

section \<open>Transactions are spread\<close>

text \<open>A transaction a hub holds, or has in a valid block.\<close>

definition settled :: "('sk, 'z) codec_scheme \<Rightarrow> ('n, 'st) hub \<Rightarrow> TransactionId \<Rightarrow> bool" where
  "settled c s t \<longleftrightarrow> t |\<in>| fmdom (mempool s) \<or> (\<exists>i b. fmlookup (valid_blocks s) i = Some b \<and> has_txn c t b)"

text \<open>What a message does to the pool of transactions.\<close>

lemma pool_effect:
  assumes "hub_good env s" "handle env now s m = Some (Inr r, s')"
  obtains (block) "annoucements s' = annoucements s" "\<And>t. t |\<in>| fmdom (mempool s') \<Longrightarrow> t |\<in>| fmdom (mempool s)"
      "\<And>t. settled env s t \<Longrightarrow> settled env s' t" "\<forall>x. m \<noteq> NewTransaction x"
        "\<forall>n t. m \<noteq> AnnounceTransaction n t"
    | (announce) n t where "m = AnnounceTransaction n t" "\<not> knows_transaction s t" "same_blocks s s'" "mempool s' = mempool s"
        "annoucements s' = fmupd t n (annoucements s)"
    | (pooled) x where "m = NewTransaction x" "txn_id env x |\<notin>| fmdom (mempool s)" "same_blocks s s'"
        "mempool s' = fmupd (txn_id env x) x (mempool s)" "annoucements s' = fmdrop (txn_id env x) (annoucements s)"
    | (same) "same_blocks s s'" "same_pool s s'"
        "\<And>x. m = NewTransaction x \<Longrightarrow> txn_id env x |\<in>| fmdom (mempool s)" "\<And>n t. m = AnnounceTransaction n t \<Longrightarrow> knows_transaction s t"
proof -
  consider (blk) node b where "m = NewBlock node b" | (ann) n t where "m = AnnounceTransaction n t"
    | (txn) x where "m = NewTransaction x" | (other) "\<forall>node b. m \<noteq> NewBlock node b" "\<forall>x. m \<noteq> NewTransaction x"
      "\<forall>n t. m \<noteq> AnnounceTransaction n t" by blast
  then show thesis
  proof cases
    case blk
    then have "new_block env now s node b = Some (Inr r, s')" using assms(2) by simp
    from new_block_effect(2,3) [OF _ _ this] assms(1) obtain ids where ids: "annoucements s' = annoucements s"
      "adds_blocks (valid_blocks s) ids (valid_blocks s')"
      "\<And>t. fmlookup (mempool s') t = (if mined_in env (valid_blocks s') ids t then None else fmlookup (mempool s) t)"
      by (auto simp: hub_good_def)
    have "settled env s' t" if "settled env s t" for t
    proof (cases "mined_in env (valid_blocks s') ids t")
      case True
      then show ?thesis unfolding mined_in_def settled_def has_txn_def by auto
    next
      case False
      then have "fmlookup (mempool s') t = fmlookup (mempool s) t" using ids(3) by simp
      then show ?thesis using that adds_blocks_kept [OF ids(2)] unfolding settled_def fmlookup_dom_iff by metis
    qed
    with ids blk show thesis by (intro block) (auto simp: fmlookup_dom_iff split: if_splits)
  next
    case ann
    then have "announce_transaction env s n t = Some (Inr r, s')" using assms(2) by simp
    from announce_transaction_streams [OF this] show thesis
    proof (elim disjE conjE)
      assume "knows_transaction s t" "s' = s"
      then show thesis using ann by (intro same) (simp_all add: same_blocks_def same_pool_def)
    next
      assume "\<not> knows_transaction s t" "same_but_streams (s\<lparr>annoucements := fmupd t n (annoucements s)\<rparr>) s'"
      with streams_same [OF this(2)] ann show thesis by (intro announce) (simp_all add: same_blocks_def same_pool_def)
    qed
  next
    case txn
    show thesis
    proof (cases "txn_id env x |\<in>| fmdom (mempool s)")
      case True
      then show thesis using assms(2) txn by (intro same) (auto simp: new_transaction_known same_blocks_def same_pool_def)
    next
      case False
      then obtain s1 where s1: "same_but_streams (s\<lparr>mempool := fmupd (txn_id env x) x (mempool s)\<rparr>) s1"
        "s' = s1\<lparr>annoucements := fmdrop (txn_id env x) (annoucements s1)\<rparr>"
        using new_transaction_streams [of env s x r s'] assms(2) txn by auto
      with streams_same [OF s1(1)] txn False show thesis by (intro pooled) (simp_all add: same_blocks_def same_pool_def)
    qed
  next
    case other
    then show thesis using handle_same_blocks [OF assms(2)] handle_same_pool [OF assms(2)] by (intro same) auto
  qed
qed

lemma hub_serves_transaction:
  assumes "hub_good env s" "hub_acts env s (GetTransaction k t) s' out"
  shows "\<exists>p \<in> set (out k). answers_transaction env p t"
proof -
  obtain x where x: "fmlookup (mempool s) t = Some x"
    using assms(2) by (cases "fmlookup (mempool s) t") (auto simp: hub_acts_def get_transaction_def)
  then have "txn_id env x = t" using assms(1) by (auto simp: hub_good_def hub_inv_def mempool_inv_def)
  then show ?thesis using assms(2) x by (auto simp: hub_acts_def to_peer_def)
qed

lemma answers_transaction_cast:
  "answers_transaction c p t \<Longrightarrow> m = peer_cast i p \<Longrightarrow> \<exists>x. m = NewTransaction x \<and> txn_id c x = t"
  by (cases p) auto

interpretation transactions_spread: gossip "hub_acts env" peer_cast "hub_may env" "hub_good env" local_node_id neighbours_of
    "\<lambda>s t. t |\<in>| fmdom (mempool s)" "settled env" "\<lambda>s t. fmlookup (annoucements s) t"
    "\<lambda>t. Broadcast (BroadcastTransaction t)" GetTransactionRequest "answers_transaction env" for env
proof (unfold_locales, goal_cases)
  case (1 s m s' out)
  then show ?case by (rule hub_stays)
next
  case (2 s m s' out t)
  then obtain now r where h: "handle env now s m = Some (Inr r, s')" by (auto simp: hub_acts_def)
  from 2(1) h show ?case
    by (cases rule: pool_effect) (use 2(4) in \<open>auto simp: settled_def same_blocks_def same_pool_def\<close>)
next
  case (3 s m s' out t k)
  then obtain now r where h: "handle env now s m = Some (Inr r, s')" "out = outgoing env now s m" by (auto simp: hub_acts_def)
  from 3(1) h(1) show ?case
  proof (cases rule: pool_effect)
    case (pooled x)
    then have "t = txn_id env x" using 3(4,5) by auto
    then show ?thesis using h(2) pooled(1,2) 3(6,7) by (simp add: to_all_def neighbours_of_def)
  qed (use 3(4,5) in \<open>auto simp: same_pool_def\<close>)
next
  case (4 s k t s' out)
  then obtain now r where h: "handle env now s (AnnounceTransaction k t) = Some (Inr r, s')"
    "out = outgoing env now s (AnnounceTransaction k t)" by (auto simp: hub_acts_def)
  from 4(1) h(1) show ?case
  proof (cases rule: pool_effect)
    case same
    then have "knows_transaction s t" by blast
    then show ?thesis using same(2) by (auto simp: knows_transaction_def settled_def same_pool_def fmlookup_dom_iff)
  qed simp_all
next
  case (5 s m s' out t)
  then obtain now r where h: "handle env now s m = Some (Inr r, s')" by (auto simp: hub_acts_def)
  from 5(1) h show ?case
    by (cases rule: pool_effect) (use 5(4) in \<open>auto simp: settled_def same_pool_def split: if_splits\<close>)
next
  case (6 s m s' out t k)
  then obtain now r where h: "handle env now s m = Some (Inr r, s')" "out = outgoing env now s m" by (auto simp: hub_acts_def)
  from 6(1) h(1) show ?case
  proof (cases rule: pool_effect)
    case block
    then show ?thesis using 6(4) by (auto dest: answers_transaction_cast)
  next
    case (announce n u)
    then show ?thesis using 6(4) h(2) by (auto simp: to_peer_def dest: answers_transaction_cast split: if_splits)
  next
    case (pooled x)
    then show ?thesis using 6(4) by (auto dest: answers_transaction_cast split: if_splits)
  next
    case same
    have "\<not> (\<exists>i p. answers_transaction env p t \<and> m = peer_cast i p)"
    proof
      assume "\<exists>i p. answers_transaction env p t \<and> m = peer_cast i p"
      then obtain x where "m = NewTransaction x" "txn_id env x = t" by (auto dest: answers_transaction_cast)
      then have "t |\<in>| fmdom (mempool s)" using same(3) by blast
      moreover have "t |\<in>| fmdom (annoucements s)" using 6(4) same(2) by (simp add: same_pool_def fmdomI)
      ultimately show False using 6(1) by (simp add: hub_good_def)
    qed
    then show ?thesis using 6(4) same(2) by (simp add: same_pool_def)
  qed
next
  case (7 s k t s' out)
  then show ?case by (simp add: hub_serves_transaction)
next
  case (8 s k p s' out t)
  then obtain x where x: "p = GetTransactionResponse x" "txn_id env x = t" by (cases p) auto
  obtain now r where h: "handle env now s (NewTransaction x) = Some (Inr r, s')" using 8(2) x by (auto simp: hub_acts_def)
  from 8(1) h show ?case
    by (cases rule: pool_effect) (use x in \<open>auto simp: settled_def same_pool_def\<close>)
qed

end
