(* ===== verification/Miner_Main.thy ===== *)
theory Miner_Main
  imports Miner_Loop Test_Runs Convergence
begin

text \<open>
  The program \<open>src/src/bin/miner.rs\<close> from its start, and its test \<open>test_single_node\<close>: a second node makes two
  transfers with the miner's key and expects both to be mined. What the second node handles between
  its queries is an argument, as in theory Test_Runs.
\<close>

section \<open>The miner from its start\<close>

record 'sk MinerConfig =
  config_signing_key :: 'sk
  config_miner :: CoinAddress
  peerhub_config :: Config

definition MinerConfig_new :: "'sk \<Rightarrow> CoinAddress \<Rightarrow> Config \<Rightarrow> 'sk MinerConfig" where
  "MinerConfig_new signing_key own config =
     \<lparr>config_signing_key = signing_key, config_miner = own, peerhub_config = config\<rparr>"

datatype miner_error = HubNotStarted start_error | RoundEnded round_error

text \<open>\<open>test_util\<close> is the feature of that name. The result is what the rounds seen so far have cast, or the
  error that ended the loop; the hub is the state they leave.\<close>

definition MinerConfig_run ::
    "bool \<Rightarrow> ('key, 'svc, 'disc, 'ep, 'items, 'n, 'st, 'h, 'z) runtime_scheme \<Rightarrow> ('sk, 'n::linorder, 'st) hub_env \<Rightarrow>
     'key \<Rightarrow> 'sk MinerConfig \<Rightarrow> ('n, 'st) miner_round list \<Rightarrow>
     ((miner_error + Block list) \<times> ('n, 'st) hub option) option" where
  "MinerConfig_run test_util rt env key self rounds = do {
     r \<leftarrow> (if test_util then run_with_local_discovery rt env (peerhub_config self) key
          else run_config rt env (peerhub_config self) key);
     (case r of
        Inl e \<Rightarrow> Some (Inl (HubNotStarted e), None)
      | Inr node \<Rightarrow>
          map_option (\<lambda>(r, s). (map_sum RoundEnded id r, Some s))
            (miner_run env (peerhub_config self) (config_signing_key self) (config_miner self) rounds (hub_actor node))) }"

definition miner_main ::
    "bool \<Rightarrow> ('key, 'svc, 'disc, 'ep, 'items, 'n, 'st, 'h, 'z) runtime_scheme \<Rightarrow> ('sk, 'n::linorder, 'st) hub_env \<Rightarrow>
     'key \<Rightarrow> 'sk \<Rightarrow> ('n, 'st) miner_round list \<Rightarrow> ((miner_error + Block list) \<times> ('n, 'st) hub option) option" where
  "miner_main test_util rt env key signing_key rounds =
     MinerConfig_run test_util rt env key
       (MinerConfig_new signing_key \<lparr>pub_key = verifying_key env signing_key\<rparr> default_config) rounds"

section \<open>The test of the miner\<close>

text \<open>What a transfer draws: the order in which the replied cash is iterated, the key of the receiver, two identifiers.\<close>

type_synonym 'sk transfer_seed = "(Cash fset \<Rightarrow> Cash list) \<times> 'sk \<times> Uuid \<times> Uuid"

text \<open>The hub handles \<open>before\<close> until the transfer asks for the cash, and \<open>between\<close> until it gets the transaction.\<close>

definition test_transfer ::
    "('sk, 'n::linorder, 'st) hub_env \<Rightarrow> 'sk \<Rightarrow> u64 \<Rightarrow> 'sk transfer_seed \<Rightarrow>
     (Timestamp \<times> ('n, 'st) PeerHubActorMessage) list \<Rightarrow> (Timestamp \<times> ('n, 'st) PeerHubActorMessage) list \<Rightarrow>
     ('n, 'st) hub \<Rightarrow> (TransactionId \<times> ('n, 'st) hub) option" where
  "test_transfer env signing_key a seed before between s =
     (case seed of (cash_order, receiver_key, uuid1, uuid2) \<Rightarrow> do {
        (stopped, s) \<leftarrow> serve env s before;
        (if stopped \<noteq> None then None
         else do {
           (r, s) \<leftarrow> new_transfer env cash_order s signing_key (random_address env receiver_key) a a uuid1 uuid2;
           (case r of
              Inl _ \<Rightarrow> None
            | Inr (t, msg) \<Rightarrow> do {
                (stopped, s) \<leftarrow> serve env s (between @ [(0, msg)]);
                (if stopped \<noteq> None then None else Some (t, s)) }) }) })"

text \<open>Queries are counted through: \<open>later k\<close> is handled before query \<open>k\<close>, \<open>between k\<close> within it.\<close>

definition test_single_node ::
    "('key, 'svc, 'disc, 'ep, 'items, 'n, 'st, 'h, 'z) runtime_scheme \<Rightarrow> ('sk, 'n::linorder, 'st) hub_env \<Rightarrow> 'key \<Rightarrow>
     Config \<Rightarrow> 'sk \<Rightarrow> 'sk transfer_seed \<Rightarrow> 'sk transfer_seed \<Rightarrow> ('n, 'st) polled \<Rightarrow> ('n, 'st) polled \<Rightarrow> unit option" where
  "test_single_node rt env key config signing_key seed0 seed1 later between = do {
     node \<leftarrow> unwrap (run_config rt env config key);
     (_, k, s) \<leftarrow> poll_leader env later between (\<lambda>b. 0 < seqno b) 0 (hub_actor node);
     let fourth_of_subsidy = initial_block_subsidy config div 4;
     (txn_id0, s) \<leftarrow> test_transfer env signing_key fourth_of_subsidy seed0 (later k) (between k) s;
     (txn_id1, s) \<leftarrow> test_transfer env signing_key fourth_of_subsidy seed1 (later (k + 1)) (between (k + 1)) s;
     (initial, k, s) \<leftarrow> poll_leader env later between (\<lambda>b. True) (k + 2) s;
     (_, k, s) \<leftarrow> poll_leader env later between (\<lambda>b. seqno initial < seqno b) k s;
     (depth0, s) \<leftarrow> call_after env 0 (later k) s (QueryTransactionDepth txn_id0 True) depth_of;
     (depth1, s) \<leftarrow> call_after env 0 (later (k + 1)) s (QueryTransactionDepth txn_id1 True) depth_of;
     (case (depth0, depth1) of
        (Inr (Some _), Inr (Some _)) \<Rightarrow> Some ()
      | _ \<Rightarrow> None) }"

section \<open>Two transfers in a row\<close>

text \<open>The cash a client is told of: what the leading branch has not spent, and what was in the set before and the
  branch does not mention. Only a block can change it.\<close>

definition leading_cash :: "('n, 'st) hub \<Rightarrow> Cash set" where
  "leading_cash s = (let br = branch (valid_blocks s) (leading_block s)
     in fset (unspent br) \<union> (fset (cs_set (cash_set s)) - touched br))"

lemma query_leading_cash_is:
  assumes "hub_inv env s" "query_leading_cash env s = Some (S, s1)"
  shows "fset S = leading_cash s" "s1 = with_cash S s"
  using query_leading_cash_spec [OF assms(1)] assms(2) by (auto simp: leading_cash_def Let_def)

lemma query_keeps_inv:
  fixes env :: "('sk, 'n::linorder, 'st) hub_env"
  assumes "env_ok env" "hub_inv env s" "query_leading_cash env s = Some (S, s1)"
  shows "hub_inv env s1"
  using handle_inv [OF assms(1,2), where msg = "QueryLeadingCashSet True" and r = "Inr (Some (CashSetReply S))" and s' = s1]
  by (simp add: assms(3) send_reply_def)

lemma query_keeps_leading_cash:
  "hub_inv env s \<Longrightarrow> query_leading_cash env s = Some (S, s1) \<Longrightarrow> leading_cash s1 = leading_cash s"
  using query_leading_cash_is [of env s S s1] by (auto simp: leading_cash_def Let_def)

lemma streams_leading_cash: "same_but_streams s s' \<Longrightarrow> leading_cash s' = leading_cash s"
  unfolding same_but_streams_def by (elim exE conjE) (simp add: leading_cash_def)

lemma handle_leading_cash:
  assumes inv: "hub_inv env s" and h: "handle env now s m = Some (Inr r, s')" and m: "\<forall>node b. m \<noteq> NewBlock node b"
  shows "leading_cash s' = leading_cash s"
proof -
  have other: "leading_cash (s\<lparr>annoucements := A\<rparr>) = leading_cash s" "leading_cash (s\<lparr>mempool := M\<rparr>) = leading_cash s"
    "leading_cash (s\<lparr>peers := P\<rparr>) = leading_cash s" for A M P s by (simp_all add: leading_cash_def)
  consider (writes) "only_writes m" | (peer) n st c p where "m = NewPeer n st c p"
    | (announce) n t where "m = AnnounceTransaction n t" | (txn) x where "m = NewTransaction x"
    | (cash) p where "m = QueryLeadingCashSet p" using m by (cases m) auto
  then show ?thesis
  proof cases
    case writes
    then show ?thesis using streams_leading_cash [OF only_writes_streams [OF h]] by blast
  next
    case announce
    then show ?thesis using announce_transaction_streams [of env s n t "Inr r" s'] h
      by (auto simp: other dest: streams_leading_cash)
  next
    case txn
    show ?thesis
    proof (cases "txn_id env x |\<in>| fmdom (mempool s)")
      case False
      then show ?thesis using new_transaction_streams [of env s x r s'] h txn
        by (auto simp: other dest: streams_leading_cash)
    qed (use h txn in \<open>simp add: new_transaction_known\<close>)
  next
    case cash
    then show ?thesis using h query_keeps_leading_cash [OF inv] by auto
  qed (use h in \<open>auto simp: new_peer_def other split: if_splits\<close>)
qed

lemma handle_all_leading_cash:
  "env_ok env \<Longrightarrow> hub_inv env s \<Longrightarrow> list_all (\<lambda>(now, m). message_ok env m \<and> (\<forall>node b. m \<noteq> NewBlock node b)) ms \<Longrightarrow>
   handle_all env s ms = Some s' \<Longrightarrow> hub_inv env s' \<and> leading_cash s' = leading_cash s"
proof (induction ms arbitrary: s)
  case (Cons p ms)
  obtain now m where p: "p = (now, m)" by force
  obtain r s1 where h: "handle env now s m = Some (Inr r, s1)" "handle_all env s1 ms = Some s'"
    using Cons.prems(4) p by (auto simp del: handle.simps split: option.splits sum.splits)
  have "message_ok env m" "\<forall>node b. m \<noteq> NewBlock node b" using Cons.prems(3) p by auto
  then show ?case
    using Cons.IH [OF Cons.prems(1) handle_inv [OF Cons.prems(1,2) _ h(1)] _ h(2)] Cons.prems(3)
      handle_leading_cash [OF Cons.prems(2) h(1)] by simp
qed simp

text \<open>A sender with one piece of cash spends it.\<close>

lemma select_inputs_one:
  "owned sender cs = [c] \<Longrightarrow> select_inputs sender a f [] cs = Some ins \<Longrightarrow> ins = [c]"
proof (induction cs)
  case (Cons x cs)
  show ?case
  proof (cases "owner x = sender")
    case True
    then have x: "x = c" "owned sender cs = []" using Cons.prems(1) by (simp_all add: owned_def)
    have none: "owned sender cs = [] \<Longrightarrow> select_inputs sender a f acc cs = Some acc" for acc
      by (induction cs) (auto simp: owned_def split: if_splits)
    show ?thesis using Cons.prems(2) True x none [OF x(2), of "[c]"] by (auto simp: bind_eq_Some_conv split: if_splits)
  qed (use Cons in \<open>simp add: owned_def\<close>)
qed (simp add: owned_def)

lemma owned_single:
  assumes "distinct cs" "set cs = fset S" "{x \<in> fset S. owner x = sender} = {c}"
  shows "owned sender cs = [c]"
proof -
  have "set (owned sender cs) = {c}" "distinct (owned sender cs)" using assms by (auto simp: owned_def)
  then have "length (owned sender cs) = 1" using distinct_card by fastforce
  then obtain x where "owned sender cs = [x]" by (auto simp: length_Suc_conv)
  with \<open>set (owned sender cs) = {c}\<close> show ?thesis by simp
qed

lemma new_transfer_Inr:
  assumes "new_transfer env cash_order s signer receiver a f u1 u2 = Some (Inr (t, m), s1)"
  shows "\<exists>S x. query_leading_cash env s = Some (S, s1) \<and>
    build_transfer env (cash_order S) signer receiver a f u1 u2 = Some (Inr x) \<and> t = txn_id env x \<and> m = NewTransaction x"
  using assms by (auto simp: new_transfer_def map_sum_Inr)

lemma build_transfer_one:
  assumes "build_transfer c cs signer receiver a f u1 u2 = Some (Inr t)" "owned (from_signer c signer) cs = [x]"
  shows "inputs t = [x]"
proof -
  obtain ins where "select_inputs (from_signer c signer) a f [] cs = Some ins" "inputs t = ins"
    using assms(1) by (auto simp: build_transfer_def Let_def map_sum_Inr Transaction_new_Inr inputs_def split: if_splits)
  with select_inputs_one [OF assms(2)] show ?thesis by simp
qed

text \<open>So a transfer by such a sender has this one input.\<close>

lemma transfer_spends_one:
  assumes "hub_inv env s" "new_transfer env cash_order s signer receiver a f u1 u2 = Some (Inr (t, m), s1)"
    and "{x \<in> leading_cash s. owner x = from_signer env signer} = {c}"
    and "\<And>S. fset S = leading_cash s \<Longrightarrow> distinct (cash_order S) \<and> set (cash_order S) = fset S"
  shows "\<exists>x. m = NewTransaction x \<and> inputs x = [c]"
proof -
  obtain S x where S: "query_leading_cash env s = Some (S, s1)" and x: "m = NewTransaction x"
    "build_transfer env (cash_order S) signer receiver a f u1 u2 = Some (Inr x)"
    using new_transfer_Inr [OF assms(2)] by blast
  note cash = query_leading_cash_is(1) [OF assms(1) S]
  have "owned (from_signer env signer) (cash_order S) = [c]"
    by (rule owned_single [where S = S]) (use assms(3,4) cash in auto)
  from build_transfer_one [OF x(2) this] x(1) show ?thesis by blast
qed

end
