(* ===== verification/Transfer_Properties.thy ===== *)
theory Transfer_Properties
  imports Miner_Main Sample_Network
begin

text \<open>
  Property of transfers that follow one another, applied to the sample hub.
\<close>

text \<open>C29: A transfer does not see the ones before it: a sender that owns one piece of cash spends it again with
  each transfer it makes until the next block, whatever else the hub handles, the transaction of the first transfer
  included. (The hub pools both, and of the second one nothing is left once a block has the first alone.)\<close>

theorem transfers_reuse_cash:
  assumes "env_ok env" "hub_inv env s" "{x \<in> leading_cash s. owner x = from_signer env sk} = {c}"
    and "\<And>S. fset S = leading_cash s \<Longrightarrow> distinct (order1 S) \<and> set (order1 S) = fset S"
    and "\<And>S. fset S = leading_cash s \<Longrightarrow> distinct (order2 S) \<and> set (order2 S) = fset S"
    and "new_transfer env order1 s sk receiver1 a1 f1 u1 u2 = Some (Inr (t1, m1), s1)"
    and "list_all (\<lambda>(now, m). message_ok env m \<and> (\<forall>node b. m \<noteq> NewBlock node b)) ms" "handle_all env s1 ms = Some s2"
    and "new_transfer env order2 s2 sk receiver2 a2 f2 u3 u4 = Some (Inr (t2, m2), s3)"
  shows "\<exists>x1 x2. m1 = NewTransaction x1 \<and> m2 = NewTransaction x2 \<and> inputs x1 = [c] \<and> inputs x2 = [c]"
proof -
  obtain S where S: "query_leading_cash env s = Some (S, s1)" using new_transfer_Inr [OF assms(6)] by blast
  from handle_all_leading_cash [OF assms(1) query_keeps_inv [OF assms(1,2) S] assms(7,8)]
  have s2: "hub_inv env s2" "leading_cash s2 = leading_cash s" using query_keeps_leading_cash [OF assms(2) S] by simp_all
  obtain x1 where "m1 = NewTransaction x1" "inputs x1 = [c]" using transfer_spends_one [OF assms(2,6,3,4)] by blast
  moreover obtain x2 where "m2 = NewTransaction x2" "inputs x2 = [c]"
    using transfer_spends_one [OF s2(1) assms(9)] assms(3,5) unfolding s2(2) by blast
  ultimately show ?thesis by blast
qed

text \<open>The two transfers of the key of the sample miner from its first reward.\<close>

lemma sample_owners: "owner (reward sample_genesis) \<noteq> from_signer sample_env sample_key"
  "owner (reward sample_block1) = from_signer sample_env sample_key" "amount (reward sample_block1) = 50"
proof -
  have "genesis_key \<noteq> sample_key" by code_simp
  then show "owner (reward sample_genesis) \<noteq> from_signer sample_env sample_key"
    by (simp add: sample_genesis_def Cash_new_def from_signer_def)
qed (simp_all add: sample_block1_def Cash_new_def from_signer_def)

lemma sample_leading_cash: "leading_cash sample_s1 = {reward sample_genesis, reward sample_block1}"
  "{x \<in> leading_cash sample_s1. owner x = from_signer sample_env sample_key} = {reward sample_block1}"
proof -
  show "leading_cash sample_s1 = {reward sample_genesis, reward sample_block1}"
    using sample_branch1 by (auto simp: leading_cash_def Let_def unspent_def apply_block_def touched_def)
  then show "{x \<in> leading_cash sample_s1. owner x = from_signer sample_env sample_key} = {reward sample_block1}"
    using sample_owners by auto
qed

lemma sample_transfer:
  assumes "hub_inv sample_env s" "leading_cash s = leading_cash sample_s1"
    and "Transaction_new sample_env sample_key [reward sample_block1]
      [Cash_new u1 a receiver, Cash_new u2 (50 - a - f) \<lparr>pub_key = sample_key\<rparr>] = Some (Inr x)"
    and "checked_add a f = Some need" "need \<le> 50" "a \<le> 50" "f \<le> 50 - a"
  shows "\<exists>S. new_transfer sample_env (\<lambda>S. [reward sample_genesis, reward sample_block1]) s sample_key receiver a f u1 u2 =
    Some (Inr (txn_id sample_env x, NewTransaction x), with_cash S s)"
proof -
  obtain S where "query_leading_cash sample_env s = Some (S, with_cash S s)" using query_leading_cash_spec [OF assms(1)] by blast
  moreover have "build_transfer sample_env [reward sample_genesis, reward sample_block1] sample_key receiver a f u1 u2 = Some (Inr x)"
    using sample_owners assms(3-7)
    by (simp add: build_transfer_def Let_def checked_sum_def checked_sub_def from_signer_def checked_add_def [of 0]
        not_less del: bind_eq_Some_conv)
  ultimately show ?thesis by (intro exI [of _ S]) (simp add: new_transfer_def)
qed

theorem transfers_reuse_cash_witness:
  "\<exists>s1 s2 s3 x1 x2. new_transfer sample_env (\<lambda>S. [reward sample_genesis, reward sample_block1]) sample_s1 sample_key
      \<lparr>pub_key = [8]\<rparr> 20 5 9 10 = Some (Inr (txn_id sample_env x1, NewTransaction x1), s1) \<and>
    handle_all sample_env s1 [(0, NewTransaction x1)] = Some s2 \<and>
    new_transfer sample_env (\<lambda>S. [reward sample_genesis, reward sample_block1]) s2 sample_key
      \<lparr>pub_key = [9]\<rparr> 30 5 11 12 = Some (Inr (txn_id sample_env x2, NewTransaction x2), s3) \<and>
    x1 \<noteq> x2 \<and> inputs x1 = inputs x2"
proof -
  let ?order = "\<lambda>S. [reward sample_genesis, reward sample_block1]" and ?m = "NewTransaction sample_txn :: (nat, u8 list) PeerHubActorMessage"
  obtain S where t1: "new_transfer sample_env ?order sample_s1 sample_key \<lparr>pub_key = [8]\<rparr> 20 5 9 10 =
      Some (Inr (txn_id sample_env sample_txn, ?m), with_cash S sample_s1)"
    using sample_transfer [OF sample_s1_inv refl, of 9 20 "\<lparr>pub_key = [8]\<rparr>" 10 5 sample_txn 25] sample_txn_new
    by (auto simp: checked_add_def)
  have enc: "enc_message sample_env (Broadcast (BroadcastTransaction (txn_id sample_env sample_txn))) =
      Some (0 # 0 # hash_bytes (txn_id sample_env sample_txn))" by (simp add: sample_message_bytes_def)
  have "txn_id sample_env sample_txn |\<notin>| fmdom (mempool (with_cash S sample_s1))" by (simp add: with_cash_def)
  from new_transaction_new [OF sample_orders_ok reliable_writes_ok [OF sample_reliable] enc this]
  obtain s2 where s2: "new_transaction sample_env (with_cash S sample_s1) sample_txn = Some (Inr None, s2)" by blast
  then have all: "handle_all sample_env (with_cash S sample_s1) [(0, ?m)] = Some s2" by simp
  have ok: "list_all (\<lambda>(now, m). message_ok sample_env m \<and> (\<forall>node b. m \<noteq> NewBlock node b)) [(0, ?m)]"
    using sample_txn_valid by simp
  obtain r where q: "query_leading_cash sample_env sample_s1 = Some (r, with_cash S sample_s1)"
    using new_transfer_Inr [OF t1] by blast
  from handle_all_leading_cash [OF sample_env_ok query_keeps_inv [OF sample_env_ok sample_s1_inv q] ok all]
  have inv2: "hub_inv sample_env s2" "leading_cash s2 = leading_cash sample_s1"
    using query_keeps_leading_cash [OF sample_s1_inv q] by simp_all
  obtain S2 where t2: "new_transfer sample_env ?order s2 sample_key \<lparr>pub_key = [9]\<rparr> 30 5 11 12 =
      Some (Inr (txn_id sample_env other_txn, NewTransaction other_txn), with_cash S2 s2)"
    using sample_transfer [OF inv2, of 11 30 "\<lparr>pub_key = [9]\<rparr>" 12 5 other_txn 35] other_txn_new
    by (auto simp: checked_add_def)
  have order: "distinct (?order S) \<and> set (?order S) = fset S" if "fset S = leading_cash sample_s1" for S
    using that by (simp add: sample_leading_cash(1)) (simp add: sample_genesis_def sample_block1_def Cash_new_def)
  have "inputs sample_txn = [reward sample_block1] \<and> inputs other_txn = [reward sample_block1]"
    using transfers_reuse_cash [OF sample_env_ok sample_s1_inv sample_leading_cash(2) order order t1 ok all t2] by simp
  moreover have "sample_txn \<noteq> other_txn" using double_txns(4,5) by (auto simp: Cash_new_def)
  ultimately show ?thesis using t1 all t2 by fastforce
qed

end
