(* ===== verification/Display.thy ===== *)
theory Display
  imports Peer_Hub
begin

text \<open>
  The texts that the code prints and logs: the \<open>Display\<close> implementations of \<open>src/src/util.rs\<close>,
  \<open>transaction.rs\<close>, \<open>block.rs\<close>, \<open>peer.rs\<close> and \<open>peerhub.rs\<close>, with the derived \<open>Debug\<close> of cash they use. A
  text is the list of its bytes. The texts of identifiers of other packages (\<open>Uuid\<close>, \<open>NodeId\<close>) are the
  functions of the record \<open>printers\<close>.
\<close>

type_synonym printed = "u8 list"

record 'n printers =
  uuid_text :: "Uuid \<Rightarrow> printed"
  uuid_debug :: "Uuid \<Rightarrow> printed"
  node_text :: "'n \<Rightarrow> printed"

section \<open>Numbers, hashes and addresses\<close>

abbreviation lit :: "string \<Rightarrow> printed" where "lit \<equiv> bytes_of_string"

text \<open>Unsigned integers in decimal.\<close>

fun fmt_dec :: "nat \<Rightarrow> printed" where
  "fmt_dec n = (if n < 10 then [48 + of_nat n] else fmt_dec (n div 10) @ [48 + of_nat (n mod 10)])"

declare fmt_dec.simps [simp del]

definition fmt_hash :: "Sha256Hash \<Rightarrow> printed" where
  "fmt_hash h = fmt_hex (hash_bytes h)"

definition fmt_difficulty :: "Difficulty \<Rightarrow> printed" where
  "fmt_difficulty d = fmt_hex (to_be_bytes 32 (target d))"

definition fmt_address :: "CoinAddress \<Rightarrow> printed" where
  "fmt_address a = fmt_hex (pub_key a)"

definition fmt_signature :: "Signature \<Rightarrow> printed" where
  "fmt_signature s = fmt_hex (sig_bytes s)"

section \<open>Cash, transactions and blocks\<close>

definition fmt_cash :: "('n, 'z) printers_scheme \<Rightarrow> Cash \<Rightarrow> printed" where
  "fmt_cash p c =
     lit ''Cash { id: '' @ uuid_text p (cash_id c) @ lit '', amount: '' @ fmt_dec (unat (amount c)) @
     lit '', owner: '' @ fmt_address (owner c) @ lit '' }''"

text \<open>The derived \<open>Debug\<close>: a slice in brackets, a struct with the names of its fields.\<close>

fun debug_items :: "('a \<Rightarrow> printed) \<Rightarrow> 'a list \<Rightarrow> printed" where
  "debug_items f [] = []"
| "debug_items f [x] = f x"
| "debug_items f (x # y # xs) = f x @ lit '', '' @ debug_items f (y # xs)"

definition debug_list :: "('a \<Rightarrow> printed) \<Rightarrow> 'a list \<Rightarrow> printed" where
  "debug_list f xs = lit ''['' @ debug_items f xs @ lit '']''"

definition debug_address :: "CoinAddress \<Rightarrow> printed" where
  "debug_address a =
     lit ''CoinAddress { pub_key: '' @ debug_list (\<lambda>b. fmt_dec (unat b)) (pub_key a) @ lit '' }''"

definition debug_cash :: "('n, 'z) printers_scheme \<Rightarrow> Cash \<Rightarrow> printed" where
  "debug_cash p c =
     lit ''Cash { id: '' @ uuid_debug p (cash_id c) @ lit '', amount: '' @ fmt_dec (unat (amount c)) @
     lit '', owner: '' @ debug_address (owner c) @ lit '' }''"

definition fmt_transaction :: "('sk, 'z) crypto_scheme \<Rightarrow> ('n, 'y) printers_scheme \<Rightarrow> Transaction \<Rightarrow> printed" where
  "fmt_transaction c p t =
     lit ''Transaction: id: '' @ fmt_hash (txn_id c t) @ lit '', inputs: '' @ debug_list (debug_cash p) (inputs t) @
     lit '', outputs: '' @ debug_list (debug_cash p) (outputs t)"

text \<open>The loops that print a list of identifiers write a separator after each.\<close>

fun fmt_ids :: "Sha256Hash list \<Rightarrow> printed" where
  "fmt_ids [] = []"
| "fmt_ids (i # is) = fmt_hash i @ lit '', '' @ fmt_ids is"

definition fmt_block :: "('sk, 'z) codec_scheme \<Rightarrow> ('n, 'y) printers_scheme \<Rightarrow> Block \<Rightarrow> printed" where
  "fmt_block c p b =
     lit ''Block: seqno: '' @ fmt_dec (unat (seqno b)) @ lit '', difficulty: '' @ fmt_difficulty (difficulty b) @
     lit '', id: '' @ fmt_hash (block_id c b) @ lit '', prev_id: '' @ fmt_hash (prev_id b) @
     lit '', miner: '' @ fmt_address (miner b) @ lit '', timestamp: '' @ fmt_dec (unat (timestamp b)) @
     lit '', nouce: '' @ fmt_dec (unat (bi_nonce (blk_inner b))) @ lit '', reward: '' @ fmt_cash p (reward b) @
     lit '', '' @ lit '', transactions: '' @ lit ''['' @ fmt_ids (map (txn_id c) (transactions b)) @ lit '']''"

definition fmt_validation_error :: "BlockValidationError \<Rightarrow> printed" where
  "fmt_validation_error e =
     (case e of
        BlockSizeExceeded \<Rightarrow> lit ''Block size exceeded''
      | MinerNotMatchSigner \<Rightarrow> lit ''Miner not match signer''
      | InvalidNonce \<Rightarrow> lit ''Invalid nonce'')"

section \<open>Messages\<close>

definition fmt_broadcast :: "BroadcastMessage \<Rightarrow> printed" where
  "fmt_broadcast m =
     (case m of
        BroadcastTransaction t \<Rightarrow> lit ''AnnounceTransaction('' @ fmt_hash t @ lit '')''
      | BroadcastBlock i \<Rightarrow> lit ''AnnounceBlock('' @ fmt_hash i @ lit '')'')"

definition fmt_peer_message ::
    "('sk, 'z) codec_scheme \<Rightarrow> ('n, 'y) printers_scheme \<Rightarrow> 'n PeerMessage \<Rightarrow> printed" where
  "fmt_peer_message c p m =
     (case m of
        Broadcast msg \<Rightarrow> lit ''Broadcast('' @ fmt_broadcast msg @ lit '')''
      | GetTransactionRequest t \<Rightarrow> lit ''GetTransactionRequest('' @ fmt_hash t @ lit '')''
      | GetTransactionResponse txn \<Rightarrow> lit ''GetTransactionResponse('' @ fmt_transaction c p txn @ lit '')''
      | GetBlockRequest i \<Rightarrow> lit ''GetBlockRequest('' @ fmt_hash i @ lit '')''
      | GetBlockResponse n b \<Rightarrow>
          lit ''GetBlockResponse('' @ node_text p n @ lit '', '' @ fmt_block c p b @ lit '')'')"

definition fmt_message ::
    "('sk, 'z) codec_scheme \<Rightarrow> ('n, 'y) printers_scheme \<Rightarrow> ('n, 'st) PeerHubActorMessage \<Rightarrow> printed" where
  "fmt_message c p m =
     (case m of
        ShouldConnect n _ \<Rightarrow> lit ''ShouldConnect('' @ node_text p n @ lit '')''
      | NewPeer n _ _ _ \<Rightarrow> lit ''NewPeer('' @ node_text p n @ lit '')''
      | AnnounceTransaction n t \<Rightarrow>
          lit ''AnnounceTransaction('' @ node_text p n @ lit '', '' @ fmt_hash t @ lit '')''
      | GetTransaction n t \<Rightarrow> lit ''GetTransaction('' @ node_text p n @ lit '', '' @ fmt_hash t @ lit '')''
      | NewTransaction txn \<Rightarrow> lit ''NewTransaction('' @ fmt_transaction c p txn @ lit '')''
      | QueryTransaction t _ \<Rightarrow> lit ''QueryTransaction('' @ fmt_hash t @ lit '')''
      | QueryPeers _ \<Rightarrow> lit ''QueryPeers''
      | AnnounceBlock n i \<Rightarrow> lit ''AnnounceBlock('' @ node_text p n @ lit '', '' @ fmt_hash i @ lit '')''
      | GetBlock n i \<Rightarrow> lit ''GetBlock('' @ node_text p n @ lit '', '' @ fmt_hash i @ lit '')''
      | NewBlock node b \<Rightarrow>
          (case node of
             Some n \<Rightarrow> lit ''NewBlock('' @ node_text p n @ lit '', '' @ fmt_block c p b @ lit '')''
           | None \<Rightarrow> lit ''NewBlock(self, '' @ fmt_block c p b @ lit '')'')
      | QueryBlock i _ \<Rightarrow> lit ''QueryBlock('' @ fmt_hash i @ lit '')''
      | QueryLocalNodeId _ \<Rightarrow> lit ''QueryLocalNodeId''
      | QueryMemPool _ \<Rightarrow> lit ''QueryMemPool''
      | QueryTransactions ts _ \<Rightarrow> lit ''QueryTransactions(['' @ fmt_ids ts @ lit ''])''
      | QueryLeadingBlock _ \<Rightarrow> lit ''QueryLeadingBlock''
      | QueryTransactionDepth t _ \<Rightarrow> lit ''QueryTransactionDepth('' @ fmt_hash t @ lit '')''
      | QueryTransactionDepths ts _ \<Rightarrow> lit ''QueryTransactionDepths(['' @ fmt_ids ts @ lit ''])''
      | QueryDifficultyAdjustTime n _ \<Rightarrow> lit ''QueryDifficultyAdjustTime('' @ fmt_dec (unat n) @ lit '')''
      | QueryLeadingCashSet _ \<Rightarrow> lit ''QueryLeadingCashSet'')"

section \<open>Reading a text\<close>

text \<open>The characters that end a field, and texts that begin with one.\<close>

definition delimiters :: "char set" where
  "delimiters = {CHR '','', CHR '' '', CHR ''('', CHR '')'', CHR ''['', CHR '']'', CHR ''}''}"

definition ends :: "printed \<Rightarrow> bool" where
  "ends r \<longleftrightarrow> r \<noteq> [] \<and> hd r \<in> of_char ` delimiters"

definition plain :: "printed \<Rightarrow> bool" where
  "plain t \<longleftrightarrow> set t \<inter> of_char ` delimiters = {}"

text \<open>A printed value can be read off a longer text, if a delimiter follows.\<close>

definition readable :: "('a \<Rightarrow> printed) \<Rightarrow> bool" where
  "readable f \<longleftrightarrow> (\<forall>x y r r'. ends r \<longrightarrow> ends r' \<longrightarrow> f x @ r = f y @ r' \<longrightarrow> x = y \<and> r = r')"

named_theorems reading "how a printed text splits into its fields"

lemma readable_eq [reading]:
  "readable f \<Longrightarrow> ends r \<Longrightarrow> ends r' \<Longrightarrow> f x @ r = f y @ r' \<longleftrightarrow> x = y \<and> r = r'"
  unfolding readable_def by blast

lemma of_char_inj [reading]: "(of_char c :: u8) = of_char d \<longleftrightarrow> c = d"
proof -
  have "unat (of_char c :: u8) = of_char c" for c
    using of_nat_of_char [of c, where 'a = "8 word", symmetric] nat_of_char_less_256 [of c]
    by (simp add: unat_of_nat take_bit_eq_mod)
  then show ?thesis by (metis of_char_eq_iff)
qed

lemma readable_inj [reading]:
  assumes "readable f"
  shows "f x = f y \<longleftrightarrow> x = y"
proof
  assume "f x = f y"
  moreover have "ends [of_char CHR '','']" by (auto simp: ends_def delimiters_def)
  ultimately show "x = y" using assms unfolding readable_def by metis
qed simp

lemma lit_Cons [reading]: "bytes_of_string (c # cs) = of_char c # bytes_of_string cs" "bytes_of_string [] = []"
  by (simp_all add: bytes_of_string_def)

lemma ends_Cons [reading]: "ends (of_char c # r) \<longleftrightarrow> c \<in> delimiters"
  by (auto simp: ends_def of_char_inj)

lemma is_delimiter [reading]:
  "CHR '','' \<in> delimiters" "CHR '')'' \<in> delimiters" "CHR '']'' \<in> delimiters" "CHR '' '' \<in> delimiters"
  by (simp_all add: delimiters_def)

lemma readable_plain:
  assumes "\<And>x. plain (f x)" "inj f"
  shows "readable f"
  unfolding readable_def
proof (intro allI impI)
  fix x y r r'
  assume r: "ends r" "ends r'" and eq: "f x @ r = f y @ r'"
  have tw: "takeWhile (\<lambda>b. b \<notin> of_char ` delimiters) (f z @ q) = f z" if "ends q" for z q
  proof -
    have "\<forall>b \<in> set (f z). b \<notin> of_char ` delimiters" using assms(1) [of z] by (auto simp: plain_def)
    moreover have "takeWhile (\<lambda>b. b \<notin> of_char ` delimiters) q = []"
      using that by (cases q) (auto simp: ends_def)
    ultimately show ?thesis by (simp add: takeWhile_append)
  qed
  from arg_cong [OF eq, of "takeWhile (\<lambda>b. b \<notin> of_char ` delimiters)"] have "f x = f y" by (simp only: tw r)
  with eq assms(2) show "x = y \<and> r = r'" by (simp add: inj_eq)
qed

subsection \<open>Numbers and bytes\<close>

lemma unat_digit: "n < 10 \<Longrightarrow> unat (48 + of_nat n :: u8) = 48 + n"
  by (simp add: unat_word_ariths unat_of_nat take_bit_eq_mod)

lemma delimiters_low: "(of_char c :: u8) = b \<Longrightarrow> c \<in> delimiters \<Longrightarrow> unat b < 48 \<or> 90 < unat b \<and> unat b < 94 \<or> unat b = 125"
  by (auto simp: delimiters_def)

lemma plain_bounds:
  "(\<And>b. b \<in> set t \<Longrightarrow> 48 \<le> unat b \<and> unat b < 58 \<or> 97 \<le> unat b \<and> unat b < 103) \<Longrightarrow> plain t"
  unfolding plain_def using delimiters_low by fastforce

lemma fmt_dec_digits: "b \<in> set (fmt_dec n) \<Longrightarrow> 48 \<le> unat b \<and> unat b < 58"
  by (induction n rule: fmt_dec.induct) (subst (asm) (2) fmt_dec.simps, auto split: if_splits simp: unat_digit)

lemma fmt_dec_nonempty: "fmt_dec n \<noteq> []"
  by (subst fmt_dec.simps) simp

definition dec_value :: "printed \<Rightarrow> nat" where
  "dec_value t = foldl (\<lambda>a d. 10 * a + (unat d - 48)) 0 t"

lemma dec_value_fmt_dec: "dec_value (fmt_dec n) = n"
proof (induction n rule: fmt_dec.induct)
  case (1 n)
  show ?case
  proof (cases "n < 10")
    case True
    then show ?thesis by (subst fmt_dec.simps) (simp add: dec_value_def unat_digit)
  next
    case False
    then have "dec_value (fmt_dec n) = 10 * dec_value (fmt_dec (n div 10)) + n mod 10"
      by (subst fmt_dec.simps) (simp add: dec_value_def unat_digit)
    with 1 False show ?thesis by simp
  qed
qed

lemma readable_dec: "readable fmt_dec"
proof (rule readable_plain)
  show "plain (fmt_dec n)" for n using fmt_dec_digits by (intro plain_bounds) blast
  show "inj fmt_dec" by (rule injI) (metis dec_value_fmt_dec)
qed

lemmas [reading] = word_unat_eq_iff [symmetric]

lemma unat_hex_digit: "d < 16 \<Longrightarrow> 48 \<le> unat (hex_digit d) \<and> unat (hex_digit d) < 58 \<or>
    97 \<le> unat (hex_digit d) \<and> unat (hex_digit d) < 103"
  by (rule nibble_ball) (simp_all add: hex_digit_def)

lemma plain_hex: "plain (fmt_hex bs)"
proof (rule plain_bounds)
  show "b \<in> set (fmt_hex bs) \<Longrightarrow> 48 \<le> unat b \<and> unat b < 58 \<or> 97 \<le> unat b \<and> unat b < 103" for b
    by (induction bs) (use unat_hex_digit nibble_bounds in auto)
qed

lemma fmt_hex_inj: "fmt_hex bs = fmt_hex cs \<longleftrightarrow> bs = cs"
proof
  assume eq: "fmt_hex bs = fmt_hex cs"
  from arg_cong [OF eq, of length] have "length bs = length cs" by simp
  with eq have "hex_to_bytes (length bs) (fmt_hex bs) = hex_to_bytes (length cs) (fmt_hex cs)" by simp
  then show "bs = cs" by (simp only: hex_to_bytes_fmt_hex sum.inject)
qed simp

lemma readable_hex: "inj f \<Longrightarrow> readable (\<lambda>x. fmt_hex (f x))"
  by (rule readable_plain) (auto simp: plain_hex fmt_hex_inj inj_def)

lemma readable_hash: "readable fmt_hash"
  unfolding fmt_hash_def by (rule readable_hex) (auto intro: injI Sha256Hash.expand)

lemma readable_address: "readable fmt_address"
  unfolding fmt_address_def by (rule readable_hex) (auto intro: injI CoinAddress.equality)

lemma readable_signature: "readable fmt_signature"
  unfolding fmt_signature_def by (rule readable_hex) (auto intro: injI Signature.equality)

lemma readable_difficulty: "readable fmt_difficulty"
  unfolding fmt_difficulty_def
proof (rule readable_hex, rule injI)
  show "x = y" if "to_be_bytes 32 (target x) = to_be_bytes 32 (target y)" for x y
    using arg_cong [OF that, of "from_be_bytes :: u8 list \<Rightarrow> u256"]
    by (auto simp: from_to_be_bytes intro: Difficulty.expand)
qed

subsection \<open>Cash\<close>

text \<open>What the packages print: plain texts, different ones for different identifiers.\<close>

definition printers_ok :: "('n, 'z) printers_scheme \<Rightarrow> bool" where
  "printers_ok p \<longleftrightarrow> (\<forall>u. plain (uuid_text p u) \<and> plain (uuid_debug p u)) \<and> (\<forall>n. plain (node_text p n)) \<and>
     inj (uuid_text p) \<and> inj (uuid_debug p) \<and> inj (node_text p) \<and> (\<forall>n. node_text p n \<noteq> lit ''self'')"

lemma readable_printers:
  assumes "printers_ok p"
  shows "readable (uuid_text p)" "readable (uuid_debug p)" "readable (node_text p)"
  using assms by (auto simp: printers_ok_def intro: readable_plain)

lemma readable_cash:
  assumes "printers_ok p"
  shows "readable (fmt_cash p)"
  unfolding readable_def
proof (intro allI impI)
  fix x y :: Cash and r r'
  assume "ends r" "ends r'" "fmt_cash p x @ r = fmt_cash p y @ r'"
  then show "x = y \<and> r = r'"
    using readable_printers [OF assms] readable_dec readable_address
    by (auto simp: fmt_cash_def reading intro: Cash.equality simp del: of_char_Char)
qed

subsection \<open>Lists in brackets\<close>

definition opens :: "('a \<Rightarrow> printed) \<Rightarrow> bool" where
  "opens f \<longleftrightarrow> (\<forall>x. f x \<noteq> [] \<and> hd (f x) \<noteq> of_char CHR '']'')"

lemma opens_clash: "opens f \<Longrightarrow> f x @ r \<noteq> of_char CHR '']'' # r'" "opens f \<Longrightarrow> of_char CHR '']'' # r' \<noteq> f x @ r"
  by (auto simp: opens_def append_eq_Cons_conv Cons_eq_append_conv) (metis list.sel(1))+

lemma debug_items_read:
  assumes f: "readable f" "opens f"
  shows "debug_items f xs @ of_char CHR '']'' # r = debug_items f ys @ of_char CHR '']'' # r' \<Longrightarrow> xs = ys \<and> r = r'"
proof (induction xs arbitrary: ys)
  case Nil
  then show ?case using opens_clash [OF f(2)] by (cases "(f, ys)" rule: debug_items.cases) auto
next
  case (Cons x xs)
  note step = Cons.prems [unfolded append_assoc]
  show ?case
  proof (cases xs)
    case Nil
    then show ?thesis
      using Cons.prems opens_clash [OF f(2)] f(1)
      by (cases "(f, ys)" rule: debug_items.cases) (auto simp: reading simp del: of_char_Char)
  next
    case (Cons x' xs')
    then show ?thesis
      using Cons.prems opens_clash [OF f(2)] f(1) Cons.IH [of "tl ys"]
      by (cases "(f, ys)" rule: debug_items.cases) (auto simp: reading simp del: of_char_Char)
  qed
qed

lemma readable_list:
  assumes "readable f" "opens f"
  shows "debug_list f xs @ r = debug_list f ys @ r' \<longleftrightarrow> xs = ys \<and> r = r'"
  using debug_items_read [OF assms, of xs r ys r']
  by (auto simp: debug_list_def reading simp del: of_char_Char)

lemma readable_debug_address: "readable debug_address"
proof -
  have "readable (\<lambda>b :: u8. fmt_dec (unat b))"
    using readable_dec unfolding readable_def by (blast intro: unsigned_word_eqI)
  moreover have "opens (\<lambda>b :: u8. fmt_dec (unat b))"
    unfolding opens_def
  proof (intro allI conjI)
    fix b :: u8
    show "fmt_dec (unat b) \<noteq> []" by (rule fmt_dec_nonempty)
    then have "hd (fmt_dec (unat b)) \<in> set (fmt_dec (unat b))" by simp
    then have "unat (hd (fmt_dec (unat b))) < 58" using fmt_dec_digits by blast
    then show "hd (fmt_dec (unat b)) \<noteq> of_char CHR '']''" by auto
  qed
  ultimately have list: "debug_list (\<lambda>b :: u8. fmt_dec (unat b)) xs @ r = debug_list (\<lambda>b. fmt_dec (unat b)) ys @ r' \<longleftrightarrow>
      xs = ys \<and> r = r'" for xs ys r r' by (rule readable_list)
  show ?thesis
    unfolding readable_def
    by (auto simp: debug_address_def reading list intro: CoinAddress.equality simp del: of_char_Char)
qed

lemma readable_debug_cash:
  assumes "printers_ok p"
  shows "readable (debug_cash p)" "opens (debug_cash p)"
proof -
  show "readable (debug_cash p)"
    unfolding readable_def
    using readable_printers [OF assms] readable_dec readable_debug_address
    by (auto simp: debug_cash_def reading intro: Cash.equality simp del: of_char_Char)
  show "opens (debug_cash p)" by (simp add: opens_def debug_cash_def reading del: of_char_Char)
qed

section \<open>What a printed transaction or block tells\<close>

definition transaction_facts :: "('sk, 'z) crypto_scheme \<Rightarrow> Transaction \<Rightarrow> TransactionId \<times> Cash list \<times> Cash list" where
  "transaction_facts c t = (txn_id c t, inputs t, outputs t)"

lemma read_transaction:
  assumes "printers_ok p"
  shows "fmt_transaction c p t @ r = fmt_transaction c p u @ r' \<longleftrightarrow>
    transaction_facts c t = transaction_facts c u \<and> r = r'"
  using readable_hash readable_list [OF readable_debug_cash [OF assms]]
  by (auto simp: fmt_transaction_def transaction_facts_def reading simp del: of_char_Char)

lemma plain_clash:
  assumes "plain t" "d \<in> delimiters" "e \<in> delimiters" "d \<noteq> e"
  shows "t @ of_char d # q \<noteq> of_char e # r" "of_char e # r \<noteq> t @ of_char d # q"
  using assms by (cases t; auto simp: plain_def of_char_inj)+

lemma fmt_ids_read:
  "fmt_ids is @ of_char CHR '']'' # r = fmt_ids js @ of_char CHR '']'' # r' \<longleftrightarrow> is = js \<and> r = r'"
proof (induction "is" arbitrary: js)
  case Nil
  have "plain (fmt_hash j)" for j by (simp add: fmt_hash_def plain_hex)
  then show ?case
    by (cases js) (auto simp: reading plain_clash simp del: of_char_Char)
next
  case (Cons i "is")
  have "plain (fmt_hash j)" for j by (simp add: fmt_hash_def plain_hex)
  then show ?case
    using readable_hash Cons.IH by (cases js) (auto simp: reading plain_clash simp del: of_char_Char)
qed

definition block_facts ::
    "('sk, 'z) codec_scheme \<Rightarrow> Block \<Rightarrow> SequenceNo \<times> Difficulty \<times> BlockId \<times> BlockId \<times> CoinAddress \<times> Timestamp \<times>
     u64 \<times> Cash \<times> TransactionId list" where
  "block_facts c b = (seqno b, difficulty b, block_id c b, prev_id b, miner b, timestamp b, bi_nonce (blk_inner b),
     reward b, map (txn_id c) (transactions b))"

lemma read_block:
  assumes "printers_ok p"
  shows "fmt_block c p b @ r = fmt_block c p d @ r' \<longleftrightarrow> block_facts c b = block_facts c d \<and> r = r'"
  using readable_hash readable_dec readable_difficulty readable_address readable_cash [OF assms]
  by (auto simp: fmt_block_def block_facts_def reading fmt_ids_read simp del: of_char_Char)

section \<open>What a log line tells\<close>

text \<open>Two messages that differ only in what is not printed: reply ports, streams, and of a transaction or
  block what its printed text leaves open.\<close>

definition same_log ::
    "('sk, 'z) codec_scheme \<Rightarrow> ('n, 'st) PeerHubActorMessage \<Rightarrow> ('n, 'st) PeerHubActorMessage \<Rightarrow> bool" where
  "same_log c m m' \<longleftrightarrow>
     (case m of
        ShouldConnect n _ \<Rightarrow> \<exists>q. m' = ShouldConnect n q
      | NewPeer n _ _ _ \<Rightarrow> \<exists>st k q. m' = NewPeer n st k q
      | NewTransaction t \<Rightarrow> \<exists>t'. m' = NewTransaction t' \<and> transaction_facts c t = transaction_facts c t'
      | NewBlock n b \<Rightarrow> \<exists>b'. m' = NewBlock n b' \<and> block_facts c b = block_facts c b'
      | QueryTransaction t _ \<Rightarrow> \<exists>q. m' = QueryTransaction t q
      | QueryTransactions ts _ \<Rightarrow> \<exists>q. m' = QueryTransactions ts q
      | QueryTransactionDepth t _ \<Rightarrow> \<exists>q. m' = QueryTransactionDepth t q
      | QueryTransactionDepths ts _ \<Rightarrow> \<exists>q. m' = QueryTransactionDepths ts q
      | QueryBlock i _ \<Rightarrow> \<exists>q. m' = QueryBlock i q
      | QueryPeers _ \<Rightarrow> \<exists>q. m' = QueryPeers q
      | QueryLocalNodeId _ \<Rightarrow> \<exists>q. m' = QueryLocalNodeId q
      | QueryMemPool _ \<Rightarrow> \<exists>q. m' = QueryMemPool q
      | QueryLeadingBlock _ \<Rightarrow> \<exists>q. m' = QueryLeadingBlock q
      | QueryDifficultyAdjustTime n _ \<Rightarrow> \<exists>q. m' = QueryDifficultyAdjustTime n q
      | QueryLeadingCashSet _ \<Rightarrow> \<exists>q. m' = QueryLeadingCashSet q
      | _ \<Rightarrow> m' = m)"

lemma self_not_node:
  assumes "printers_ok p"
  shows "lit ''self'' @ of_char CHR '','' # r \<noteq> node_text p n @ of_char CHR '','' # r'"
proof
  let ?f = "\<lambda>x. case x of None \<Rightarrow> lit ''self'' | Some n \<Rightarrow> node_text p n"
  have "plain (lit ''self'')" by (simp add: plain_def delimiters_def reading del: of_char_Char)
  then have "readable ?f"
    using assms by (intro readable_plain) (auto simp: printers_ok_def inj_def split: option.split)
  moreover assume "lit ''self'' @ of_char CHR '','' # r = node_text p n @ of_char CHR '','' # r'"
  then have "?f None @ of_char CHR '','' # r = ?f (Some n) @ of_char CHR '','' # r'" by simp
  moreover have "ends (of_char CHR '','' # q)" for q by (simp add: reading del: of_char_Char)
  ultimately show False unfolding readable_def by blast
qed

lemma read_alone:
  "printers_ok p \<Longrightarrow> fmt_transaction c p t = fmt_transaction c p u \<longleftrightarrow> transaction_facts c t = transaction_facts c u"
  "printers_ok p \<Longrightarrow> fmt_block e p b = fmt_block e p d \<longleftrightarrow> block_facts e b = block_facts e d"
  "fmt_ids is = fmt_ids js \<longleftrightarrow> is = js"
  using read_transaction [of p c t "[]" u "[]"] read_block [of p e b "[]" d "[]"] fmt_ids_read [of "is" "[]" js "[]"]
  by auto

lemma read_message:
  assumes "printers_ok p"
  shows "fmt_message c p m = fmt_message c p m' \<longleftrightarrow> same_log c m m'"
proof -
  note no_self = self_not_node [OF assms, unfolded reading append.simps]
  show ?thesis
    using readable_hash readable_dec readable_printers [OF assms]
    by (cases m; cases m'; simp add: fmt_message_def same_log_def reading read_transaction [OF assms]
        read_block [OF assms] fmt_ids_read read_alone(1,2) [OF assms] read_alone(3) no_self no_self [symmetric]
        split: option.split del: of_char_Char)
       auto
qed

text \<open>The same for what a connection logs.\<close>

definition same_peer_log :: "('sk, 'z) codec_scheme \<Rightarrow> 'n PeerMessage \<Rightarrow> 'n PeerMessage \<Rightarrow> bool" where
  "same_peer_log c m m' \<longleftrightarrow>
     (case m of
        GetTransactionResponse t \<Rightarrow> \<exists>t'. m' = GetTransactionResponse t' \<and> transaction_facts c t = transaction_facts c t'
      | GetBlockResponse n b \<Rightarrow> \<exists>b'. m' = GetBlockResponse n b' \<and> block_facts c b = block_facts c b'
      | _ \<Rightarrow> m' = m)"

lemma read_broadcast:
  "fmt_broadcast m @ r = fmt_broadcast m' @ r' \<longleftrightarrow> m = m' \<and> r = r'"
  using readable_hash by (cases m; cases m') (auto simp: fmt_broadcast_def reading simp del: of_char_Char)

lemma read_peer_message:
  assumes "printers_ok p"
  shows "fmt_peer_message c p m = fmt_peer_message c p m' \<longleftrightarrow> same_peer_log c m m'"
  using readable_hash readable_printers [OF assms] read_broadcast [of _ "[]" _ "[]"]
  by (cases m; cases m'; simp add: fmt_peer_message_def same_peer_log_def reading read_transaction [OF assms]
      read_block [OF assms] read_broadcast read_alone(1,2) [OF assms] del: of_char_Char)
     auto

end
