(* ===== verification/Log_Properties.thy ===== *)
theory Log_Properties
  imports Display Sample_Node
begin

text \<open>
  Property of the texts of theory Display: what a line of the log tells.
\<close>

text \<open>C34: A log line tells the message it was written for: two messages to the hub, or two messages between
  peers, have the same line exactly if they differ only in what is not printed (reply ports, streams,
  the signature of a block or transaction). Of a block the line gives number, difficulty, identifier, parent,
  miner, time, nonce, reward and the transactions; of a transaction its identifier, inputs and outputs.\<close>

theorem log_lines_tell_messages:
  assumes "printers_ok p"
  shows "(fmt_message c p m = fmt_message c p m' \<longleftrightarrow> same_log c m m') \<and>
    (fmt_peer_message c p pm = fmt_peer_message c p pm' \<longleftrightarrow> same_peer_log c pm pm')"
  using read_message [OF assms] read_peer_message [OF assms] by blast

definition sample_printers :: "nat printers" where
  "sample_printers = \<lparr>uuid_text = \<lambda>u. fmt_dec (unat u), uuid_debug = \<lambda>u. fmt_dec (unat u), node_text = fmt_dec\<rparr>"

lemma fmt_dec_plain: "plain (fmt_dec n)"
  using fmt_dec_digits by (intro plain_bounds) blast

lemma sample_printers_ok: "printers_ok sample_printers"
proof -
  have "of_char CHR ''s'' \<notin> set (fmt_dec n)" for n using fmt_dec_digits [of "of_char CHR ''s''" n] by auto
  moreover have "of_char CHR ''s'' \<in> set (lit ''self'')" by (simp add: lit_Cons del: of_char_Char)
  ultimately have "fmt_dec n \<noteq> lit ''self''" for n by metis
  moreover have "inj fmt_dec" "inj (\<lambda>u :: u128. fmt_dec (unat u))"
    using readable_dec by (auto simp: inj_def reading)
  ultimately show ?thesis by (simp add: printers_ok_def sample_printers_def fmt_dec_plain)
qed

theorem log_lines_tell_messages_witness:
  "fmt_message sample_env sample_printers
       (QueryTransactions [Sha256Hash [18], Sha256Hash [52]] True :: (nat, u8 list) PeerHubActorMessage) \<noteq>
     fmt_message sample_env sample_printers
       (QueryTransactions [Sha256Hash [18, 52]] True :: (nat, u8 list) PeerHubActorMessage) \<and>
   fmt_message sample_env sample_printers (ShouldConnect 7 True :: (nat, u8 list) PeerHubActorMessage) =
     fmt_message sample_env sample_printers (ShouldConnect 7 False :: (nat, u8 list) PeerHubActorMessage)"
  unfolding log_lines_tell_messages [OF sample_printers_ok, THEN conjunct1] by (auto simp: same_log_def)

end
