(* ===== verification/Start_Properties.thy ===== *)
theory Start_Properties
  imports Full_Mesh Sample_Network
begin

text \<open>
  Properties of starting nodes: the nodes of \<open>fully_connected\<close>, and the program that runs one node.
  Each is followed by an application of it to the environment of \<open>Sample_Node\<close>.
\<close>

section \<open>A runtime of the examples\<close>

definition sample_runtime ::
    "nat \<Rightarrow> (nat + unit) task_state \<Rightarrow> (nat + unit) task_state \<Rightarrow>
     (u8 list, nat, unit, nat, unit, nat, u8 list, (nat + unit) task_state) runtime" where
  "sample_runtime i tasks hub_task =
     \<lparr>local_swarm = \<lambda>_. Some 0, pkarr_publisher = \<lambda>_. 1, dns_discovery = 2,
      bind_endpoint = \<lambda>_ _ _. Some i, endpoint_discovery = \<lambda>_. Some (), subscribe = \<lambda>_. Some (),
      endpoint_node_id = \<lambda>ep. ep, actor_spawn = map_option (\<lambda>s. (s, hub_task)), task_spawn = tasks\<rparr>"

lemma sample_runtime_ok: "runtime_ok (sample_runtime i tasks hub_task)"
  by (simp add: runtime_ok_def sample_runtime_def)

lemma sample_run:
  assumes "hub_new sample_env i cfg = Some s"
  shows "\<exists>node. run_with_secret_and_discovery (sample_runtime i tasks hub_task) sample_env cfg key services = Some (Inr node) \<and>
    hub_actor node = s \<and> hub_handle node = \<lparr>new_peer_listener_handler = tasks, actor_handle = hub_task\<rparr>"
  using assms
  by (simp add: run_with_secret_and_discovery_def sample_runtime_def NewPeerStreamSubscriber_new_def
      IncomingConnectionListener_new_def HubHandle_new_def)

text \<open>A nonce for the target of the default configuration.\<close>

lemma le_value_append: "le_value (bs @ cs) = le_value bs + 256 ^ length bs * le_value cs"
  by (induction bs) (simp_all add: algebra_simps)

lemma le_value_zeros [simp]: "le_value (replicate n 0) = 0"
  by (induction n) simp_all

lemma default_nonce:
  assumes "ub_difficulty ub = genesis_difficulty default_config"
  shows "find_nouce sample_env ub = Some 0"
proof -
  let ?bs = "enc_unconfirmed sample_env ub"
  have "(256 :: nat) ^ length ?bs \<le> 256 ^ 9" by (intro power_increasing) (simp_all add: length_sample_inner)
  then have "le_value ?bs < 256 ^ 9" using le_value_bound [of ?bs] by linarith
  then have le: "le_value (?bs @ replicate 8 0) < 2 ^ 72" by (simp add: le_value_append)
  then have "unat (of_nat (le_value (?bs @ replicate 8 0)) :: u256) = le_value (?bs @ replicate 8 0)"
    by (intro unat_of_nat_small) simp
  moreover have "unat (ucast (- 1 :: u128) :: u256) = 2 ^ 128 - 1"
    by (simp add: unsigned_ucast_eq unsigned_minus_1_eq_mask mask_eq_exp_minus_1 take_bit_nat_eq_self)
  ultimately have "is_met (genesis_difficulty default_config) (?bs @ replicate 8 0)"
    using le by (simp add: default_config_def is_met_def from_le_bytes_def word_less_nat_alt)
  moreover have "take 32 (?bs @ replicate 8 0) = ?bs @ replicate 8 0"
    using length_sample_inner(2) [of ub] by simp
  moreover have "to_le_bytes 8 (0 :: u64) = replicate 8 0" by (simp add: to_le_bytes_def map_replicate_const)
  ultimately have "is_met (ub_difficulty ub) (sha256 sample_env (?bs @ to_le_bytes 8 (0 :: u64)))"
    using assms by (simp add: sample_sha256_def)
  then show ?thesis
    unfolding find_nouce_def Let_def by (subst nouce_loop.simps) (simp del: sample_env_sel)
qed

lemma default_start: "\<exists>s. hub_new sample_env i default_config = Some s"
proof -
  obtain bs where "hex_to_bytes 32 genesis_secret = Inr bs" using genesis_secret_parses by blast
  then show ?thesis
    by (simp add: hub_new_def create_genesis_def Let_def try_confirm_result sample_nonce_last default_nonce from_signer_def)
qed

section \<open>Several nodes\<close>


text \<open>Two nodes that report each other as peers.\<close>

abbreviation sample_seeds where
  "sample_seeds \<equiv> [(sample_runtime 1 Running Running, [1]), (sample_runtime 2 Running Running, [2])]"

definition sample_traffic :: "nat \<Rightarrow> (nat, u8 list) polled" where
  "sample_traffic i k =
     (if k = 1 then [(0, if i = 0 then NewPeer 2 [] True True else NewPeer 1 [] False True)] else [])"

lemma sample_traffic_ok: "list_all (\<lambda>(now, m). message_ok sample_env m) (sample_traffic i k)"
  by (simp add: sample_traffic_def)

lemma sample_nodes:
  "\<exists>node1 node2. start_nodes sample_env fork_config sample_seeds = Some (Inr [node1, node2]) \<and>
     local_node_id (hub_actor node1) = 1 \<and> peers (hub_actor node1) = fmempty \<and>
     local_node_id (hub_actor node2) = 2 \<and> peers (hub_actor node2) = fmempty"
proof -
  have new: "\<exists>s. hub_new sample_env i fork_config = Some s \<and> local_node_id s = i \<and> peers s = fmempty" for i :: nat
    using sample_create_genesis [of 10 "initial_block_subsidy fork_config"] by (auto simp: hub_new_def Let_def)
  have "\<exists>node. run_with_local_discovery (sample_runtime i Running Running) sample_env fork_config key = Some (Inr node) \<and>
      local_node_id (hub_actor node) = i \<and> peers (hub_actor node) = fmempty" for i key
  proof -
    obtain s where s: "hub_new sample_env i fork_config = Some s" "local_node_id s = i" "peers s = fmempty"
      using new by blast
    have "local_swarm (sample_runtime i Running Running) key = Some 0" by (simp add: sample_runtime_def)
    then show ?thesis using sample_run [OF s(1), of Running Running key "[0]"] s(2,3)
      by (auto simp: run_with_local_discovery_def)
  qed
  from this [of 1 "[1]"] this [of 2 "[2]"] show ?thesis by auto
qed

lemma sample_gets_peers:
  assumes "local_node_id s = (if i = 0 then 1 else 2)" "peers s = fmempty"
  shows "gets_peers sample_env 2 (sample_traffic i) 1 s"
  using assms by (simp add: gets_peers_def sample_traffic_def new_peer_def PEER_SIZE_LIMIT_def send_reply_def fcard.rep_eq)


text \<open>\<open>fully_connected\<close> does return the nodes, and does so as soon as it can: if every node starts, no
  hub stops, and each hub has one peer less than there are nodes at one of the queries it gets.\<close>

theorem mesh_is_reached:
  assumes "orders_ok env" "start_nodes env cfg seeds = Some (Inr nodes)"
    and "\<forall>i < length nodes. \<exists>k. gets_peers env (length seeds) (traffic i) k (hub_actor (nodes ! i))"
  shows "\<exists>nodes'. fully_connected env cfg seeds traffic = Some (Inr nodes')"
  by (rule fully_connected_ends [OF assms])

section \<open>The program that runs a node\<close>

text \<open>C35: Once the node of the propagator has started, the program ends when both of its tasks have
  ended, with the error of the first before that of the actor; but if one of them has ended well while
  the other still runs, it panics: the handle polls a finished task again.\<close>

theorem propagator_ends:
  assumes "join_handle_ok poll state" "run_default rt env key = Some (Inr node)"
  shows "(state (new_peer_listener_handler (hub_handle node)) = Ended r \<and> state (actor_handle (hub_handle node)) = Ended r' \<longrightarrow>
      propagator_main rt env poll key = Some (map_sum HandleFailed id (case r of Inl e \<Rightarrow> Inl e | Inr _ \<Rightarrow> r'))) \<and>
    (state (new_peer_listener_handler (hub_handle node)) = Ended (Inr ()) \<and> state (actor_handle (hub_handle node)) = Running \<or>
       state (new_peer_listener_handler (hub_handle node)) = Running \<and> state (actor_handle (hub_handle node)) = Ended (Inr ()) \<longrightarrow>
      propagator_main rt env poll key = None)"
  using await_handle_both [OF assms(1), of "hub_handle node"] await_handle_one [OF assms(1), of "hub_handle node"] assms(2)
  by (auto simp: propagator_main_def)

theorem propagator_ends_witness:
  "propagator_main (sample_runtime 1 (Ended (Inr ())) Running) sample_env sample_poll [1] = None \<and>
   propagator_main (sample_runtime 1 (Ended (Inl 7)) (Ended (Inr ()))) sample_env sample_poll [1] = Some (Inl (HandleFailed 7))"
proof -
  have run: "\<exists>node. run_default (sample_runtime 1 tasks hub_task) sample_env [1] = Some (Inr node) \<and>
      hub_handle node = \<lparr>new_peer_listener_handler = tasks, actor_handle = hub_task\<rparr>" for tasks hub_task
  proof -
    obtain s where s: "hub_new sample_env 1 default_config = Some s" using default_start by blast
    have "local_swarm (sample_runtime 1 tasks hub_task) key = Some 0" for key by (simp add: sample_runtime_def)
    then show ?thesis using sample_run [OF s] by (simp add: run_default_def run_config_def) blast
  qed
  obtain n1 where n1: "run_default (sample_runtime 1 (Ended (Inr ())) Running) sample_env [1] = Some (Inr n1)"
      "hub_handle n1 = \<lparr>new_peer_listener_handler = Ended (Inr ()), actor_handle = Running\<rparr>" using run by blast
  obtain n2 where n2: "run_default (sample_runtime 1 (Ended (Inl 7)) (Ended (Inr ()))) sample_env [1] = Some (Inr n2)"
      "hub_handle n2 = \<lparr>new_peer_listener_handler = Ended (Inl 7), actor_handle = Ended (Inr ())\<rparr>" using run by blast
  show ?thesis
    using propagator_ends [OF sample_poll_ok n1(1)] propagator_ends [OF sample_poll_ok n2(1)] n1(2) n2(2) by simp
qed

end
