(* ===== verification/Settling.thy ===== *)
theory Settling
  imports Gossip
begin

text \<open>
  Networks over wires come to rest: if every handled message either leaves its node with less room to
  grow, or costs more than it makes the node write, then a network of finitely many nodes that no client writes
  to any more takes finitely many steps. The interface \<open>settling\<close> states what one handled message must do.
\<close>

section \<open>Steps without clients\<close>

inductive flow_step ::
    "('s \<Rightarrow> 'm \<Rightarrow> 's \<Rightarrow> ('n \<Rightarrow> 'p list) \<Rightarrow> bool) \<Rightarrow> ('n \<Rightarrow> 'p \<Rightarrow> 'm) \<Rightarrow> ('m \<Rightarrow> bool) \<Rightarrow>
     ('n, 's, 'm, 'p) wires \<Rightarrow> ('n, 's, 'm, 'p) wires \<Rightarrow> bool"
  for acts arrives may where
  act: "\<lbrakk>inbox w i = m # ms; acts (at_node w i) m s' out\<rbrakk> \<Longrightarrow>
    flow_step acts arrives may w (w\<lparr>at_node := (at_node w)(i := s'), inbox := (inbox w)(i := ms),
      wire := (wire w)(i := \<lambda>k. wire w i k @ out k)\<rparr>)"
| arrive: "\<lbrakk>wire w i j = p # ps; may (arrives i p)\<rbrakk> \<Longrightarrow>
    flow_step acts arrives may w (w\<lparr>inbox := (inbox w)(j := inbox w j @ [arrives i p]),
      wire := (wire w)(i := (wire w i)(j := ps))\<rparr>)"

lemma flow_wire_step: "flow_step acts arrives may w w' \<Longrightarrow> wire_step acts arrives may w w'"
  by (erule flow_step.cases) (auto intro: wire_step.intros)

text \<open>What changes in a sum when one summand does.\<close>

lemma sum_at:
  assumes "finite N" "n \<in> N" "\<And>i. i \<noteq> n \<Longrightarrow> f' i = (f i :: nat)"
  shows "sum f' N + f n = sum f N + f' n"
proof -
  have "sum f' (N - {n}) = sum f (N - {n})" using assms(3) by (intro sum.cong) auto
  then show ?thesis using assms(1,2) by (simp add: sum.remove)
qed

section \<open>The interface\<close>

locale settling =
  fixes acts :: "'s \<Rightarrow> 'm \<Rightarrow> 's \<Rightarrow> ('n \<Rightarrow> 'p list) \<Rightarrow> bool"
    and arrives :: "'n \<Rightarrow> 'p \<Rightarrow> 'm"
    and may :: "'m \<Rightarrow> bool"
    and fits :: "'m \<Rightarrow> bool"
    and good :: "'s \<Rightarrow> bool"
    and self :: "'s \<Rightarrow> 'n"
    and neighbours :: "'s \<Rightarrow> 'n set"
    and room :: "'s \<Rightarrow> nat"
    and weight :: "'s \<Rightarrow> nat"
    and cost :: "'m \<Rightarrow> nat"
  assumes stays: "good s \<Longrightarrow> may m \<Longrightarrow> fits m \<Longrightarrow> acts s m s' out \<Longrightarrow>
      good s' \<and> self s' = self s \<and> neighbours s' = neighbours s"
    and says: "good s \<Longrightarrow> may m \<Longrightarrow> fits m \<Longrightarrow> acts s m s' out \<Longrightarrow> p \<in> set (out k) \<Longrightarrow>
      k \<in> neighbours s \<and> fits (arrives (self s) p)"
    and drains: "good s \<Longrightarrow> may m \<Longrightarrow> fits m \<Longrightarrow> acts s m s' out \<Longrightarrow> room s' < room s \<or> room s' = room s \<and>
      weight s' + (\<Sum>k\<in>neighbours s. \<Sum>p\<leftarrow>out k. Suc (cost (arrives (self s) p))) < weight s + cost m"
begin

text \<open>The messages and the links of the network stay within \<open>N\<close>.\<close>

definition within :: "'n set \<Rightarrow> ('n, 's, 'm, 'p) wires \<Rightarrow> bool" where
  "within N w \<longleftrightarrow> finite N \<and>
     (\<forall>i \<in> N. good (at_node w i) \<and> self (at_node w i) = i \<and> list_all (\<lambda>m. may m \<and> fits m) (inbox w i) \<and>
       neighbours (at_node w i) \<subseteq> N) \<and> (\<forall>i j. \<forall>p \<in> set (wire w i j). fits (arrives i p)) \<and>
     (\<forall>i. i \<notin> N \<longrightarrow> inbox w i = []) \<and> (\<forall>i j. i \<notin> N \<or> j \<notin> N \<longrightarrow> wire w i j = [])"

definition total_room :: "'n set \<Rightarrow> ('n, 's, 'm, 'p) wires \<Rightarrow> nat" where
  "total_room N w = (\<Sum>i\<in>N. room (at_node w i))"

definition on_wire :: "('n, 's, 'm, 'p) wires \<Rightarrow> 'n \<Rightarrow> 'n \<Rightarrow> nat" where
  "on_wire w i j = (\<Sum>p\<leftarrow>wire w i j. Suc (cost (arrives i p)))"

definition traffic :: "'n set \<Rightarrow> ('n, 's, 'm, 'p) wires \<Rightarrow> nat" where
  "traffic N w = (\<Sum>i\<in>N. weight (at_node w i)) + (\<Sum>i\<in>N. \<Sum>m\<leftarrow>inbox w i. cost m) + (\<Sum>i\<in>N. \<Sum>j\<in>N. on_wire w i j)"

lemma act_drains:
  assumes w: "within N w" and m: "inbox w n = m # ms" "acts (at_node w n) m s' out"
    and w': "w' = w\<lparr>at_node := (at_node w)(n := s'), inbox := (inbox w)(n := ms), wire := (wire w)(n := \<lambda>k. wire w n k @ out k)\<rparr>"
  shows "within N w'" "total_room N w' < total_room N w \<or> total_room N w' = total_room N w \<and> traffic N w' < traffic N w"
proof -
  have fin: "finite N" and n: "n \<in> N" using w m(1) by (auto simp: within_def)
  have ok: "good (at_node w n)" "self (at_node w n) = n" "may m" "fits m" "list_all (\<lambda>m. may m \<and> fits m) ms"
    using w m(1) n unfolding within_def by (metis list.pred_inject(2))+
  note st = stays [OF ok(1,3,4) m(2)] and sy = says [OF ok(1,3,4) m(2), unfolded ok(2)]
  have nb: "neighbours (at_node w n) \<subseteq> N" using w n by (simp add: within_def)
  then have out: "out k = []" if "k \<notin> neighbours (at_node w n)" for k using sy that by (metis hd_in_set)
  have g: "good (at_node w' i) \<and> self (at_node w' i) = i \<and> list_all (\<lambda>m. may m \<and> fits m) (inbox w' i)" if "i \<in> N" for i
    using that w st ok(2,5) by (cases "i = n") (simp_all add: within_def w')
  have b: "neighbours (at_node w' i) \<subseteq> N" if "i \<in> N" for i
    using w st nb that by (cases "i = n") (simp_all add: within_def w')
  have f: "fits (arrives i p)" if "p \<in> set (wire w' i j)" for i j p
    using w sy that by (cases "i = n") (auto simp: within_def w')
  have e: "inbox w' i = []" "wire w' i j = []" if "i \<notin> N" for i j
    using w n that by (cases "i = n"; simp add: within_def w')+
  have e2: "wire w' i j = []" if "j \<notin> N" for i j
    using w out nb that by (cases "i = n") (auto simp: within_def w')
  show "within N w'" using fin g b f e e2 unfolding within_def by blast
  let ?out = "\<lambda>j. \<Sum>p\<leftarrow>out j. Suc (cost (arrives n p))"
  have "(\<Sum>j\<in>N. ?out j) = (\<Sum>j\<in>neighbours (at_node w n). ?out j)"
    by (rule sum.mono_neutral_right [OF fin nb]) (simp add: out)
  moreover have "(\<Sum>j\<in>N. on_wire w' n j) = (\<Sum>j\<in>N. on_wire w n j) + (\<Sum>j\<in>N. ?out j)"
    by (simp add: on_wire_def w' sum.distrib)
  moreover have "(\<Sum>i\<in>N. \<Sum>j\<in>N. on_wire w' i j) + (\<Sum>j\<in>N. on_wire w n j) = (\<Sum>i\<in>N. \<Sum>j\<in>N. on_wire w i j) + (\<Sum>j\<in>N. on_wire w' n j)"
    by (rule sum_at [OF fin n]) (simp add: on_wire_def w')
  moreover have "(\<Sum>i\<in>N. weight (at_node w' i)) + weight (at_node w n) = (\<Sum>i\<in>N. weight (at_node w i)) + weight (at_node w' n)"
    by (rule sum_at [OF fin n]) (simp add: w')
  moreover have "(\<Sum>i\<in>N. \<Sum>m\<leftarrow>inbox w' i. cost m) + (\<Sum>m\<leftarrow>inbox w n. cost m) =
      (\<Sum>i\<in>N. \<Sum>m\<leftarrow>inbox w i. cost m) + (\<Sum>m\<leftarrow>inbox w' n. cost m)"
    by (rule sum_at [OF fin n]) (simp add: w')
  moreover have "total_room N w' + room (at_node w n) = total_room N w + room s'"
    using sum_at [OF fin n, of "\<lambda>i. room (at_node w' i)" "\<lambda>i. room (at_node w i)"] by (simp add: total_room_def w')
  ultimately show "total_room N w' < total_room N w \<or> total_room N w' = total_room N w \<and> traffic N w' < traffic N w"
    using drains [OF ok(1,3,4) m(2), unfolded ok(2)] m(1) by (auto simp: traffic_def w')
qed

lemma arrive_drains:
  assumes w: "within N w" and p: "wire w i j = p # ps" "may (arrives i p)"
    and w': "w' = w\<lparr>inbox := (inbox w)(j := inbox w j @ [arrives i p]), wire := (wire w)(i := (wire w i)(j := ps))\<rparr>"
  shows "within N w'" "total_room N w' = total_room N w" "traffic N w' < traffic N w"
proof -
  have fin: "finite N" and ij: "i \<in> N" "j \<in> N" and fit: "fits (arrives i p)" "\<forall>q \<in> set ps. fits (arrives i q)"
    using w p(1) unfolding within_def by (metis list.distinct(1) list.set_intros)+
  show "within N w'" using w p(2) fit ij w' unfolding within_def by auto
  show "total_room N w' = total_room N w" by (simp add: total_room_def w')
  have "(\<Sum>b\<in>N. on_wire w' i b) + on_wire w i j = (\<Sum>b\<in>N. on_wire w i b) + on_wire w' i j"
    by (rule sum_at [OF fin ij(2)]) (simp add: on_wire_def w')
  moreover have "(\<Sum>a\<in>N. \<Sum>b\<in>N. on_wire w' a b) + (\<Sum>b\<in>N. on_wire w i b) = (\<Sum>a\<in>N. \<Sum>b\<in>N. on_wire w a b) + (\<Sum>b\<in>N. on_wire w' i b)"
    by (rule sum_at [OF fin ij(1)]) (simp add: on_wire_def w')
  moreover have "on_wire w i j = Suc (cost (arrives i p)) + on_wire w' i j" by (simp add: on_wire_def w' p(1))
  moreover have "(\<Sum>a\<in>N. \<Sum>m\<leftarrow>inbox w' a. cost m) + (\<Sum>m\<leftarrow>inbox w j. cost m) =
      (\<Sum>a\<in>N. \<Sum>m\<leftarrow>inbox w a. cost m) + (\<Sum>m\<leftarrow>inbox w' j. cost m)"
    by (rule sum_at [OF fin ij(2)]) (simp add: w')
  ultimately show "traffic N w' < traffic N w" by (simp add: traffic_def w')
qed

definition drained :: "'n set \<Rightarrow> (('n, 's, 'm, 'p) wires \<times> ('n, 's, 'm, 'p) wires) set" where
  "drained N = inv_image (less_than <*lex*> less_than) (\<lambda>w. (total_room N w, traffic N w))"

lemma wf_drained: "wf (drained N)"
  unfolding drained_def by (intro wf_inv_image wf_lex_prod wf_less_than)

lemma flow_step_drains:
  assumes "flow_step acts arrives may w w'" "within N w"
  shows "within N w'" "(w', w) \<in> drained N"
  using assms(1)
  by (cases rule: flow_step.cases;
      use act_drains [OF assms(2)] arrive_drains [OF assms(2)] in \<open>auto simp: drained_def\<close>)+

end

end
