(* ===== verification/Quiet_Network.thy ===== *)
theory Quiet_Network
  imports Convergence Settling
begin

text \<open>
  Networks in which nothing fails, over byte streams: each step of one is a step of a network whose wires carry
  messages. So the hubs of a network at rest agree: on the blocks, but for those one of them has marked invalid,
  and on the transactions.
\<close>

section \<open>Runs without failures\<close>

text \<open>As \<open>net_step\<close>, but every handled message ends well, what is written fits a frame, and no connections are
  made any more. \<open>work_step\<close> is what the nodes do on their own, without clients.\<close>

definition framed :: "('sk, 'n, 'st) hub_env \<Rightarrow> 'n PeerMessage \<Rightarrow> bool" where
  "framed env pm \<longleftrightarrow> (\<forall>buf. enc_message env pm = Some buf \<longrightarrow> length buf < 2 ^ 32)"

inductive work_step ::
    "('sk, 'n::linorder, u8 list) hub_env \<Rightarrow> (u8 list \<Rightarrow> 'n RawMessage option) \<Rightarrow> 'n net \<Rightarrow> 'n net \<Rightarrow> bool"
  for env parse where
  deliver: "\<lbrakk>mailbox (net i) = m # ms; handle env now (node_hub (net i)) m = Some (Inr r, s');
    \<And>k. list_all (framed env) (outgoing env now (node_hub (net i)) m k)\<rbrakk> \<Longrightarrow>
    work_step env parse net (net(i := (net i)\<lparr>node_hub := s', mailbox := ms\<rparr>))"
| receive: "\<lbrakk>fmlookup (peers (node_hub (net i))) j = Some sent;
    read_message (drop (consumed (net j) i) sent) = Some (buf, rest);
    transport_decode env parse buf = Some (Inr pm)\<rbrakk> \<Longrightarrow>
    work_step env parse net (net(j := (net j)\<lparr>mailbox := mailbox (net j) @ [peer_cast i pm],
      consumed := (consumed (net j))(i := length sent - length rest)\<rparr>))"

inductive calm_step ::
    "('sk, 'n::linorder, u8 list) hub_env \<Rightarrow> (u8 list \<Rightarrow> 'n RawMessage option) \<Rightarrow> 'n net \<Rightarrow> 'n net \<Rightarrow> bool"
  for env parse where
  work: "work_step env parse net net' \<Longrightarrow> calm_step env parse net net'"
| client: "hub_may env m \<Longrightarrow>
    calm_step env parse net (net(i := (net i)\<lparr>mailbox := mailbox (net i) @ [m]\<rparr>))"

lemmas calm_deliver = calm_step.work [OF work_step.deliver]
  and calm_receive = calm_step.work [OF work_step.receive]

lemma calm_step_cases [consumes 1, case_names deliver receive client]:
  assumes "calm_step env parse net net'"
  obtains i m ms now r s' where "net' = net(i := (net i)\<lparr>node_hub := s', mailbox := ms\<rparr>)" "mailbox (net i) = m # ms"
      "handle env now (node_hub (net i)) m = Some (Inr r, s')" "\<And>k. list_all (framed env) (outgoing env now (node_hub (net i)) m k)"
    | i j sent buf rest pm where "net' = net(j := (net j)\<lparr>mailbox := mailbox (net j) @ [peer_cast i pm],
        consumed := (consumed (net j))(i := length sent - length rest)\<rparr>)" "fmlookup (peers (node_hub (net i))) j = Some sent"
      "read_message (drop (consumed (net j) i) sent) = Some (buf, rest)" "transport_decode env parse buf = Some (Inr pm)"
    | m i where "net' = net(i := (net i)\<lparr>mailbox := mailbox (net i) @ [m]\<rparr>)" "hub_may env m"
  using assms
proof (cases rule: calm_step.cases)
  case work
  then show thesis by (cases rule: work_step.cases) (fact that)+
next
  case (client m i)
  then show thesis by (rule that(3))
qed

lemma calm_step_net: "calm_step env parse net net' \<Longrightarrow> net_step env parse net net'"
  by (cases rule: calm_step_cases) (auto intro: net_step.intros)

text \<open>Nodes that have started and are connected, and have written nothing yet.\<close>

definition linked_node :: "('sk, 'n::linorder, u8 list) hub_env \<Rightarrow> Config \<Rightarrow> 'n \<Rightarrow> 'n node \<Rightarrow> bool" where
  "linked_node env cfg i nd \<longleftrightarrow> (\<exists>s m. hub_new env i cfg = Some s \<and> node_hub nd = s\<lparr>peers := m\<rparr> \<and>
     fcard (fmdom m) \<le> PEER_SIZE_LIMIT \<and> (\<forall>j st. fmlookup m j = Some st \<longrightarrow> st = []) \<and>
     consumed nd = (\<lambda>_. 0) \<and> list_all (hub_may env) (mailbox nd))"

definition linked_start :: "('sk, 'n::linorder, u8 list) hub_env \<Rightarrow> Config \<Rightarrow> 'n net \<Rightarrow> bool" where
  "linked_start env cfg net \<longleftrightarrow> (\<forall>i. linked_node env cfg i (net i))"

text \<open>Nothing is left to handle or to read.\<close>

definition at_rest :: "'n net \<Rightarrow> bool" where
  "at_rest net \<longleftrightarrow> (\<forall>i. mailbox (net i) = []) \<and>
     (\<forall>i j st. fmlookup (peers (node_hub (net i))) j = Some st \<longrightarrow> consumed (net j) i = length st)"

text \<open>What is decoded is what was encoded.\<close>

definition codec_faithful :: "('sk, 'n, 'st) hub_env \<Rightarrow> (u8 list \<Rightarrow> 'n RawMessage option) \<Rightarrow> bool" where
  "codec_faithful env parse \<longleftrightarrow> (\<forall>pm buf pm'. enc_message env pm = Some buf \<longrightarrow>
     transport_decode env parse buf = Some (Inr pm') \<longrightarrow> pm' = pm)"

section \<open>Streams of bytes and wires of messages\<close>

type_synonym 'n hub_wires = "('n, ('n, u8 list) hub, ('n, u8 list) PeerHubActorMessage, 'n PeerMessage) wires"

text \<open>What of the stream from \<open>i\<close> to \<open>j\<close> has not been read is the frames of what is on the wire.\<close>

definition carries :: "('sk, 'n, u8 list) hub_env \<Rightarrow> 'n net \<Rightarrow> 'n \<Rightarrow> 'n \<Rightarrow> 'n PeerMessage list \<Rightarrow> bool" where
  "carries env net i j pms \<longleftrightarrow> (case fmlookup (peers (node_hub (net i))) j of
     None \<Rightarrow> pms = []
   | Some st \<Rightarrow> consumed (net j) i \<le> length st \<and> drop (consumed (net j) i) st = wire_bytes env pms \<and>
       (\<forall>pm \<in> set pms. enc_message env pm \<noteq> None \<and> framed env pm))"

definition represents :: "('sk, 'n, u8 list) hub_env \<Rightarrow> 'n net \<Rightarrow> 'n hub_wires \<Rightarrow> bool" where
  "represents env net w \<longleftrightarrow> at_node w = (\<lambda>i. node_hub (net i)) \<and> inbox w = (\<lambda>i. mailbox (net i)) \<and>
     (\<forall>i j. carries env net i j (wire w i j))"

lemma carries_Some:
  "fmlookup (peers (node_hub (net i))) j = Some st \<Longrightarrow> carries env net i j pms \<longleftrightarrow>
     consumed (net j) i \<le> length st \<and> drop (consumed (net j) i) st = wire_bytes env pms \<and>
     (\<forall>pm \<in> set pms. enc_message env pm \<noteq> None \<and> framed env pm)"
  by (simp add: carries_def)

lemma carries_same:
  "peers (node_hub (net' i)) = peers (node_hub (net i)) \<Longrightarrow> consumed (net' j) i = consumed (net j) i \<Longrightarrow>
     carries env net' i j pms = carries env net i j pms"
  by (simp add: carries_def cong: option.case_cong)

lemma frame_bytes_nonempty: "frame_bytes buf \<noteq> []"
  by (simp add: frame_bytes_def to_be_bytes_def to_le_bytes_def)

lemma wire_bytes_Nil: "wire_bytes env pms = [] \<longleftrightarrow> pms = []"
  by (cases pms) (simp_all add: frame_bytes_nonempty)

abbreviation hub_flow_step ::
    "('sk, 'n::linorder, u8 list) hub_env \<Rightarrow> 'n hub_wires \<Rightarrow> 'n hub_wires \<Rightarrow> bool" where
  "hub_flow_step env \<equiv> flow_step (hub_acts env) peer_cast (hub_may env)"

abbreviation hub_wire_step ::
    "('sk, 'n::linorder, u8 list) hub_env \<Rightarrow> 'n hub_wires \<Rightarrow> 'n hub_wires \<Rightarrow> bool" where
  "hub_wire_step env \<equiv> wire_step (hub_acts env) peer_cast (hub_may env)"

lemma peer_cast_makes_none: "\<not> makes_peer (peer_cast i pm)"
  by (induction i pm rule: peer_cast.induct) simp_all

lemma peer_cast_may: "transport_decode env parse buf = Some (Inr pm) \<Longrightarrow> hub_may env (peer_cast i pm)"
  by (simp add: transport_decode_ok peer_cast_makes_none)

text \<open>Each step over bytes is one over messages.\<close>

lemma deliver_simulated:
  assumes env: "env_ok env" "reliable env" and w: "represents env net w"
    and inv: "hub_inv env (node_hub (net n))" "hub_may env m"
    and m: "mailbox (net n) = m # ms" "handle env now (node_hub (net n)) m = Some (Inr r, s')"
      "\<And>k. list_all (framed env) (outgoing env now (node_hub (net n)) m k)"
  shows "\<exists>w'. hub_flow_step env w w' \<and> represents env (net(n := (net n)\<lparr>node_hub := s', mailbox := ms\<rparr>)) w'"
proof -
  let ?out = "outgoing env now (node_hub (net n)) m" and ?net = "net(n := (net n)\<lparr>node_hub := s', mailbox := ms\<rparr>)"
  let ?w = "w\<lparr>at_node := (at_node w)(n := s'), inbox := (inbox w)(n := ms), wire := (wire w)(n := \<lambda>k. wire w n k @ ?out k)\<rparr>"
  have "hub_flow_step env w ?w"
    using w m by (intro flow_step.act) (auto simp: represents_def hub_acts_def)
  moreover have "carries env ?net i j (wire ?w i j)" for i j
  proof -
    have old: "carries env net i j (wire w i j)" using w by (simp add: represents_def)
    show ?thesis
    proof (cases "i = n")
      case False
      then have "carries env ?net i j pms = carries env net i j pms" for pms by (intro carries_same) simp_all
      then show ?thesis using old False by simp
    next
      case True
      have "wrote env (node_hub (net n)) ?out s'" using handle_wrote [OF env inv(1) _ m(2)] inv(2) by simp
      then have "case fmlookup (peers (node_hub (net n))) j of None \<Rightarrow> fmlookup (peers s') j = None \<and> ?out j = []
        | Some st \<Rightarrow> fmlookup (peers s') j = Some (st @ wire_bytes env (?out j)) \<and> (\<forall>pm \<in> set (?out j). enc_message env pm \<noteq> None)"
        by (simp add: wrote_def)
      then show ?thesis using old True m(3) [of j]
        by (cases "fmlookup (peers (node_hub (net n))) j") (auto simp: carries_def list_all_iff)
    qed
  qed
  ultimately show ?thesis using w by (intro exI [of _ ?w]) (auto simp: represents_def)
qed

lemma receive_simulated:
  assumes codec: "codec_faithful env parse" and w: "represents env net w"
    and m: "fmlookup (peers (node_hub (net i))) j = Some sent"
      "read_message (drop (consumed (net j) i) sent) = Some (buf, rest)" "transport_decode env parse buf = Some (Inr pm)"
  shows "\<exists>w'. hub_flow_step env w w' \<and> represents env (net(j := (net j)\<lparr>mailbox := mailbox (net j) @ [peer_cast i pm],
      consumed := (consumed (net j))(i := length sent - length rest)\<rparr>)) w'"
proof -
  let ?net = "net(j := (net j)\<lparr>mailbox := mailbox (net j) @ [peer_cast i pm],
      consumed := (consumed (net j))(i := length sent - length rest)\<rparr>)"
  let ?c = "consumed (net j) i"
  have c: "?c \<le> length sent" "drop ?c sent = wire_bytes env (wire w i j)" "\<forall>pm \<in> set (wire w i j). enc_message env pm \<noteq> None \<and> framed env pm"
    using w m(1) carries_Some [of net i j sent env "wire w i j"] by (simp_all add: represents_def)
  have "wire w i j \<noteq> []" using m(2) c(2) by (auto simp: read_message_def read_exact_def)
  then obtain p ps where p: "wire w i j = p # ps" by (cases "wire w i j") auto
  then obtain buf0 where buf0: "enc_message env p = Some buf0" using c(3) by auto
  then have "length buf0 < 2 ^ 32" using c(3) p by (simp add: framed_def)
  then have "buf = buf0" "rest = wire_bytes env ps"
    using m(2) c(2) p buf0 read_message_frame [of buf0 "wire_bytes env ps"] by simp_all
  then have pm: "pm = p" using codec buf0 m(3) by (simp add: codec_faithful_def)
  let ?w = "w\<lparr>inbox := (inbox w)(j := inbox w j @ [peer_cast i pm]), wire := (wire w)(i := (wire w i)(j := ps))\<rparr>"
  have "hub_flow_step env w ?w" using flow_step.arrive [of w i j p ps, OF p] peer_cast_may [OF m(3)] pm by simp
  moreover have "length sent = ?c + length (wire_bytes env (wire w i j))" using c(1,2) by (metis length_drop le_add_diff_inverse)
  then have n: "length sent - length rest = ?c + length (frame_bytes buf0)" "length sent - length rest \<le> length sent"
    using p buf0 \<open>rest = wire_bytes env ps\<close> by simp_all
  have "drop (length sent - length rest) sent = drop (length (frame_bytes buf0)) (drop ?c sent)"
    using n(1) by (simp add: add.commute)
  then have d: "drop (length sent - length rest) sent = wire_bytes env ps" using c(2) p buf0 by simp
  have "carries env ?net a b (wire ?w a b)" for a b
  proof -
    have old: "carries env net a b (wire w a b)" using w by (simp add: represents_def)
    show ?thesis
    proof (cases "a = i \<and> b = j")
      case True
      have "fmlookup (peers (node_hub (?net i))) j = Some sent" using m(1) by (cases "i = j") simp_all
      from carries_Some [where net = ?net and env = env, OF this] show ?thesis using True n(2) d c(3) p by simp
    next
      case False
      then have "wire ?w a b = wire w a b" "consumed (?net b) a = consumed (net b) a" by auto
      then have "carries env ?net a b pms = carries env net a b pms" for pms by (intro carries_same) simp_all
      then show ?thesis using old \<open>wire ?w a b = wire w a b\<close> by simp
    qed
  qed
  ultimately show ?thesis using w by (intro exI [of _ ?w]) (auto simp: represents_def)
qed

lemma work_step_simulated:
  assumes env: "env_ok env" "reliable env" "codec_faithful env parse"
    and step: "work_step env parse net net'" and w: "represents env net w"
    and inv: "\<forall>i. hub_inv env (node_hub (net i)) \<and> list_all (hub_may env) (mailbox (net i))"
  shows "\<exists>w'. hub_flow_step env w w' \<and> represents env net' w'"
  using step
proof (cases rule: work_step.cases)
  case (deliver i m ms now r s')
  have "hub_inv env (node_hub (net i))" "hub_may env m" using inv deliver(2) by (metis list.pred_inject(2))+
  from deliver_simulated [OF env(1,2) w this deliver(2-4)] deliver(1) show ?thesis by simp
next
  case (receive i j sent buf rest pm)
  from receive_simulated [OF env(3) w receive(2-4)] receive(1) show ?thesis by simp
qed

lemma calm_step_simulated:
  assumes env: "env_ok env" "reliable env" "codec_faithful env parse"
    and step: "calm_step env parse net net'" and w: "represents env net w"
    and inv: "\<forall>i. hub_inv env (node_hub (net i)) \<and> list_all (hub_may env) (mailbox (net i))"
  shows "\<exists>w'. hub_wire_step env w w' \<and> represents env net' w'"
  using step
proof (cases rule: calm_step.cases)
  case work
  then show ?thesis using work_step_simulated [OF env _ w inv] flow_wire_step by blast
next
  case (client m i)
  let ?w = "w\<lparr>inbox := (inbox w)(i := inbox w i @ [m])\<rparr>"
  have "hub_wire_step env w ?w" using client(2) by (intro wire_step.inject) simp
  moreover have "carries env net' a b pms = carries env net a b pms" for a b pms
    using client(1) by (intro carries_same) simp_all
  then have "represents env net' ?w" using w client(1) by (auto simp: represents_def)
  ultimately show ?thesis by blast
qed

lemma calm_step_genesis:
  assumes env: "env_ok env" and step: "calm_step env parse net net'"
    and inv: "\<forall>i. hub_inv env (node_hub (net i)) \<and> list_all (hub_may env) (mailbox (net i))"
  shows "genesis_id (node_hub (net' k)) = genesis_id (node_hub (net k))"
  using step
proof (cases rule: calm_step_cases)
  case (deliver i m ms now r s')
  have "hub_inv env (node_hub (net i))" "message_ok env m" using inv deliver(2) by (metis list.pred_inject(2))+
  then have "genesis_id s' = genesis_id (node_hub (net i))"
    using handle_keeps [OF env _ _ deliver(3)] by (simp add: keeps_def same_identity_def)
  then show ?thesis using deliver(1) by simp
qed (simp_all add: fun_upd_def)

section \<open>The start and the end of a run\<close>

lemma hub_new_sel:
  assumes "hub_new env i cfg = Some s"
  shows "mempool s = fmempty" "annoucements s = fmempty" "local_node_id s = i"
    "\<exists>g. create_genesis env (genesis_difficulty cfg) (genesis_timestamp cfg) (initial_block_subsidy cfg) = Some g \<and>
       valid_blocks s = fmupd (block_id env g) g fmempty \<and> genesis_id s = block_id env g"
  using assms by (auto simp: hub_new_def Let_def)

definition wires_of :: "'n net \<Rightarrow> 'n hub_wires" where
  "wires_of net = \<lparr>at_node = \<lambda>i. node_hub (net i), inbox = \<lambda>i. mailbox (net i), wire = \<lambda>_ _. []\<rparr>"

lemma linked_start_node:
  assumes "linked_start env cfg net" "env_ok env" "signatures_verify env"
  shows "hub_good env (node_hub (net i))" "local_node_id (node_hub (net i)) = i" "list_all (hub_may env) (mailbox (net i))"
    "mempool (node_hub (net i)) = fmempty" "annoucements (node_hub (net i)) = fmempty"
    "\<exists>g. create_genesis env (genesis_difficulty cfg) (genesis_timestamp cfg) (initial_block_subsidy cfg) = Some g \<and>
       valid_blocks (node_hub (net i)) = fmupd (block_id env g) g fmempty"
    "\<exists>g. create_genesis env (genesis_difficulty cfg) (genesis_timestamp cfg) (initial_block_subsidy cfg) = Some g \<and>
       genesis_id (node_hub (net i)) = block_id env g"
proof -
  obtain s m where s: "hub_new env i cfg = Some s" "node_hub (net i) = s\<lparr>peers := m\<rparr>" "fcard (fmdom m) \<le> PEER_SIZE_LIMIT"
    "list_all (hub_may env) (mailbox (net i))"
    using assms(1) [unfolded linked_start_def linked_node_def, rule_format, of i] by blast
  have "hub_inv env s" by (rule hub_new_inv [OF assms(2,3) s(1)])
  then show "hub_good env (node_hub (net i))"
    using s(2,3) assms(2) hub_new_sel [OF s(1)] by (simp add: hub_good_def hub_inv_def stored_def)
  show "local_node_id (node_hub (net i)) = i" "list_all (hub_may env) (mailbox (net i))"
    "mempool (node_hub (net i)) = fmempty" "annoucements (node_hub (net i)) = fmempty"
    "\<exists>g. create_genesis env (genesis_difficulty cfg) (genesis_timestamp cfg) (initial_block_subsidy cfg) = Some g \<and>
       valid_blocks (node_hub (net i)) = fmupd (block_id env g) g fmempty"
    "\<exists>g. create_genesis env (genesis_difficulty cfg) (genesis_timestamp cfg) (initial_block_subsidy cfg) = Some g \<and>
       genesis_id (node_hub (net i)) = block_id env g"
    using s(2,4) hub_new_sel [OF s(1)] by auto
qed

lemma linked_start_represents:
  assumes "linked_start env cfg net"
  shows "represents env net (wires_of net)"
proof -
  have "carries env net i j []" for i j
  proof -
    have "linked_node env cfg i (net i)" "linked_node env cfg j (net j)" using assms by (simp_all add: linked_start_def)
    then have "fmlookup (peers (node_hub (net i))) j = Some st \<Longrightarrow> st = []" "consumed (net j) i = 0" for st
      unfolding linked_node_def by fastforce+
    then show ?thesis by (auto simp: carries_def split: option.split)
  qed
  then show ?thesis by (simp add: represents_def wires_of_def)
qed

lemma linked_start_good:
  assumes "linked_start env cfg net" "env_ok env" "signatures_verify env"
  shows "\<forall>i. hub_good env (at_node (wires_of net) i) \<and> local_node_id (at_node (wires_of net) i) = i \<and>
      list_all (hub_may env) (inbox (wires_of net) i)"
    "\<forall>i j x. x |\<in>| fmdom (valid_blocks (at_node (wires_of net) i)) \<longrightarrow> knows_block (at_node (wires_of net) j) x"
    "\<forall>i j t. t |\<in>| fmdom (mempool (at_node (wires_of net) i)) \<longrightarrow> settled env (at_node (wires_of net) j) t"
    "\<forall>j t. fmlookup (annoucements (at_node (wires_of net) j)) t = None"
proof -
  note n = linked_start_node [OF assms]
  have "knows_block (node_hub (net j)) x" if "x |\<in>| fmdom (valid_blocks (node_hub (net i)))" for i j x
    using n(6) [of i] n(6) [of j] that by (auto simp: knows_block_def)
  then show "\<forall>i. hub_good env (at_node (wires_of net) i) \<and> local_node_id (at_node (wires_of net) i) = i \<and>
      list_all (hub_may env) (inbox (wires_of net) i)"
    "\<forall>i j x. x |\<in>| fmdom (valid_blocks (at_node (wires_of net) i)) \<longrightarrow> knows_block (at_node (wires_of net) j) x"
    "\<forall>i j t. t |\<in>| fmdom (mempool (at_node (wires_of net) i)) \<longrightarrow> settled env (at_node (wires_of net) j) t"
    "\<forall>j t. fmlookup (annoucements (at_node (wires_of net) j)) t = None"
    by (simp_all add: wires_of_def n(1-5))
qed

text \<open>A run over bytes is a run over messages.\<close>

lemma calm_run_simulated:
  assumes run: "(calm_step env parse)\<^sup>*\<^sup>* net0 net" and start: "linked_start env cfg net0"
    and env: "env_ok env" "signatures_verify env" "reliable env" "codec_faithful env parse"
  shows "\<exists>w. (hub_wire_step env)\<^sup>*\<^sup>* (wires_of net0) w \<and> represents env net w \<and>
    (\<forall>i. genesis_id (node_hub (net i)) = genesis_id (node_hub (net0 i)) \<and> hub_good env (node_hub (net i)) \<and> list_all (hub_may env) (mailbox (net i)))"
  using run
proof (induction rule: rtranclp_induct)
  case base
  show ?case using linked_start_represents [OF start] linked_start_node [OF start env(1,2)] by blast
next
  case (step net1 net2)
  then obtain w1 where w1: "(hub_wire_step env)\<^sup>*\<^sup>* (wires_of net0) w1" "represents env net1 w1"
    and good: "\<forall>i. genesis_id (node_hub (net1 i)) = genesis_id (node_hub (net0 i)) \<and> hub_good env (node_hub (net1 i)) \<and>
      list_all (hub_may env) (mailbox (net1 i))" by blast
  have inv: "\<forall>i. hub_inv env (node_hub (net1 i)) \<and> list_all (hub_may env) (mailbox (net1 i))"
    using good by (simp add: hub_good_def)
  obtain w2 where w2: "hub_wire_step env w1 w2" "represents env net2 w2"
    using calm_step_simulated [OF env(1,3,4) step.hyps(2) w1(2) inv] by blast
  then have run2: "(hub_wire_step env)\<^sup>*\<^sup>* (wires_of net0) w2" using w1(1) by simp
  have "\<forall>i. hub_good env (at_node w2 i) \<and> list_all (hub_may env) (inbox w2 i)"
    using blocks_spread.run_good [OF run2 linked_start_good(1) [OF start env(1,2)]] by blast
  moreover have "genesis_id (node_hub (net2 i)) = genesis_id (node_hub (net0 i))" for i
    using calm_step_genesis [OF env(1) step.hyps(2) inv, of i] good by simp
  ultimately show ?case using w2(2) run2 by (auto simp: represents_def)
qed

lemma at_rest_quiet:
  assumes "represents env net w" "at_rest net"
  shows "quiet w"
proof -
  have "wire w i j = []" for i j
  proof (cases "fmlookup (peers (node_hub (net i))) j")
    case None
    moreover have "carries env net i j (wire w i j)" using assms(1) by (simp add: represents_def)
    ultimately show ?thesis by (simp add: carries_def)
  next
    case (Some st)
    then have "consumed (net j) i = length st" using assms(2) by (auto simp: at_rest_def)
    moreover have "carries env net i j (wire w i j)" using assms(1) by (simp add: represents_def)
    ultimately show ?thesis using carries_Some [of net i j st env "wire w i j"] Some wire_bytes_Nil [of env "wire w i j"] by simp
  qed
  then show ?thesis using assms by (simp add: quiet_def represents_def at_rest_def)
qed

section \<open>At rest the nodes agree\<close>

lemma at_rest_known:
  assumes run: "(calm_step env parse)\<^sup>*\<^sup>* net0 net" and start: "linked_start env cfg net0"
    and env: "env_ok env" "signatures_verify env" "reliable env" "codec_faithful env parse" and rest: "at_rest net"
    and ij: "i \<noteq> j" "j |\<in>| fmdom (peers (node_hub (net i)))"
  shows "x |\<in>| fmdom (valid_blocks (node_hub (net i))) \<Longrightarrow> knows_block (node_hub (net j)) x"
    "t |\<in>| fmdom (mempool (node_hub (net i))) \<Longrightarrow> settled env (node_hub (net j)) t"
    "hub_inv env (node_hub (net n))" "genesis_id (node_hub (net i)) = genesis_id (node_hub (net j))"
proof -
  obtain w where w: "(hub_wire_step env)\<^sup>*\<^sup>* (wires_of net0) w" "represents env net w"
    and good: "\<forall>i. genesis_id (node_hub (net i)) = genesis_id (node_hub (net0 i)) \<and> hub_good env (node_hub (net i))"
    using calm_run_simulated [OF run start env] by blast
  have at: "at_node w k = node_hub (net k)" for k using w(2) by (simp add: represents_def)
  note begin_good = linked_start_good [OF start env(1,2)] and quiet = at_rest_quiet [OF w(2) rest]
  show "x |\<in>| fmdom (valid_blocks (node_hub (net i))) \<Longrightarrow> knows_block (node_hub (net j)) x"
    using blocks_spread.run_complete [OF w(1) quiet begin_good(1,2) _ ij(1), of x] ij(2) at by (simp add: neighbours_of_def)
  show "t |\<in>| fmdom (mempool (node_hub (net i))) \<Longrightarrow> settled env (node_hub (net j)) t"
    using transactions_spread.run_complete [OF w(1) quiet begin_good(1,3,4) ij(1), of t] ij(2) at by (simp add: neighbours_of_def)
  show "hub_inv env (node_hub (net n))" using good by (simp add: hub_good_def)
  show "genesis_id (node_hub (net i)) = genesis_id (node_hub (net j))"
    using good linked_start_node(7) [OF start env(1,2), of i] linked_start_node(7) [OF start env(1,2), of j] by auto
qed

text \<open>If a hub knows all of a branch, it has it, unless it has marked a block of it invalid.\<close>

lemma known_branch_valid:
  assumes inv: "hub_inv env s" and blocks: "blocks_inv env m (genesis_id s)" and x: "fmlookup m x = Some b"
    and known: "\<And>y c. fmlookup m y = Some c \<Longrightarrow> knows_block s y"
    and apart: "no_collision env m (unconfirmed_blocks s)"
    and fine: "\<forall>a \<in> set (branch m x). block_id env a |\<notin>| invalid_blocks s"
  shows "x |\<in>| fmdom (valid_blocks s)"
  using blocks x fine
proof (induction rule: blocks_induct)
  case (root b)
  then show ?case using blocks_inv_genesis [OF hub_inv_blocks [OF inv]] by (auto intro: fmdomI)
next
  case (step i b p)
  have br: "branch m i = branch m (prev_id b) @ [b]" by (rule branch_step [OF blocks step.hyps(1,2)])
  then have parent: "prev_id b |\<in>| fmdom (valid_blocks s)" using step.IH step.prems by simp
  have i: "block_id env b = i" using blocks_inv_id [OF blocks step.hyps(1)] by simp
  then have "i |\<notin>| invalid_blocks s" using step.prems br by simp
  then have "i |\<in>| fmdom (valid_blocks s) \<or> i |\<in>| fmdom (unconfirmed_blocks s)"
    using known [OF step.hyps(1)] by (auto simp: knows_block_def)
  then show ?case
  proof
    assume "i |\<in>| fmdom (unconfirmed_blocks s)"
    then obtain c where c: "fmlookup (unconfirmed_blocks s) i = Some c" by (auto simp: fmlookup_dom_iff)
    have "block_id env c = i" using hub_inv_pools [OF inv] c pools_unconf by (fastforce simp: pool_inv_def)
    then have "b = c" using apart step.hyps(1) c i by (auto simp: no_collision_def fmran'I)
    then have "fmlookup (valid_blocks s) (prev_id b) = None" using hub_inv_orphan [OF inv c] by simp
    then show ?thesis using parent by (auto simp: fmlookup_dom_iff)
  qed
qed

lemma at_rest_blocks:
  assumes run: "(calm_step env parse)\<^sup>*\<^sup>* net0 net" and start: "linked_start env cfg net0"
    and env: "env_ok env" "signatures_verify env" "reliable env" "codec_faithful env parse" and rest: "at_rest net"
    and ij: "i \<noteq> j" "j |\<in>| fmdom (peers (node_hub (net i)))"
    and apart: "no_collision env (valid_blocks (node_hub (net i))) (unconfirmed_blocks (node_hub (net j)))"
    and x: "fmlookup (valid_blocks (node_hub (net i))) x = Some b"
  shows "x |\<in>| fmdom (valid_blocks (node_hub (net j))) \<or>
    (\<exists>a \<in> set (branch (valid_blocks (node_hub (net i))) x). block_id env a |\<in>| invalid_blocks (node_hub (net j)))"
proof -
  note k = at_rest_known [OF run start env rest ij]
  have "blocks_inv env (valid_blocks (node_hub (net i))) (genesis_id (node_hub (net j)))"
    using hub_inv_blocks [OF k(3) [of i]] k(4) by simp
  from known_branch_valid [OF k(3) this x k(1) apart] show ?thesis by (blast intro: fmdomI)
qed

end
