(* ===== verification/Quiet_Properties.thy ===== *)
theory Quiet_Properties
  imports Quiet_Network Sample_Network
begin

text \<open>
  Properties of networks at rest, with a network of two nodes that get the same block, or the same transaction,
  and tell each other of it.
\<close>

section \<open>Two nodes that tell each other what both know\<close>

lemma six_steps: "r a b \<Longrightarrow> r b c \<Longrightarrow> r c d \<Longrightarrow> r d e \<Longrightarrow> r e f \<Longrightarrow> r f g \<Longrightarrow> r\<^sup>*\<^sup>* a g"
  by (meson rtranclp.rtrancl_refl converse_rtranclp_into_rtranclp)

lemma echo_run:
  assumes ij: "i \<noteq> j" and boxes: "mailbox (net i) = [mi]" "mailbox (net j) = [mj]"
    and handled: "handle env now (node_hub (net i)) mi = Some (Inr ri, si)" "handle env now (node_hub (net j)) mj = Some (Inr rj, sj)"
    and streams: "fmlookup (peers si) j = Some (frame_bytes bi)" "fmlookup (peers sj) i = Some (frame_bytes bj)"
      "consumed (net j) i = 0" "consumed (net i) j = 0"
    and travel: "travels env parse pi bi" "travels env parse pj bj"
    and fits: "\<And>k. list_all (framed env) (outgoing env now (node_hub (net i)) mi k)" "\<And>k. list_all (framed env) (outgoing env now (node_hub (net j)) mj k)"
      "\<And>k. list_all (framed env) (outgoing env now sj (peer_cast i pi) k)" "\<And>k. list_all (framed env) (outgoing env now si (peer_cast j pj) k)"
    and ignored: "handle env now sj (peer_cast i pi) = Some (Inr rj', sj)" "handle env now si (peer_cast j pj) = Some (Inr ri', si)"
  shows "\<exists>net'. (calm_step env parse)\<^sup>*\<^sup>* net net' \<and> node_hub (net' i) = si \<and> node_hub (net' j) = sj \<and>
    mailbox (net' i) = [] \<and> mailbox (net' j) = [] \<and>
    consumed (net' i) = (consumed (net i))(j := length (frame_bytes bj)) \<and>
    consumed (net' j) = (consumed (net j))(i := length (frame_bytes bi)) \<and> (\<forall>k. k \<noteq> i \<longrightarrow> k \<noteq> j \<longrightarrow> net' k = net k)"
proof -
  let ?n1 = "net(i := (net i)\<lparr>node_hub := si, mailbox := []\<rparr>)"
  let ?n2 = "?n1(j := (?n1 j)\<lparr>node_hub := sj, mailbox := []\<rparr>)"
  let ?n3 = "?n2(j := (?n2 j)\<lparr>mailbox := mailbox (?n2 j) @ [peer_cast i pi],
      consumed := (consumed (?n2 j))(i := length (frame_bytes bi) - length ([] :: u8 list))\<rparr>)"
  let ?n4 = "?n3(j := (?n3 j)\<lparr>node_hub := sj, mailbox := []\<rparr>)"
  let ?n5 = "?n4(i := (?n4 i)\<lparr>mailbox := mailbox (?n4 i) @ [peer_cast j pj],
      consumed := (consumed (?n4 i))(j := length (frame_bytes bj) - length ([] :: u8 list))\<rparr>)"
  let ?n6 = "?n5(i := (?n5 i)\<lparr>node_hub := si, mailbox := []\<rparr>)"
  have read: "read_message (frame_bytes b) = Some (b, [])" if "travels env parse p b" for p b
    using that read_message_frame [of b "[]"] by (simp add: travels_def)
  have 1: "calm_step env parse net ?n1" 
    by (rule calm_deliver [where m = mi and r = ri and now = now]) (use boxes handled fits in simp_all)
  have 2: "calm_step env parse ?n1 ?n2"
    by (rule calm_deliver [where m = mj and r = rj and now = now]) (use ij boxes handled fits in simp_all)
  have 3: "calm_step env parse ?n2 ?n3"
    by (rule calm_receive [where sent = "frame_bytes bi" and buf = bi])
       (use ij streams read [OF travel(1)] travel(1) in \<open>simp_all add: travels_def\<close>)
  have 4: "calm_step env parse ?n3 ?n4"
    by (rule calm_deliver [where m = "peer_cast i pi" and r = rj' and now = now]) (use ij ignored fits in simp_all)
  have 5: "calm_step env parse ?n4 ?n5"
    by (rule calm_receive [where sent = "frame_bytes bj" and buf = bj])
       (use ij streams read [OF travel(2)] travel(2) in \<open>simp_all add: travels_def\<close>)
  have 6: "calm_step env parse ?n5 ?n6"
    by (rule calm_deliver [where m = "peer_cast j pj" and r = ri' and now = now]) (use ij ignored fits in simp_all)
  have "(calm_step env parse)\<^sup>*\<^sup>* net ?n6"
    by (rule six_steps [of "calm_step env parse"]) (rule 1 2 3 4 5 6)+
  then show ?thesis using ij by (intro exI [of _ ?n6]) simp
qed

section \<open>The sample network\<close>

lemma sample_codec: "codec_faithful sample_env sample_parse"
proof -
  have "pm' = pm" if "sample_message_bytes pm = Some buf" "transport_decode sample_env sample_parse buf = Some (Inr pm')" for pm buf pm'
    using that
  proof (cases pm)
    case (Broadcast m)
    then show ?thesis using that
      by (cases m) (auto simp: sample_message_bytes_def transport_decode_def sample_parse_def)
  next
    case (GetTransactionRequest t)
    then show ?thesis using that
      by (cases t; cases "hash_bytes t") (auto simp: sample_message_bytes_def transport_decode_def sample_parse_def)
  next
    case (GetBlockRequest t)
    then show ?thesis using that
      by (cases t; cases "hash_bytes t") (auto simp: sample_message_bytes_def transport_decode_def sample_parse_def)
  qed (auto simp: sample_message_bytes_def transport_decode_def sample_parse_def split: list.splits if_splits)
  then show ?thesis by (simp add: codec_faithful_def)
qed

text \<open>Clients tell the nodes of \<open>S\<close> the same; node 1 and node 2 are peers.\<close>

definition told :: "nat set \<Rightarrow> (nat, u8 list) PeerHubActorMessage \<Rightarrow> nat net" where
  "told S m = (\<lambda>i. \<lparr>node_hub = node_of sample_start i, mailbox = (if i \<in> S then [m] else []), consumed = \<lambda>_. 0\<rparr>)"

abbreviation told_both :: "(nat, u8 list) PeerHubActorMessage \<Rightarrow> nat net" where
  "told_both \<equiv> told {1, 2}"

lemma told_start:
  assumes "hub_may sample_env m"
  shows "linked_start sample_env sample_config (told S m)"
proof -
  have "linked_node sample_env sample_config i (told S m i)" for i
    unfolding linked_node_def
  proof (intro exI conjI)
    show "hub_new sample_env i sample_config = Some (sample_start\<lparr>local_node_id := i\<rparr>)"
      using sample_genesis_new by (simp add: hub_new_def sample_config_def sample_start_def Let_def)
    show "node_hub (told S m i) = sample_start\<lparr>local_node_id := i\<rparr>\<lparr>peers := fmupd (3 - i) [] fmempty\<rparr>"
      by (simp add: told_def node_of_def)
  qed (use assms in \<open>auto simp: told_def PEER_SIZE_LIMIT_def fcard.rep_eq split: if_splits\<close>)
  then show ?thesis by (simp add: linked_start_def)
qed

text \<open>A node of the sample that takes a block, or a transaction, announces it to the other, and ignores being
  told of it.\<close>

definition tells :: "(nat, u8 list) PeerHubActorMessage \<Rightarrow> nat PeerMessage \<Rightarrow> nat \<Rightarrow> (nat, u8 list) hub \<Rightarrow> bool" where
  "tells m p i s \<longleftrightarrow> handle sample_env 100 (node_of sample_start i) m = Some (Inr None, s) \<and>
     fmlookup (peers s) (3 - i) = Some (frame_bytes (the (sample_message_bytes p))) \<and>
     (\<forall>k. k \<noteq> 3 - i \<longrightarrow> fmlookup (peers s) k = None) \<and>
     (\<forall>k. set (outgoing sample_env 100 (node_of sample_start i) m k) \<subseteq> {p}) \<and>
     handle sample_env 100 s (peer_cast (3 - i) p) = Some (Inr None, s) \<and>
     outgoing sample_env 100 s (peer_cast (3 - i) p) = silent"

abbreviation block1_news :: "nat PeerMessage" where
  "block1_news \<equiv> Broadcast (BroadcastBlock (block_id sample_env sample_block1))"

lemma node_of_peers: "peers (node_of s i) = fmupd (3 - i) [] fmempty"
  by (simp add: node_of_def)

lemma sample_accepted:
  "hub_inv sample_env (node_of sample_start i)" "unheard sample_env (node_of sample_start i) sample_block1"
  "accepts sample_env (node_of sample_start i) sample_block1 (with_cash {|reward sample_genesis|} (node_of sample_start i))"
proof -
  have same: "genesis_id sample_start = genesis_id (node_of sample_start i)" "same_chain sample_start (node_of sample_start i)"
    by (simp_all add: same_chain_def node_of_def)
  show "hub_inv sample_env (node_of sample_start i)" by (rule node_of_inv [OF sample_start_inv])
  show "unheard sample_env (node_of sample_start i) sample_block1" by (simp add: unheard_def node_of_def sample_ids)
  show "accepts sample_env (node_of sample_start i) sample_block1 (with_cash {|reward sample_genesis|} (node_of sample_start i))"
    by (rule accepts_same_chain [OF sample_start_inv same sample_check1])
qed

lemma sample_taken:
  "\<exists>m'. new_block sample_env 100 (node_of sample_start i) None sample_block1 =
      Some (Inr None, with_block sample_env sample_block1 {|reward sample_genesis|} (node_of sample_start i)\<lparr>peers := m'\<rparr>)"
  using new_block_alone [OF sample_reliable sample_accepted(1,3,2), of 100 "0 # 1 # hash_bytes (block_id sample_env sample_block1)" i None]
  by (auto simp: sample_message_bytes_def)

lemma told_block:
  assumes "i = 1 \<or> i = 2"
  shows "\<exists>s. tells (NewBlock None sample_block1) block1_news i s"
proof -
  let ?s = "node_of sample_start i" and ?id = "block_id sample_env sample_block1"
  note new = sample_accepted(2) [of i] and inv = sample_accepted(1) [of i] and acc = sample_accepted(3) [of i]
  obtain m' where m': "new_block sample_env 100 ?s None sample_block1 =
      Some (Inr None, with_block sample_env sample_block1 {|reward sample_genesis|} ?s\<lparr>peers := m'\<rparr>)"
    using sample_taken by blast
  let ?s' = "with_block sample_env sample_block1 {|reward sample_genesis|} ?s\<lparr>peers := m'\<rparr>"
  have out: "outgoing sample_env 100 ?s (NewBlock None sample_block1) = to_all ?s [block1_news]"
    using accepted_alone [OF inv acc new] unheard_block [OF new] by (simp add: block_letters_def)
  have "wrote sample_env ?s (to_all ?s [block1_news]) ?s'"
    using handle_wrote [OF sample_env_ok sample_reliable inv, of "NewBlock None sample_block1" 100 None ?s'] m' out
    by (simp add: sample_block1_def)
  from wrote_at [OF this] assms have "fmlookup m' (3 - i) = Some (frame_bytes (the (sample_message_bytes block1_news)))"
    "\<And>k. k \<noteq> 3 - i \<Longrightarrow> fmlookup m' k = None"
    by (auto simp: node_of_peers to_all_def)
  moreover have "knows_block ?s' ?id" by (simp add: knows_block_def)
  ultimately show ?thesis
    using m' out by (intro exI [of _ ?s']) (auto simp: tells_def announce_block_def to_all_def)
qed

lemma told_state:
  assumes "tells (NewBlock None sample_block1) p i s"
  shows "valid_blocks s = valid_blocks sample_s1" "invalid_blocks s = {||}" "unconfirmed_blocks s = fmempty"
    "leading_block s = block_id sample_env sample_block1"
proof -
  obtain m' where "handle sample_env 100 (node_of sample_start i) (NewBlock None sample_block1) =
      Some (Inr None, with_block sample_env sample_block1 {|reward sample_genesis|} (node_of sample_start i)\<lparr>peers := m'\<rparr>)"
    using sample_taken [of i] by auto
  then have "s = with_block sample_env sample_block1 {|reward sample_genesis|} (node_of sample_start i)\<lparr>peers := m'\<rparr>"
    using assms by (simp add: tells_def)
  then show "valid_blocks s = valid_blocks sample_s1" "invalid_blocks s = {||}" "unconfirmed_blocks s = fmempty"
    "leading_block s = block_id sample_env sample_block1"
    by (simp_all add: node_of_def with_block_def)
qed

lemma told_transaction:
  assumes "i = 1 \<or> i = 2"
  shows "\<exists>s. tells (NewTransaction sample_txn) (Broadcast (BroadcastTransaction (txn_id sample_env sample_txn))) i s"
proof -
  let ?t = "txn_id sample_env sample_txn"
  let ?p = "Broadcast (BroadcastTransaction ?t) :: nat PeerMessage" and ?s = "node_of sample_start i"
  let ?sp = "?s\<lparr>mempool := fmupd ?t sample_txn (mempool ?s)\<rparr>"
  obtain m' where m': "broadcast sample_env ?sp (local_node_id ?sp) (BroadcastTransaction ?t) = (Inr (), ?sp\<lparr>peers := m'\<rparr>)"
    using broadcast_ok [OF sample_orders_ok reliable_writes_ok [OF sample_reliable], of "BroadcastTransaction ?t" "0 # 0 # hash_bytes ?t" ?sp i]
    by (auto simp: sample_message_bytes_def)
  let ?s' = "?sp\<lparr>peers := m', annoucements := fmdrop ?t (annoucements ?s)\<rparr>"
  have new: "?t |\<notin>| fmdom (mempool ?s)" by simp
  have call: "new_transaction sample_env ?s sample_txn = Some (Inr None, ?s')"
    using m' new by (simp add: new_transaction_def Let_def)
  have "wrote sample_env ?s (to_all ?s [?p]) ?s'"
    using new_transaction_wrote [OF sample_reliable call, of 100] new by simp
  from wrote_at [OF this] assms have "fmlookup m' (3 - i) = Some (frame_bytes (the (sample_message_bytes ?p)))"
    "\<And>k. k \<noteq> 3 - i \<Longrightarrow> fmlookup m' k = None"
    by (auto simp: node_of_peers to_all_def)
  moreover have "knows_transaction ?s' ?t" by (simp add: knows_transaction_def)
  ultimately show ?thesis
    using call new by (intro exI [of _ ?s']) (auto simp: tells_def announce_transaction_def to_all_def)
qed

lemma told_both_rest:
  assumes "node_hub (net' 1) = s1" "node_hub (net' 2) = s2" "mailbox (net' 1) = []" "mailbox (net' 2) = []"
    and "consumed (net' 1) = (consumed (told_both m 1))(2 := length f2)" "consumed (net' 2) = (consumed (told_both m 2))(1 := length f1)"
    and "\<And>k. k \<noteq> 1 \<Longrightarrow> k \<noteq> 2 \<Longrightarrow> net' k = told_both m k"
    and "fmlookup (peers s1) 2 = Some f1" "\<And>k. k \<noteq> 2 \<Longrightarrow> fmlookup (peers s1) k = None"
    and "fmlookup (peers s2) 1 = Some f2" "\<And>k. k \<noteq> 1 \<Longrightarrow> fmlookup (peers s2) k = None"
  shows "at_rest net'"
  unfolding at_rest_def
proof (intro conjI allI impI)
  show "mailbox (net' i) = []" for i
    using assms(3,4,7) by (cases "i = 1 \<or> i = 2") (auto simp: told_def)
  fix i j st assume st: "fmlookup (peers (node_hub (net' i))) j = Some st"
  consider "i = 1" | "i = 2" | "i \<noteq> 1" "i \<noteq> 2" by blast
  then show "consumed (net' j) i = length st"
  proof cases
    case 1
    then have "j = 2" "st = f1" using st assms(1,8,9) by (metis option.distinct(1) option.inject)+
    then show ?thesis using 1 assms(6) by simp
  next
    case 2
    then have "j = 1" "st = f2" using st assms(2,10,11) by (metis option.distinct(1) option.inject)+
    then show ?thesis using 2 assms(5) by simp
  next
    case 3
    then have "st = []" using st assms(7) by (auto simp: told_def node_of_def split: if_splits)
    moreover have "consumed (net' j) i = 0"
      using 3 assms(5-7) by (cases "j = 1"; cases "j = 2") (auto simp: told_def)
    ultimately show ?thesis by simp
  qed
qed

lemma told_pool:
  assumes "tells (NewTransaction sample_txn) p i s"
  shows "fmlookup (mempool s) (txn_id sample_env sample_txn) = Some sample_txn"
proof -
  have "new_transaction sample_env (node_of sample_start i) sample_txn = Some (Inr None, s)" using assms by (simp add: tells_def)
  from new_transaction_streams [OF this]
  obtain s1 where s1: "same_but_streams (node_of sample_start i\<lparr>mempool := fmupd (txn_id sample_env sample_txn) sample_txn
      (mempool (node_of sample_start i))\<rparr>) s1" "s = s1\<lparr>annoucements := fmdrop (txn_id sample_env sample_txn) (annoucements s1)\<rparr>"
    by auto
  then show ?thesis using streams_same [OF s1(1)] by (simp add: same_pool_def)
qed

lemma told_echo:
  assumes may: "hub_may sample_env m" and one: "tells m p 1 s1" and two: "tells m p 2 s2" and p: "travels sample_env sample_parse p buf"
  shows "\<exists>net'. (calm_step sample_env sample_parse)\<^sup>*\<^sup>* (told_both m) net' \<and> at_rest net' \<and>
    node_hub (net' 1) = s1 \<and> node_hub (net' 2) = s2 \<and> (\<forall>k. k \<noteq> 1 \<longrightarrow> k \<noteq> 2 \<longrightarrow> net' k = told_both m k)"
proof -
  have buf: "sample_message_bytes p = Some buf" "length buf < 2 ^ 32" using p by (simp_all add: travels_def)
  then have "framed sample_env p" by (simp add: framed_def)
  then have fits: "list_all (framed sample_env) (outgoing sample_env 100 (node_of sample_start 1) m k)"
    "list_all (framed sample_env) (outgoing sample_env 100 (node_of sample_start 2) m k)" for k
    using one two by (auto simp: tells_def list_all_iff)
  have boxes: "mailbox (told_both m 1) = [m]" "mailbox (told_both m 2) = [m]" "consumed (told_both m k) = (\<lambda>_. 0)"
    "node_hub (told_both m k) = node_of sample_start k" for k by (simp_all add: told_def)
  have s: "handle sample_env 100 (node_of sample_start 1) m = Some (Inr None, s1)"
    "handle sample_env 100 (node_of sample_start 2) m = Some (Inr None, s2)"
    "fmlookup (peers s1) 2 = Some (frame_bytes buf)" "fmlookup (peers s2) 1 = Some (frame_bytes buf)"
    "handle sample_env 100 s1 (peer_cast 2 p) = Some (Inr None, s1)" "handle sample_env 100 s2 (peer_cast 1 p) = Some (Inr None, s2)"
    "outgoing sample_env 100 s1 (peer_cast 2 p) = silent" "outgoing sample_env 100 s2 (peer_cast 1 p) = silent"
    using one two buf(1) by (simp_all add: tells_def numeral_eq_Suc)
  obtain net' where net': "(calm_step sample_env sample_parse)\<^sup>*\<^sup>* (told_both m) net'" "node_hub (net' 1) = s1" "node_hub (net' 2) = s2"
    "mailbox (net' 1) = []" "mailbox (net' 2) = []"
    "consumed (net' 1) = (consumed (told_both m 1))(2 := length (frame_bytes buf))"
    "consumed (net' 2) = (consumed (told_both m 2))(1 := length (frame_bytes buf))"
    "\<forall>k. k \<noteq> 1 \<longrightarrow> k \<noteq> 2 \<longrightarrow> net' k = told_both m k"
    using echo_run [of 1 2 "told_both m" m m sample_env 100 None s1 None s2 buf buf sample_parse p p None None] s p fits boxes
    by (auto simp: silent_def)
  have "at_rest net'"
    by (rule told_both_rest [OF net'(2-7)]) (use net'(8) s(3,4) one two in \<open>simp_all add: tells_def numeral_eq_Suc\<close>)
  then show ?thesis using net' by blast
qed

lemma sample_news_travels:
  "travels sample_env sample_parse block1_news (the (sample_message_bytes block1_news))"
  "travels sample_env sample_parse (Broadcast (BroadcastTransaction (txn_id sample_env sample_txn)))
     (the (sample_message_bytes (Broadcast (BroadcastTransaction (txn_id sample_env sample_txn)))))"
proof -
  have "length (hash_bytes (block_id sample_env sample_block1)) < 100" "length (hash_bytes (txn_id sample_env sample_txn)) < 100"
    by (simp_all add: block_id_def txn_id_def sample_env_def sample_sha256_def)
  then show "travels sample_env sample_parse block1_news (the (sample_message_bytes block1_news))"
    "travels sample_env sample_parse (Broadcast (BroadcastTransaction (txn_id sample_env sample_txn)))
     (the (sample_message_bytes (Broadcast (BroadcastTransaction (txn_id sample_env sample_txn)))))"
    by (cases "block_id sample_env sample_block1"; cases "txn_id sample_env sample_txn";
      simp add: travels_def sample_message_bytes_def sample_parse_def transport_decode_def)+
qed

section \<open>Networks at rest\<close>

lemma at_rest_leader:
  assumes run: "(calm_step env parse)\<^sup>*\<^sup>* net0 net" and start: "linked_start env cfg net0"
    and env: "env_ok env" "signatures_verify env" "reliable env" "codec_faithful env parse" and rest: "at_rest net"
    and ij: "i \<noteq> j" "j |\<in>| fmdom (peers (node_hub (net i)))"
    and apart: "no_collision env (valid_blocks (node_hub (net i))) (valid_blocks (node_hub (net j)))"
    and x: "x = leading_block (node_hub (net i))" "x |\<in>| fmdom (valid_blocks (node_hub (net j)))"
  shows "\<exists>l l'. fmlookup (valid_blocks (node_hub (net i))) x = Some l \<and>
    fmlookup (valid_blocks (node_hub (net j))) (leading_block (node_hub (net j))) = Some l' \<and> height l \<le> height l'"
proof -
  note k = at_rest_known [OF run start env rest ij]
  obtain l where l: "fmlookup (valid_blocks (node_hub (net i))) x = Some l"
    using hub_inv_leader [OF k(3) [of i]] x(1) by (auto simp: leads_def)
  obtain l' where l': "fmlookup (valid_blocks (node_hub (net j))) (leading_block (node_hub (net j))) = Some l'"
    "\<And>y b. fmlookup (valid_blocks (node_hub (net j))) y = Some b \<Longrightarrow> height b \<le> height l'"
    using hub_inv_leader [OF k(3) [of j]] by (auto simp: leads_def)
  obtain b where b: "fmlookup (valid_blocks (node_hub (net j))) x = Some b" using x(2) by (auto simp: fmlookup_dom_iff)
  have "block_id env l = block_id env b"
    using blocks_inv_id [OF hub_inv_blocks [OF k(3)] l] blocks_inv_id [OF hub_inv_blocks [OF k(3)] b] by simp
  then have "l = b" using apart l b by (auto simp: no_collision_def fmran'I)
  then show ?thesis using l l' b by blast
qed

text \<open>When a network in which nothing fails comes to rest, what a node knows its peers know: every block
  that is valid at a node is valid at each of its peers, unless the peer has marked that block, or one it
  descends from, invalid; and if it has marked none of the node's leading branch, the peer's leading block is at
  least as high as the node's. Nothing is assumed of the order in which messages were sent, carried and handled;
  that no two blocks of the two nodes share an identifier is.\<close>

theorem quiet_nodes_agree:
  assumes run: "(calm_step env parse)\<^sup>*\<^sup>* net0 net" and start: "linked_start env cfg net0"
    and env: "env_ok env" "signatures_verify env" "reliable env" "codec_faithful env parse" and rest: "at_rest net"
    and ij: "i \<noteq> j" "j |\<in>| fmdom (peers (node_hub (net i)))"
    and apart: "no_collision env (valid_blocks (node_hub (net i))) (valid_blocks (node_hub (net j)))"
      "no_collision env (valid_blocks (node_hub (net i))) (unconfirmed_blocks (node_hub (net j)))"
  shows "(\<forall>x b. fmlookup (valid_blocks (node_hub (net i))) x = Some b \<longrightarrow>
      x |\<in>| fmdom (valid_blocks (node_hub (net j))) \<or>
      (\<exists>a \<in> set (branch (valid_blocks (node_hub (net i))) x). block_id env a |\<in>| invalid_blocks (node_hub (net j)))) \<and>
    ((\<forall>a \<in> set (branch (valid_blocks (node_hub (net i))) (leading_block (node_hub (net i)))).
        block_id env a |\<notin>| invalid_blocks (node_hub (net j))) \<longrightarrow>
      (\<exists>l l'. fmlookup (valid_blocks (node_hub (net i))) (leading_block (node_hub (net i))) = Some l \<and>
        fmlookup (valid_blocks (node_hub (net j))) (leading_block (node_hub (net j))) = Some l' \<and> height l \<le> height l'))"
proof -
  note valid = at_rest_blocks [OF run start env rest ij apart(2)]
  obtain l where "fmlookup (valid_blocks (node_hub (net i))) (leading_block (node_hub (net i))) = Some l"
    using hub_inv_leader [OF at_rest_known(3) [OF run start env rest ij, of i]] by (auto simp: leads_def)
  with valid have "leading_block (node_hub (net i)) |\<in>| fmdom (valid_blocks (node_hub (net j)))"
    if "\<forall>a \<in> set (branch (valid_blocks (node_hub (net i))) (leading_block (node_hub (net i)))).
        block_id env a |\<notin>| invalid_blocks (node_hub (net j))" using that by blast
  with at_rest_leader [OF run start env rest ij apart(1) refl]
  have "(\<forall>a \<in> set (branch (valid_blocks (node_hub (net i))) (leading_block (node_hub (net i)))).
        block_id env a |\<notin>| invalid_blocks (node_hub (net j))) \<longrightarrow>
      (\<exists>l l'. fmlookup (valid_blocks (node_hub (net i))) (leading_block (node_hub (net i))) = Some l \<and>
        fmlookup (valid_blocks (node_hub (net j))) (leading_block (node_hub (net j))) = Some l' \<and> height l \<le> height l')"
    by blast
  with valid show ?thesis by blast
qed

theorem quiet_nodes_agree_witness:
  "\<exists>net. (calm_step sample_env sample_parse)\<^sup>*\<^sup>* (told_both (NewBlock None sample_block1)) net \<and> at_rest net \<and>
     leading_block (node_hub (net 1)) = block_id sample_env sample_block1 \<and>
     (\<exists>l l'. fmlookup (valid_blocks (node_hub (net 1))) (leading_block (node_hub (net 1))) = Some l \<and>
        fmlookup (valid_blocks (node_hub (net 2))) (leading_block (node_hub (net 2))) = Some l' \<and> height l \<le> height l')"
proof -
  obtain s1 s2 where told: "tells (NewBlock None sample_block1) block1_news 1 s1" "tells (NewBlock None sample_block1) block1_news 2 s2"
    using told_block [of 1] told_block [of 2] by blast
  have s: "valid_blocks s1 = valid_blocks sample_s1" "invalid_blocks s2 = {||}" "unconfirmed_blocks s2 = fmempty"
    "valid_blocks s2 = valid_blocks sample_s1" "leading_block s1 = block_id sample_env sample_block1" "2 |\<in>| fmdom (peers s1)"
    using told_state [OF told(1)] told_state [OF told(2)] told by (auto simp: tells_def intro: fmdomI)
  obtain net where net: "(calm_step sample_env sample_parse)\<^sup>*\<^sup>* (told_both (NewBlock None sample_block1)) net" "at_rest net"
    "node_hub (net 1) = s1" "node_hub (net 2) = s2"
    using told_echo [OF _ told sample_news_travels(1)] by (auto simp: sample_block1_def)
  have apart: "no_collision sample_env (valid_blocks sample_s1) (valid_blocks sample_s1)" 
    by (auto simp: no_collision_def sample_ids elim!: fmran'E split: if_splits)
  have start: "linked_start sample_env sample_config (told_both (NewBlock None sample_block1))"
    by (rule told_start) (simp add: sample_block1_def)
  have fine: "no_collision sample_env (valid_blocks s1) (unconfirmed_blocks s2)" by (auto simp: no_collision_def s elim: fmran'E)
  note agree = quiet_nodes_agree [OF net(1) start sample_env_ok sample_signatures sample_reliable sample_codec net(2),
      of 1 2, unfolded net(3,4), OF _ s(6) _ fine]
  have "\<exists>l l'. fmlookup (valid_blocks s1) (leading_block s1) = Some l \<and>
        fmlookup (valid_blocks s2) (leading_block s2) = Some l' \<and> height l \<le> height l'"
    using agree apart s(2) by (simp only: s(1,4)) simp
  then show ?thesis using net s(5) by blast
qed

text \<open>C19: When such a network comes to rest, every transaction in the pool of a node is in the pool of each of
  its peers or in one of the peer's valid blocks.\<close>

theorem quiet_nodes_share_transactions:
  assumes run: "(calm_step env parse)\<^sup>*\<^sup>* net0 net" and start: "linked_start env cfg net0"
    and env: "env_ok env" "signatures_verify env" "reliable env" "codec_faithful env parse" and rest: "at_rest net"
    and ij: "i \<noteq> j" "j |\<in>| fmdom (peers (node_hub (net i)))" and t: "t |\<in>| fmdom (mempool (node_hub (net i)))"
  shows "t |\<in>| fmdom (mempool (node_hub (net j))) \<or>
    (\<exists>x b. fmlookup (valid_blocks (node_hub (net j))) x = Some b \<and> (\<exists>u \<in> set (transactions b). txn_id env u = t))"
  using at_rest_known(2) [OF run start env rest ij t] by (auto simp: settled_def has_txn_def)

theorem quiet_nodes_share_transactions_witness:
  "\<exists>net. (calm_step sample_env sample_parse)\<^sup>*\<^sup>* (told_both (NewTransaction sample_txn)) net \<and> at_rest net \<and>
     fmlookup (mempool (node_hub (net 1))) (txn_id sample_env sample_txn) = Some sample_txn \<and>
     (txn_id sample_env sample_txn |\<in>| fmdom (mempool (node_hub (net 2))) \<or>
      (\<exists>x b. fmlookup (valid_blocks (node_hub (net 2))) x = Some b \<and>
         (\<exists>u \<in> set (transactions b). txn_id sample_env u = txn_id sample_env sample_txn)))"
proof -
  let ?p = "Broadcast (BroadcastTransaction (txn_id sample_env sample_txn)) :: nat PeerMessage"
  obtain s1 s2 where told: "tells (NewTransaction sample_txn) ?p 1 s1" "tells (NewTransaction sample_txn) ?p 2 s2"
    using told_transaction [of 1] told_transaction [of 2] by blast
  have may: "hub_may sample_env (NewTransaction sample_txn :: (nat, u8 list) PeerHubActorMessage)" using sample_txn_valid by simp
  obtain net where net: "(calm_step sample_env sample_parse)\<^sup>*\<^sup>* (told_both (NewTransaction sample_txn)) net" "at_rest net"
    "node_hub (net 1) = s1" "node_hub (net 2) = s2"
    using told_echo [OF may told sample_news_travels(2)] by auto
  have "2 |\<in>| fmdom (peers s1)" using told(1) by (auto simp: tells_def intro: fmdomI)
  moreover have pooled: "fmlookup (mempool s1) (txn_id sample_env sample_txn) = Some sample_txn"
    using told_pool [OF told(1)] by simp
  ultimately show ?thesis
    using quiet_nodes_share_transactions [OF net(1) told_start [OF may] sample_env_ok sample_signatures sample_reliable
        sample_codec net(2), of 1 2 "txn_id sample_env sample_txn"] net by (auto intro: fmdomI)
qed

end
