(* ===== verification/Polling.thy ===== *)
theory Polling
  imports Test_Runs Quiet_Network
begin

text \<open>
  What a client gets that polls a node of a network in which nothing fails: the run of the network with the
  messages one of its nodes handles.
\<close>

inductive calm_trace ::
    "('sk, 'n::linorder, u8 list) hub_env \<Rightarrow> (u8 list \<Rightarrow> 'n RawMessage option) \<Rightarrow> 'n \<Rightarrow> 'n net \<Rightarrow>
     (Timestamp \<times> ('n, u8 list) PeerHubActorMessage) list \<Rightarrow> 'n net \<Rightarrow> bool"
  for env parse j net0 where
  start: "calm_trace env parse j net0 [] net0"
| handles: "\<lbrakk>calm_trace env parse j net0 ms net; mailbox (net j) = m # rest;
    handle env now (node_hub (net j)) m = Some (Inr r, s');
    \<And>k. list_all (framed env) (outgoing env now (node_hub (net j)) m k)\<rbrakk> \<Longrightarrow>
    calm_trace env parse j net0 (ms @ [(now, m)]) (net(j := (net j)\<lparr>node_hub := s', mailbox := rest\<rparr>))"
| elsewhere: "\<lbrakk>calm_trace env parse j net0 ms net; calm_step env parse net net'; node_hub (net' j) = node_hub (net j)\<rbrakk> \<Longrightarrow>
    calm_trace env parse j net0 ms net'"

lemma calm_trace_run: "calm_trace env parse j net0 ms net \<Longrightarrow> (calm_step env parse)\<^sup>*\<^sup>* net0 net"
proof (induction rule: calm_trace.induct)
  case (handles ms net m rest now r s')
  have "calm_step env parse net (net(j := (net j)\<lparr>node_hub := s', mailbox := rest\<rparr>))"
    by (rule calm_deliver [of net j m rest env now r s', OF handles.hyps(2,3)]) (rule handles.hyps(4))
  from rtranclp.rtrancl_into_rtrancl [where r = "calm_step env parse", OF handles.IH this] show ?case .
qed simp_all

text \<open>Every run has such a trace, for each of its nodes.\<close>

lemma calm_run_trace:
  "(calm_step env parse)\<^sup>*\<^sup>* net0 net \<Longrightarrow> \<exists>ms. calm_trace env parse j net0 ms net"
proof (induction rule: rtranclp_induct)
  case base
  then show ?case by (blast intro: calm_trace.start)
next
  case (step net1 net2)
  then obtain ms where ms: "calm_trace env parse j net0 ms net1" by blast
  from step.hyps(2) show ?case
  proof (cases rule: calm_step_cases)
    case (deliver i m rest now r s')
    then show ?thesis
    proof (cases "i = j")
      case True
      have "calm_trace env parse j net0 (ms @ [(now, m)]) (net1(j := (net1 j)\<lparr>node_hub := s', mailbox := rest\<rparr>))"
        by (rule calm_trace.handles [OF ms, where r = r]) (use deliver True in simp_all)
      then show ?thesis using deliver(1) True by blast
    next
      case False
      then have "node_hub (net2 j) = node_hub (net1 j)" using deliver(1) by simp
      from calm_trace.elsewhere [OF ms step.hyps(2) this] show ?thesis by blast
    qed
  next
    case (receive i j' sent buf rest pm)
    then have "node_hub (net2 j) = node_hub (net1 j)" by simp
    from calm_trace.elsewhere [OF ms step.hyps(2) this] show ?thesis by blast
  next
    case (client m i)
    then have "node_hub (net2 j) = node_hub (net1 j)" by simp
    from calm_trace.elsewhere [OF ms step.hyps(2) this] show ?thesis by blast
  qed
qed

lemma calm_trace_handled:
  assumes start: "linked_start env cfg net0" and env: "env_ok env" "signatures_verify env" "reliable env" "codec_faithful env parse"
  shows "calm_trace env parse j net0 ms net \<Longrightarrow>
    handle_all env (node_hub (net0 j)) ms = Some (node_hub (net j)) \<and> list_all (\<lambda>(now, m). message_ok env m) ms"
proof (induction rule: calm_trace.induct)
  case (handles ms net m rest now r s')
  have "list_all (hub_may env) (mailbox (net j))"
    using calm_run_simulated [OF calm_trace_run [OF handles.hyps(1)] start env] by blast
  then have "message_ok env m" using handles.hyps(2) by simp
  then show ?case using handles by (simp add: handle_all_append)
qed simp_all

text \<open>At rest a neighbour's transaction is found by whoever asks, however the messages fall between the queries.\<close>

lemma polled_transaction:
  assumes trace: "calm_trace env parse j net0 ms net" and start: "linked_start env cfg net0"
    and env: "env_ok env" "signatures_verify env" "reliable env" "codec_faithful env parse" and rest: "at_rest net"
    and ij: "i \<noteq> j" "j |\<in>| fmdom (peers (node_hub (net i)))" and t: "t |\<in>| fmdom (mempool (node_hub (net i)))"
    and open_txn: "\<forall>x b. fmlookup (valid_blocks (node_hub (net j))) x = Some b \<longrightarrow> \<not> has_txn env t b"
    and split: "concat (map later [0..<Suc k]) = ms"
  shows "\<exists>x n s. poll_transaction env later t 0 (node_hub (net0 j)) = Some (x, n, s) \<and> txn_id env x = t \<and> n \<le> Suc k"
proof -
  note run = calm_trace_run [OF trace] and h = calm_trace_handled [OF start env trace]
  have "settled env (node_hub (net j)) t" by (rule at_rest_known(2) [OF run start env rest ij t])
  then have "fmlookup (mempool (node_hub (net j))) t \<noteq> None" using open_txn by (auto simp: settled_def fmlookup_dom_iff)
  moreover have "handle_all env (node_hub (net0 j)) (concat (map later [0..<Suc (0 + k)])) = Some (node_hub (net j))"
    using h split by simp
  ultimately obtain n s x where p: "n \<le> Suc k" "handle_all env (node_hub (net0 j)) (concat (map later [0..<n])) = Some s"
    "fmlookup (mempool s) t = Some x" "poll_transaction env later t 0 (node_hub (net0 j)) = Some (x, n, s)"
    using poll_transaction_ends [of env "node_hub (net0 j)" later 0 k "node_hub (net j)" t] by auto
  have "[0..<Suc k] = [0..<n] @ [n..<Suc k]" using upt_add_eq_append [of 0 n "Suc k - n"] p(1) by simp
  then have "list_all (\<lambda>(now, m). message_ok env m) (concat (map later [0..<n]))"
    using h split by (metis list_all_append concat_append map_append)
  moreover have "hub_inv env (node_hub (net0 j))"
    using linked_start_node(1) [OF start env(1,2), of j] by (simp add: hub_good_def)
  ultimately have "hub_inv env s" using handle_all_keeps [OF env(1) _ _ p(2)] by blast
  then have "txn_id env x = t" using p(3) by (auto simp: hub_inv_def mempool_inv_def)
  with p show ?thesis by blast
qed

text \<open>So is a neighbour's block, unless one of its branch was marked invalid.\<close>

lemma polled_block:
  assumes trace: "calm_trace env parse j net0 ms net" and start: "linked_start env cfg net0"
    and env: "env_ok env" "signatures_verify env" "reliable env" "codec_faithful env parse" and rest: "at_rest net"
    and ij: "i \<noteq> j" "j |\<in>| fmdom (peers (node_hub (net i)))"
    and apart: "no_collision env (valid_blocks (node_hub (net i))) (unconfirmed_blocks (node_hub (net j)))"
    and x: "fmlookup (valid_blocks (node_hub (net i))) x = Some b"
    and fine: "\<forall>a \<in> set (branch (valid_blocks (node_hub (net i))) x). block_id env a |\<notin>| invalid_blocks (node_hub (net j))"
    and split: "concat (map later [0..<Suc k]) = ms"
  shows "\<exists>b' n s. poll_block env later x 0 (node_hub (net0 j)) = Some (b', n, s) \<and> block_id env b' = x \<and> n \<le> Suc k"
proof -
  note run = calm_trace_run [OF trace] and h = calm_trace_handled [OF start env trace]
  have "x |\<in>| fmdom (valid_blocks (node_hub (net j)))" using at_rest_blocks [OF run start env rest ij apart x] fine by blast
  then have "fmlookup (valid_blocks (node_hub (net j))) x \<noteq> None" by (auto simp: fmlookup_dom_iff)
  moreover have "handle_all env (node_hub (net0 j)) (concat (map later [0..<Suc (0 + k)])) = Some (node_hub (net j))"
    using h split by simp
  ultimately obtain n s b' where p: "n \<le> Suc k" "handle_all env (node_hub (net0 j)) (concat (map later [0..<n])) = Some s"
    "fmlookup (valid_blocks s) x = Some b'" "poll_block env later x 0 (node_hub (net0 j)) = Some (b', n, s)"
    using poll_block_ends [of env "node_hub (net0 j)" later 0 k "node_hub (net j)" x] by auto
  have "[0..<Suc k] = [0..<n] @ [n..<Suc k]" using upt_add_eq_append [of 0 n "Suc k - n"] p(1) by simp
  then have "list_all (\<lambda>(now, m). message_ok env m) (concat (map later [0..<n]))"
    using h split by (metis list_all_append concat_append map_append)
  moreover have "hub_inv env (node_hub (net0 j))"
    using linked_start_node(1) [OF start env(1,2), of j] by (simp add: hub_good_def)
  ultimately have "hub_inv env s" using handle_all_keeps [OF env(1) _ _ p(2)] by blast
  then have "block_id env b' = x" using p(3) blocks_inv_id [OF hub_inv_blocks] by fastforce
  with p show ?thesis by blast
qed

end
