(* ===== verification/Poll_Properties.thy ===== *)
theory Poll_Properties
  imports Polling Quiet_Properties
begin

text \<open>
  Property of a client that polls a node of a quiet network, applied to the two nodes of \<open>Quiet_Properties\<close>
  that got the same transaction.
\<close>

text \<open>C20: The wait of the test \<open>propagate_transactions\<close> ends: if a network in which nothing fails comes to
  rest, and a node has pooled a transaction, then a client that asks one of the node's peers for it again and again, at
  any moments of the run up to its end, gets a transaction with that identifier, unless the peer has already seen it
  in a valid block.\<close>

theorem polled_transaction_arrives:
  assumes "calm_trace env parse j net0 ms net" "linked_start env cfg net0"
    and "env_ok env" "signatures_verify env" "reliable env" "codec_faithful env parse" "at_rest net"
    and "i \<noteq> j" "j |\<in>| fmdom (peers (node_hub (net i)))" "t |\<in>| fmdom (mempool (node_hub (net i)))"
    and "\<forall>x b. fmlookup (valid_blocks (node_hub (net j))) x = Some b \<longrightarrow> (\<forall>u \<in> set (transactions b). txn_id env u \<noteq> t)"
    and "concat (map later [0..<Suc k]) = ms"
  shows "\<exists>x n s. poll_transaction env later t 0 (node_hub (net0 j)) = Some (x, n, s) \<and> txn_id env x = t \<and> n \<le> Suc k"
  by (rule polled_transaction [OF assms(1-10) _ assms(12)]) (use assms(11) in \<open>simp add: has_txn_def\<close>)

theorem polled_transaction_arrives_witness:
  "\<exists>ms x n s. poll_transaction sample_env (\<lambda>k. if k = 2 then ms else []) (txn_id sample_env sample_txn) 0 (node_of sample_start 2) =
     Some (x, n, s) \<and> txn_id sample_env x = txn_id sample_env sample_txn \<and> n \<le> 3"
proof -
  let ?p = "Broadcast (BroadcastTransaction (txn_id sample_env sample_txn)) :: nat PeerMessage"
  let ?m = "NewTransaction sample_txn :: (nat, u8 list) PeerHubActorMessage"
  obtain s1 s2 where told: "tells ?m ?p 1 s1" "tells ?m ?p 2 s2"
    using told_transaction [of 1] told_transaction [of 2] by blast
  have may: "hub_may sample_env ?m" using sample_txn_valid by simp
  obtain net where net: "(calm_step sample_env sample_parse)\<^sup>*\<^sup>* (told_both ?m) net" "at_rest net"
    "node_hub (net 1) = s1" "node_hub (net 2) = s2"
    using told_echo [OF may told sample_news_travels(2)] by auto
  have peer: "2 |\<in>| fmdom (peers (node_hub (net 1)))" using told(1) net(3) by (auto simp: tells_def intro: fmdomI)
  have pooled: "txn_id sample_env sample_txn |\<in>| fmdom (mempool (node_hub (net 1)))"
    using told_pool [OF told(1)] net(3) by (auto intro: fmdomI)
  have "handle sample_env 100 (node_of sample_start 2) ?m = Some (Inr None, s2)" using told(2) by (simp add: tells_def)
  from handle_same_blocks [OF this] have "valid_blocks (node_hub (net 2)) = valid_blocks sample_start"
    using net(4) by (simp add: same_blocks_def node_of_def)
  then have unmined: "\<forall>x b. fmlookup (valid_blocks (node_hub (net 2))) x = Some b \<longrightarrow>
      (\<forall>u \<in> set (transactions b). txn_id sample_env u \<noteq> txn_id sample_env sample_txn)"
    by (auto split: if_splits)
  obtain ms where ms: "calm_trace sample_env sample_parse 2 (told_both ?m) ms net" using calm_run_trace [OF net(1)] by blast
  have "concat (map (\<lambda>k. if k = 2 then ms else []) [0..<Suc 2]) = ms" by (simp add: numeral_eq_Suc)
  from polled_transaction_arrives [OF ms told_start [OF may] sample_env_ok sample_signatures sample_reliable sample_codec
      net(2) _ peer pooled unmined this]
  show ?thesis by (intro exI [of _ ms]) (simp add: told_def)
qed

end
