(* ===== verification/Resting.thy ===== *)
theory Resting
  imports Quiet_Network
begin

text \<open>
  A network in which nothing fails comes to rest once its clients are silent: the hubs are an instance of
  \<open>settling\<close>. Of the blocks and the transactions that are about in the network, each hub can make every block valid once;
  and while it makes none valid it can hear of every block once and pool every transaction once.
\<close>

section \<open>What is about\<close>

text \<open>The blocks of \<open>B\<close> and the transactions of \<open>T\<close> are all that a message brings and a hub holds.\<close>

fun brings :: "('sk, 'z) codec_scheme \<Rightarrow> BlockId fset \<Rightarrow> TransactionId fset \<Rightarrow> ('n, 'st) PeerHubActorMessage \<Rightarrow> bool" where
  "brings c B T (NewBlock _ b) \<longleftrightarrow> block_id c b |\<in>| B"
| "brings c B T (NewTransaction x) \<longleftrightarrow> txn_id c x |\<in>| T"
| "brings c B T _ \<longleftrightarrow> True"

definition holds_only :: "('sk, 'z) codec_scheme \<Rightarrow> BlockId fset \<Rightarrow> TransactionId fset \<Rightarrow> ('n, 'st) hub \<Rightarrow> bool" where
  "holds_only c B T s \<longleftrightarrow> (\<forall>b \<in> stored s. block_id c b |\<in>| B) \<and> fmdom (mempool s) |\<subseteq>| T"

text \<open>What one step may cost: an announcement asks for an answer, which is a new block or transaction.\<close>

fun message_cost :: "('n, 'st) PeerHubActorMessage \<Rightarrow> nat" where
  "message_cost (AnnounceTransaction _ _) = 5"
| "message_cost (AnnounceBlock _ _) = 5"
| "message_cost (GetTransaction _ _) = 3"
| "message_cost (GetBlock _ _) = 3"
| "message_cost _ = 1"

definition unseen :: "BlockId fset \<Rightarrow> TransactionId fset \<Rightarrow> ('n, 'st) hub \<Rightarrow> nat" where
  "unseen B T s = 4 * card (fset B - known s) + 18 * fcard (T |-| fmdom (mempool s))"

definition unvalidated :: "BlockId fset \<Rightarrow> ('n, 'st) hub \<Rightarrow> nat" where
  "unvalidated B s = fcard (B |-| fmdom (valid_blocks s))"

section \<open>What a message may change\<close>

lemma same_blocks_stored: "same_blocks s s' \<Longrightarrow> stored s' = stored s"
  by (simp add: same_blocks_def stored_def)

lemma handle_stored:
  assumes "hub_good env s" "handle env now s m = Some (Inr r, s')"
  shows "stored s' \<subseteq> stored s \<union> {b. \<exists>node. m = NewBlock node b}"
proof (cases "\<exists>node b. m = NewBlock node b")
  case True
  then obtain node b where m: "m = NewBlock node b" by blast
  then have "new_block env now s node b = Some (Inr r, s')" using assms(2) by simp
  then show ?thesis
  proof (cases rule: new_block_cases)
    case (fresh ids s1)
    have "env_ok env" "hub_inv env s" using assms(1) by (simp_all add: hub_good_def)
    with validate_block_stored [OF env_ok_dest hub_inv_pools fresh(3,4)] have "stored s1 \<subseteq> insert b (stored s)" by blast
    moreover have "stored s' = stored s1"
      using same_blocks_stored streams_same [OF after_validation_streams [OF fresh(5)]] by blast
    ultimately show ?thesis using m by auto
  qed auto
next
  case False
  then show ?thesis using same_blocks_stored [OF handle_same_blocks [OF assms(2)]] by simp
qed

lemma handle_pooled:
  assumes "hub_good env s" "handle env now s m = Some (Inr r, s')" "t |\<in>| fmdom (mempool s')"
  shows "t |\<in>| fmdom (mempool s) \<or> (\<exists>x. m = NewTransaction x \<and> txn_id env x = t)"
  using assms(1,2) by (cases rule: pool_effect) (use assms(3) in \<open>auto simp: same_pool_def split: if_splits\<close>)

lemma handle_holds:
  assumes "hub_good env s" "handle env now s m = Some (Inr r, s')" "holds_only env B T s" "brings env B T m"
  shows "holds_only env B T s'"
proof -
  have "block_id env b |\<in>| B" if "b \<in> stored s'" for b
    using handle_stored [OF assms(1,2)] assms(3,4) that by (auto simp: holds_only_def)
  moreover have "t |\<in>| T" if "t |\<in>| fmdom (mempool s')" for t
    using handle_pooled [OF assms(1,2) that] assms(3,4) by (auto simp: holds_only_def)
  ultimately show ?thesis by (auto simp: holds_only_def)
qed

lemma holds_only_valid:
  assumes "hub_good env s" "holds_only env B T s"
  shows "fmlookup (valid_blocks s) i = Some b \<Longrightarrow> i |\<in>| B \<and> block_id env b |\<in>| B"
    "fmlookup (mempool s) t = Some x \<Longrightarrow> txn_id env x |\<in>| T"
proof -
  have inv: "hub_inv env s" using assms(1) by (simp add: hub_good_def)
  show "i |\<in>| B \<and> block_id env b |\<in>| B" if "fmlookup (valid_blocks s) i = Some b"
    using blocks_inv_id [OF hub_inv_blocks [OF inv] that] that assms(2) by (auto simp: holds_only_def stored_def)
  show "txn_id env x |\<in>| T" if "fmlookup (mempool s) t = Some x"
  proof -
    have "txn_id env x = t" using inv that by (auto simp: hub_inv_def mempool_inv_def)
    then show ?thesis using assms(2) that by (auto simp: holds_only_def intro: fmdomI)
  qed
qed

section \<open>What a hub writes\<close>

lemma to_peer_in: "pm \<in> set (to_peer n p k) \<longleftrightarrow> k = n \<and> pm = p"
  and to_all_in: "pm \<in> set (to_all s ps k) \<longleftrightarrow> k |\<in>| fmdom (peers s) \<and> k \<noteq> local_node_id s \<and> pm \<in> set ps"
  and silent_in: "\<not> pm \<in> set (silent k)"
  by (auto simp: to_peer_def to_all_def silent_def)

text \<open>Only what it holds.\<close>

lemma outgoing_brings:
  assumes "hub_good env s" "holds_only env B T s" "pm \<in> set (outgoing env now s m k)"
  shows "brings env B T (peer_cast i pm)"
proof (cases m)
  case (GetTransaction n t)
  then obtain x where "fmlookup (mempool s) t = Some x" "pm = GetTransactionResponse x"
    using assms(3) by (auto simp: to_peer_in silent_in split: option.splits)
  then show ?thesis using holds_only_valid(2) [OF assms(1,2)] by simp
next
  case (GetBlock n j)
  then obtain b where "fmlookup (valid_blocks s) j = Some b" "pm = GetBlockResponse (local_node_id s) b"
    using assms(3) by (auto simp: to_peer_in silent_in split: option.splits)
  then show ?thesis using holds_only_valid(1) [OF assms(1,2)] by simp
next
  case (NewBlock node b)
  then show ?thesis using assms(3)
    by (auto simp: block_letters_def to_peer_in to_all_in silent_in split: if_splits option.splits)
qed (use assms(3) in \<open>auto simp: to_peer_in to_all_in silent_in split: if_splits\<close>)

text \<open>A block that makes nothing valid makes the hub ask for its parent at most, and only if it is new.\<close>

lemma idle_block_letters:
  assumes "hub_good env s" "new_block env now s node b = Some (Inr r, s')" "valid_blocks s' = valid_blocks s"
  shows "block_letters env now s node b = silent \<or>
    (\<exists>n. block_letters env now s node b = to_peer n (GetBlockRequest (prev_id b))) \<and> \<not> knows_block s (block_id env b)"
    "mempool s' = mempool s"
proof -
  have env: "env_ok env" and inv: "hub_inv env s" using assms(1) by (simp_all add: hub_good_def)
  have "(block_letters env now s node b = silent \<or>
    (\<exists>n. block_letters env now s node b = to_peer n (GetBlockRequest (prev_id b))) \<and> \<not> knows_block s (block_id env b)) \<and>
    mempool s' = mempool s"
    using assms(2)
  proof (cases rule: new_block_cases)
    case (fresh ids s1)
    note grow = validate_block_grows [OF env_ok_dest [OF env] hub_inv_pools [OF inv] fresh(3,4)]
    note same = streams_same [OF after_validation_streams [OF fresh(5)]]
    have "adds_blocks (valid_blocks s) ids (valid_blocks s)"
      using grows_adds [OF grow] same assms(3) by (simp add: same_blocks_def)
    then have ids: "ids = []" by (cases ids) (auto simp: adds_blocks_def)
    have "mempool s' = mempool s"
      by (rule fmap_ext) (use grows_mempool [OF grow] same ids in \<open>simp add: same_pool_def mined_in_def\<close>)
    then show ?thesis using fresh(1,2,4) ids by (auto simp: block_letters_def split: option.split)
  qed (simp_all add: block_letters_def)
  then show "block_letters env now s node b = silent \<or>
    (\<exists>n. block_letters env now s node b = to_peer n (GetBlockRequest (prev_id b))) \<and> \<not> knows_block s (block_id env b)"
    "mempool s' = mempool s" by blast+
qed

section \<open>Every message costs more than it causes\<close>

lemma neighbours_few:
  assumes "hub_good env s"
  shows "finite (neighbours_of s)" "card (neighbours_of s) \<le> 3"
  using assms by (simp_all add: hub_good_def hub_inv_def neighbours_of_def fcard.rep_eq PEER_SIZE_LIMIT_def)

lemma sum_to_peer: "finite N \<Longrightarrow> (\<Sum>k\<in>N. \<Sum>p\<leftarrow>to_peer n pm k. f p) \<le> (f pm :: nat)"
  by (simp add: to_peer_def if_distrib [of "map f"] if_distrib [of sum_list] sum.delta cong: if_cong)

lemma sum_to_all:
  assumes "hub_good env s"
  shows "(\<Sum>k\<in>neighbours_of s. \<Sum>p\<leftarrow>to_all s [pm] k. f p) \<le> 3 * (f pm :: nat)"
proof -
  have "(\<Sum>k\<in>neighbours_of s. \<Sum>p\<leftarrow>to_all s [pm] k. f p) \<le> card (neighbours_of s) * f pm"
    using sum_bounded_above [of "neighbours_of s" "\<lambda>k. \<Sum>p\<leftarrow>to_all s [pm] k. f p" "f pm"] by (simp add: to_all_def)
  also have "\<dots> \<le> 3 * f pm" using neighbours_few(2) [OF assms] by simp
  finally show ?thesis .
qed

lemma sum_silent: "(\<Sum>k\<in>N. \<Sum>p\<leftarrow>silent k. f p) = (0 :: nat)"
  by (simp add: silent_def)

lemma validating_drains:
  assumes good: "hub_good env s" "hub_good env s'" and h: "handle env now s m = Some (Inr r, s')"
    and "holds_only env B T s'" "valid_blocks s' \<noteq> valid_blocks s"
  shows "unvalidated B s' < unvalidated B s"
proof -
  obtain node b where "m = NewBlock node b"
    using handle_same_blocks [OF h] assms(5) by (auto simp: same_blocks_def)
  then have "new_block env now s node b = Some (Inr r, s')" using h by simp
  from new_block_effect(3) [OF _ _ this] good(1) obtain ids where ids: "adds_blocks (valid_blocks s) ids (valid_blocks s')"
    by (auto simp: hub_good_def)
  have "ids \<noteq> []"
  proof
    assume "ids = []"
    then have "fmlookup (valid_blocks s') i = fmlookup (valid_blocks s) i" for i
      using ids by (cases "fmlookup (valid_blocks s) i") (simp_all add: adds_blocks_def)
    then show False using assms(5) by (simp add: fmap_ext)
  qed
  then obtain i where i: "i \<in> set ids" by (cases ids) auto
  obtain c where "fmlookup (valid_blocks s') i = Some c" using adds_blocks_new [OF ids i] by blast
  then have "i |\<in>| B" "i |\<in>| fmdom (valid_blocks s')" using holds_only_valid(1) [OF good(2) assms(4)] by (auto intro: fmdomI)
  moreover have "i |\<notin>| fmdom (valid_blocks s)" using ids i by (auto simp: adds_blocks_def fmlookup_dom_iff)
  moreover have "fmdom (valid_blocks s) |\<subseteq>| fmdom (valid_blocks s')"
    using adds_blocks_kept [OF ids] by (auto simp: fmlookup_dom_iff)
  ultimately have "B |-| fmdom (valid_blocks s') |\<subset>| B |-| fmdom (valid_blocks s)" by blast
  then show ?thesis unfolding unvalidated_def by (rule pfsubset_fcard_mono)
qed

lemma idle_drains:
  fixes env :: "('sk, 'n::linorder, 'st) hub_env"
  assumes good: "hub_good env s" and m: "handle env now s m = Some (Inr r, s')" "brings env B T m"
    and same: "valid_blocks s' = valid_blocks s"
  shows "unseen B T s' + (\<Sum>k\<in>neighbours_of s. \<Sum>p\<leftarrow>outgoing env now s m k. Suc (message_cost (peer_cast i p :: ('n, 'st) PeerHubActorMessage)))
    < unseen B T s + message_cost m"
    (is "_ + ?sum (outgoing env now s m) < _")
proof -
  note fin = neighbours_few(1) [OF good]
  have more: "known s \<subseteq> known s'" using hub_known_kept [OF good, of m s'] m(1) by (auto simp: hub_acts_def)
  have mono: "unseen B T s' \<le> unseen B T s" if "mempool s' = mempool s"
    using more that card_mono [of "fset B - known s" "fset B - known s'"] by (auto simp: unseen_def)
  have one: "?sum (to_peer n pm) \<le> Suc (message_cost (peer_cast i pm :: ('n, 'st) PeerHubActorMessage))" for n pm
    by (rule sum_to_peer [OF fin])
  have quiet: "?sum silent = 0" by (rule sum_silent)
  consider (block) node b where "m = NewBlock node b" | (txn) x where "m = NewTransaction x"
    | (other) "\<forall>node b. m \<noteq> NewBlock node b" "\<forall>x. m \<noteq> NewTransaction x" by blast
  then show ?thesis
  proof cases
    case block
    then have new: "new_block env now s node b = Some (Inr r, s')" using m(1) by simp
    note letters = idle_block_letters [OF good new same]
    from letters(1) show ?thesis
    proof (elim disjE conjE exE)
      assume "block_letters env now s node b = silent"
      then show ?thesis using mono [OF letters(2)] quiet block by simp
    next
      fix n assume n: "block_letters env now s node b = to_peer n (GetBlockRequest (prev_id b))" "\<not> knows_block s (block_id env b)"
      have "block_id env b \<in> known s'" using new_block_effect(1) [OF _ _ new] good by (auto simp: hub_good_def)
      then have "fset B - known s' \<subset> fset B - known s" using more m(2) block n(2) by (auto simp: knows_block_known)
      then have "card (fset B - known s') < card (fset B - known s)" by (intro psubset_card_mono) simp_all
      moreover have "?sum (outgoing env now s m) \<le> 4" using one [of n "GetBlockRequest (prev_id b)"] n(1) block by simp
      ultimately show ?thesis using letters(2) block by (simp add: unseen_def)
    qed
  next
    case txn
    from good m(1) show ?thesis
    proof (cases rule: pool_effect)
      case (pooled y)
      then have y: "y = x" using txn by simp
      have "T |-| fmdom (mempool s') |\<subset>| T |-| fmdom (mempool s)" using pooled(2,4) m(2) txn y by auto
      then have "fcard (T |-| fmdom (mempool s')) < fcard (T |-| fmdom (mempool s))" by (rule pfsubset_fcard_mono)
      moreover have "known s' = known s" by (rule same_blocks_known [OF pooled(3)])
      moreover have "?sum (outgoing env now s m) \<le> 18"
        using sum_to_all [OF good, of "\<lambda>p. Suc (message_cost (peer_cast i p :: ('n, 'st) PeerHubActorMessage))"
            "Broadcast (BroadcastTransaction (txn_id env x))"] pooled(2) txn y by simp
      ultimately show ?thesis using txn by (simp add: unseen_def)
    next
      case same
      then show ?thesis using txn quiet mono by (simp add: same_pool_def)
    qed (use txn in simp_all)
  next
    case other
    then have keep: "mempool s' = mempool s"
      using handle_same_pool [OF m(1)] m(1) announce_transaction_streams
      by (cases rule: pool_effect [OF good m(1)]) (auto simp: same_pool_def)
    have "?sum (outgoing env now s m) < message_cost m"
      by (cases m) (use other quiet in \<open>auto intro!: le_less_trans [OF one] split: option.split\<close>)
    then show ?thesis using mono [OF keep] by simp
  qed
qed

lemma wrote_to_peer:
  assumes "wrote env s letters s'" "pm \<in> set (letters k)"
  shows "k |\<in>| fmdom (peers s)"
  using assms(1) [unfolded wrote_def, rule_format, of k] assms(2)
  by (cases "fmlookup (peers s) k") (auto intro: fmdomI)

text \<open>A hub on streams that do not fail, holding nothing but \<open>B\<close> and \<open>T\<close>.\<close>

definition hub_settles :: "('sk, 'n, u8 list) hub_env \<Rightarrow> BlockId fset \<Rightarrow> TransactionId fset \<Rightarrow> ('n, u8 list) hub \<Rightarrow> bool" where
  "hub_settles env B T s \<longleftrightarrow> hub_good env s \<and> reliable env \<and> holds_only env B T s"

interpretation hubs: settling "hub_acts env" peer_cast "hub_may env" "brings env B T" "hub_settles env B T" local_node_id
    neighbours_of "unvalidated B" "unseen B T" message_cost for env B T
proof (unfold_locales, goal_cases)
  case (1 s m s' out)
  then show ?case using hub_stays [of env s m s' out] handle_holds [of env s _ m _ s' B T]
    by (auto simp: hub_settles_def hub_acts_def)
next
  case (2 s m s' out p k)
  then obtain now r where h: "handle env now s m = Some (Inr r, s')" "out = outgoing env now s m" by (auto simp: hub_acts_def)
  have good: "hub_good env s" "holds_only env B T s" "reliable env" and ok: "env_ok env" "hub_inv env s"
    using 2(1) by (simp_all add: hub_settles_def hub_good_def)
  have "wrote env s out s'" using handle_wrote [OF ok(1) good(3) ok(2) _ h(1)] 2(2) h(2) by simp
  from wrote_to_peer [OF this 2(5)] have "k |\<in>| fmdom (peers s)" .
  then show ?case using outgoing_brings [OF good(1,2)] 2(5) h(2) by (simp add: neighbours_of_def)
next
  case (3 s m s' out)
  then obtain now r where h: "handle env now s m = Some (Inr r, s')" "out = outgoing env now s m" by (auto simp: hub_acts_def)
  have good: "hub_good env s" "holds_only env B T s" using 3(1) by (simp_all add: hub_settles_def)
  have after: "hub_good env s'" "holds_only env B T s'"
    using hub_stays [OF good(1) 3(2,4)] handle_holds [OF good(1) h(1) good(2) 3(3)] by simp_all
  show ?case
  proof (cases "valid_blocks s' = valid_blocks s")
    case True
    then show ?thesis using idle_drains [OF good(1) h(1) 3(3) True] h(2) by (simp add: unvalidated_def)
  next
    case False
    then show ?thesis using validating_drains [OF good(1) after(1) h(1) after(2)] by simp
  qed
qed

section \<open>The network comes to rest\<close>

text \<open>The nodes of \<open>N\<close> have only one another as peers, and of the others nothing is left to handle or to read.\<close>

definition confined :: "'n set \<Rightarrow> 'n net \<Rightarrow> bool" where
  "confined N net \<longleftrightarrow> finite N \<and> (\<forall>i \<in> N. neighbours_of (node_hub (net i)) \<subseteq> N) \<and>
     (\<forall>i. i \<notin> N \<longrightarrow> mailbox (net i) = [] \<and>
       (\<forall>j st. fmlookup (peers (node_hub (net i))) j = Some st \<longrightarrow> consumed (net j) i = length st))"

text \<open>A node cannot go on: no time makes its next message end well, or nothing can be decoded from a stream.\<close>

definition blocked :: "('sk, 'n::linorder, u8 list) hub_env \<Rightarrow> (u8 list \<Rightarrow> 'n RawMessage option) \<Rightarrow> 'n net \<Rightarrow> bool" where
  "blocked env parse net \<longleftrightarrow>
     (\<exists>i m ms. mailbox (net i) = m # ms \<and> (\<forall>now r s'. handle env now (node_hub (net i)) m = Some (Inr r, s') \<longrightarrow>
        (\<exists>k. \<not> list_all (framed env) (outgoing env now (node_hub (net i)) m k)))) \<or>
     (\<exists>i j sent. fmlookup (peers (node_hub (net i))) j = Some sent \<and> consumed (net j) i < length sent \<and>
        (\<forall>buf rest pm. read_message (drop (consumed (net j) i) sent) = Some (buf, rest) \<longrightarrow>
           transport_decode env parse buf \<noteq> Some (Inr pm)))"

lemma stuck_blocked:
  assumes "\<not> (\<exists>net'. work_step env parse net net')" "represents env net w" "\<not> at_rest net"
  shows "blocked env parse net"
proof -
  have "consumed (net j) i \<le> length st" if "fmlookup (peers (node_hub (net i))) j = Some st" for i j st
    using assms(2) carries_Some [of net i j st env "wire w i j", OF that] by (simp add: represents_def)
  then consider (mail) i m ms where "mailbox (net i) = m # ms"
    | (stream) i j st where "fmlookup (peers (node_hub (net i))) j = Some st" "consumed (net j) i < length st"
    using assms(3) unfolding at_rest_def by (metis neq_Nil_conv le_neq_implies_less)
  then show ?thesis
  proof cases
    case mail
    have "\<exists>k. \<not> list_all (framed env) (outgoing env now (node_hub (net i)) m k)"
      if "handle env now (node_hub (net i)) m = Some (Inr r, s')" for now r s'
      using work_step.deliver [of net i m ms env now r s', OF mail that] assms(1) by blast
    with mail show ?thesis unfolding blocked_def by blast
  next
    case stream
    have "transport_decode env parse buf \<noteq> Some (Inr pm)"
      if "read_message (drop (consumed (net j) i) st) = Some (buf, rest)" for buf rest pm
      using work_step.receive [of net i j st buf rest env parse pm, OF stream(1) that] assms(1) by blast
    with stream show ?thesis unfolding blocked_def by blast
  qed
qed

text \<open>All that is about in a network of finitely many nodes is finite.\<close>

abbreviation hubs_within ::
    "('sk, 'n::linorder, u8 list) hub_env \<Rightarrow> BlockId fset \<Rightarrow> TransactionId fset \<Rightarrow> 'n set \<Rightarrow> 'n hub_wires \<Rightarrow> bool" where
  "hubs_within env B T \<equiv> settling.within peer_cast (hub_may env) (brings env B T) (hub_settles env B T) local_node_id neighbours_of"

fun brought_blocks :: "('sk, 'z) codec_scheme \<Rightarrow> ('n, 'st) PeerHubActorMessage \<Rightarrow> BlockId set" where
  "brought_blocks c (NewBlock _ b) = {block_id c b}" | "brought_blocks c _ = {}"

fun brought_transactions :: "('sk, 'z) codec_scheme \<Rightarrow> ('n, 'st) PeerHubActorMessage \<Rightarrow> TransactionId set" where
  "brought_transactions c (NewTransaction x) = {txn_id c x}" | "brought_transactions c _ = {}"

lemma brings_brought: "brings c B T m \<longleftrightarrow> brought_blocks c m \<subseteq> fset B \<and> brought_transactions c m \<subseteq> fset T"
  by (cases m) simp_all

lemma finite_brought: "finite (brought_blocks c m)" "finite (brought_transactions c m)"
  by (cases m; simp)+

lemma finite_stored: "finite (stored s)"
proof -
  have "stored s \<subseteq> fset (fmran (valid_blocks s)) \<union> fset (fmran (unconfirmed_blocks s))"
    by (auto simp: stored_def intro: fmranI)
  then show ?thesis by (rule finite_subset) simp
qed

lemma net_within:
  fixes env :: "('sk, 'n::linorder, u8 list) hub_env"
  assumes good: "\<forall>i. hub_good env (node_hub (net i)) \<and> local_node_id (node_hub (net i)) = i \<and> list_all (hub_may env) (mailbox (net i))"
    and w: "represents env net w" and "reliable env" "confined N net"
  shows "\<exists>B T. hubs_within env B T N w"
proof -
  have fin: "finite N" using assms(4) by (simp add: confined_def)
  have at: "at_node w i = node_hub (net i)" "inbox w i = mailbox (net i)" "carries env net i j (wire w i j)" for i j
    using w by (simp_all add: represents_def)
  have nowire: "wire w i j = []" if out: "i \<notin> N \<or> j \<notin> N" for i j
  proof (cases "fmlookup (peers (node_hub (net i))) j")
    case None
    then show ?thesis using at(3) [of i j] by (simp add: carries_def)
  next
    case (Some st)
    then have "i \<notin> N" using assms(4) out by (auto simp: confined_def neighbours_of_def intro: fmdomI)
    then have "consumed (net j) i = length st" using assms(4) Some by (auto simp: confined_def)
    then show ?thesis using carries_Some [of net i j st env "wire w i j", OF Some] at(3) [of i j] wire_bytes_Nil [of env "wire w i j"] by simp
  qed
  let ?sent = "\<lambda>i. mailbox (net i) @ concat (map (\<lambda>j. map (peer_cast i) (wire w i j)) (sorted_list_of_set N))"
  obtain B where B: "fset B = (\<Union>i\<in>N. block_id env ` stored (node_hub (net i)) \<union> (\<Union>m\<in>set (?sent i). brought_blocks env m))"
    using fin finite_stored finite_brought(1) by (metis (no_types, lifting) Abs_fset_inverse CollectI List.finite_set finite_UN finite_Un finite_imageI)
  obtain T where T: "fset T = (\<Union>i\<in>N. fset (fmdom (mempool (node_hub (net i)))) \<union> (\<Union>m\<in>set (?sent i). brought_transactions env m))"
    using fin finite_brought(2) by (metis (no_types, lifting) Abs_fset_inverse CollectI List.finite_set finite_UN finite_Un finite_fset)
  have brings: "brings env B T m" if "i \<in> N" "m \<in> set (?sent i)" for i m
    using that B T by (auto simp: brings_brought)
  have "hub_settles env B T (node_hub (net i))" if "i \<in> N" for i
    using good assms(3) that B T by (auto simp: hub_settles_def holds_only_def)
  moreover have "list_all (\<lambda>m. hub_may env m \<and> brings env B T m) (mailbox (net i))" if "i \<in> N" for i
    using good brings [OF that] by (simp add: list_all_iff)
  moreover have "brings env B T (peer_cast i p :: ('n, u8 list) PeerHubActorMessage)" if "p \<in> set (wire w i j)" for i j p
  proof -
    have "wire w i j \<noteq> []" using that by auto
    then have "i \<in> N" "j \<in> N" using nowire by blast+
    then have "peer_cast i p \<in> set (?sent i)" using that fin by auto
    with \<open>i \<in> N\<close> show ?thesis by (rule brings)
  qed
  ultimately have "hubs_within env B T N w"
    using assms(4) good nowire fin unfolding hubs.within_def at confined_def by blast
  then show ?thesis by blast
qed

text \<open>From a network whose nodes have only one another, every run ends.\<close>

lemma work_step_inv:
  assumes "env_ok env" "work_step env parse net net'"
    and inv: "\<forall>i. hub_inv env (node_hub (net i)) \<and> list_all (hub_may env) (mailbox (net i))"
  shows "\<forall>i. hub_inv env (node_hub (net' i)) \<and> list_all (hub_may env) (mailbox (net' i))"
  using assms(2)
proof (cases rule: work_step.cases)
  case (deliver i m ms now r s')
  have m: "hub_inv env (node_hub (net i))" "message_ok env m" "list_all (hub_may env) ms"
    using inv deliver(2) by (metis list.pred_inject(2))+
  from handle_inv [OF assms(1) m(1,2) deliver(3)] m(3) deliver(1) inv show ?thesis by simp
next
  case (receive i j sent buf rest pm)
  from peer_cast_may [OF receive(4), of i] receive(1) inv show ?thesis by simp
qed

lemma within_rests:
  assumes env: "env_ok env" "reliable env" "codec_faithful env parse"
  shows "hubs_within env B T N w \<Longrightarrow> represents env net w \<Longrightarrow>
    \<forall>i. hub_inv env (node_hub (net i)) \<and> list_all (hub_may env) (mailbox (net i)) \<Longrightarrow> termip (work_step env parse) net"
proof (induction w arbitrary: net rule: wf_induct_rule [OF hubs.wf_drained [where N = N and B = B and T = T]])
  case (1 w)
  show ?case
  proof (rule accpI)
    fix net' assume "(work_step env parse)\<inverse>\<inverse> net' net"
    then have step: "work_step env parse net net'" by simp
    obtain w' where w': "hub_flow_step env w w'" "represents env net' w'"
      using work_step_simulated [OF env step 1(3,4)] by blast
    show "termip (work_step env parse) net'"
      using 1(1) [OF _ _ w'(2) work_step_inv [OF env(1) step 1(4)]] hubs.flow_step_drains [OF w'(1) 1(2)] by blast
  qed
qed

lemma termip_no_run:
  "termip r x \<Longrightarrow> f 0 = x \<Longrightarrow> \<exists>k. \<not> r (f k) (f (Suc k))"
proof (induction arbitrary: f rule: accp.induct)
  case (accI x)
  show ?case
  proof (cases "r x (f 1)")
    case True
    then have "r\<inverse>\<inverse> (f 1) x" by simp
    from accI.IH [OF this, of "\<lambda>k. f (Suc k)"] obtain k where "\<not> r (f (Suc k)) (f (Suc (Suc k)))" by auto
    then show ?thesis by blast
  next
    case False
    then have "\<not> r (f 0) (f (Suc 0))" using accI.prems by simp
    then show ?thesis by blast
  qed
qed

text \<open>After a run of the network with clients.\<close>

lemma calm_rests:
  assumes run: "(calm_step env parse)\<^sup>*\<^sup>* net0 net" and start: "linked_start env cfg net0"
    and env: "env_ok env" "signatures_verify env" "reliable env" "codec_faithful env parse" and conf: "confined N net"
  shows "termip (work_step env parse) net"
    "(work_step env parse)\<^sup>*\<^sup>* net net' \<Longrightarrow> \<not> (\<exists>net2. work_step env parse net' net2) \<Longrightarrow> at_rest net' \<or> blocked env parse net'"
proof -
  obtain w where w: "(hub_wire_step env)\<^sup>*\<^sup>* (wires_of net0) w" "represents env net w"
    and good: "\<forall>i. hub_good env (node_hub (net i)) \<and> list_all (hub_may env) (mailbox (net i))"
    using calm_run_simulated [OF run start env] by blast
  have "\<forall>i. local_node_id (node_hub (net i)) = i"
    using blocks_spread.run_good [OF w(1) linked_start_good(1) [OF start env(1,2)]] w(2) by (simp add: represents_def)
  with good net_within [OF _ w(2) env(3) conf] obtain B T where "hubs_within env B T N w" by blast
  then show "termip (work_step env parse) net"
    using within_rests [OF env(1,3,4) _ w(2)] good by (simp add: hub_good_def)
  show "at_rest net' \<or> blocked env parse net'"
    if ends: "(work_step env parse)\<^sup>*\<^sup>* net net'" "\<not> (\<exists>net2. work_step env parse net' net2)"
  proof -
    have "(calm_step env parse)\<^sup>*\<^sup>* net net'"
      using ends(1) by (induction rule: rtranclp_induct) (auto intro: calm_step.work rtranclp.rtrancl_into_rtrancl)
    with run have "(calm_step env parse)\<^sup>*\<^sup>* net0 net'" by simp
    then obtain w' where "represents env net' w'" using calm_run_simulated [OF _ start env] by blast
    with stuck_blocked [OF ends(2)] show ?thesis by blast
  qed
qed

end
