(* ===== verification/Agreement.thy ===== *)
theory Agreement
  imports Quiet_Network
begin

text \<open>
  What a network at rest has in common: along links that go both ways the nodes have the same valid blocks,
  if none has marked a valid block of another invalid.
\<close>

definition linked_both :: "'n net \<Rightarrow> 'n \<Rightarrow> 'n \<Rightarrow> bool" where
  "linked_both net i j \<longleftrightarrow> i \<noteq> j \<and> j |\<in>| fmdom (peers (node_hub (net i))) \<and> i |\<in>| fmdom (peers (node_hub (net j)))"

text \<open>No two blocks of the network share an identifier, and no node takes a valid block of another for invalid.\<close>

definition blocks_apart :: "('sk, 'z) codec_scheme \<Rightarrow> 'n net \<Rightarrow> bool" where
  "blocks_apart c net \<longleftrightarrow> (\<forall>i j. no_collision c (valid_blocks (node_hub (net i))) (valid_blocks (node_hub (net j))) \<and>
     no_collision c (valid_blocks (node_hub (net i))) (unconfirmed_blocks (node_hub (net j))))"

definition none_refused :: "'n net \<Rightarrow> bool" where
  "none_refused net \<longleftrightarrow> (\<forall>i j x. x |\<in>| fmdom (valid_blocks (node_hub (net i))) \<longrightarrow> x |\<notin>| invalid_blocks (node_hub (net j)))"

lemma same_maps:
  assumes "\<And>i b. fmlookup m i = Some b \<Longrightarrow> block_id c b = i" "\<And>i b. fmlookup n i = Some b \<Longrightarrow> block_id c b = i"
    and "fmdom m = fmdom n" "no_collision c m n"
  shows "m = n"
proof (rule fmap_ext)
  fix i
  show "fmlookup m i = fmlookup n i"
  proof (cases "fmlookup m i")
    case None
    then show ?thesis using assms(3) by (metis fmdom_notD fmdom_notI)
  next
    case (Some b)
    then obtain d where d: "fmlookup n i = Some d" using assms(3) by (metis fmdomI fmlookup_dom_iff)
    have "block_id c b = block_id c d" using assms(1) [OF Some] assms(2) [OF d] by simp
    then have "b = d" using assms(4) fmran'I [OF Some] fmran'I [OF d] by (simp add: no_collision_def)
    then show ?thesis using Some d by simp
  qed
qed

lemma linked_same_blocks:
  assumes run: "(calm_step env parse)\<^sup>*\<^sup>* net0 net" and start: "linked_start env cfg net0"
    and env: "env_ok env" "signatures_verify env" "reliable env" "codec_faithful env parse" and rest: "at_rest net"
    and apart: "blocks_apart env net" "none_refused net" and ij: "linked_both net i j"
  shows "valid_blocks (node_hub (net i)) = valid_blocks (node_hub (net j))"
proof -
  have inv: "hub_inv env (node_hub (net k))" for k
    using at_rest_known(3) [OF run start env rest, of i j k] ij by (simp add: linked_both_def)
  have sub: "x |\<in>| fmdom (valid_blocks (node_hub (net b)))"
    if l: "linked_both net a b" and x: "fmlookup (valid_blocks (node_hub (net a))) x = Some c" for a b x c
  proof (rule ccontr)
    assume "x |\<notin>| fmdom (valid_blocks (node_hub (net b)))"
    moreover have "a \<noteq> b" "b |\<in>| fmdom (peers (node_hub (net a)))" using l by (simp_all add: linked_both_def)
    ultimately obtain d where d: "d \<in> set (branch (valid_blocks (node_hub (net a))) x)" "block_id env d |\<in>| invalid_blocks (node_hub (net b))"
      using at_rest_blocks [OF run start env rest _ _ _ x] apart(1) unfolding blocks_apart_def by blast
    obtain y where y: "fmlookup (valid_blocks (node_hub (net a))) y = Some d"
      using branch_stored [OF hub_inv_blocks [OF inv] x] d(1) by blast
    then have "block_id env d = y" by (rule blocks_inv_id [OF hub_inv_blocks [OF inv]])
    then show False using apart(2) y d(2) by (auto simp: none_refused_def fmlookup_dom_iff)
  qed
  have ji: "linked_both net j i" using ij by (auto simp: linked_both_def)
  show ?thesis
  proof (rule same_maps)
    show "fmdom (valid_blocks (node_hub (net i))) = fmdom (valid_blocks (node_hub (net j)))"
      using sub [OF ij] sub [OF ji] by (auto simp: fmlookup_dom_iff)
  qed (use apart(1) blocks_inv_id [OF hub_inv_blocks [OF inv]] in \<open>auto simp: blocks_apart_def\<close>)
qed

lemma connected_same_chain:
  assumes run: "(calm_step env parse)\<^sup>*\<^sup>* net0 net" and start: "linked_start env cfg net0"
    and env: "env_ok env" "signatures_verify env" "reliable env" "codec_faithful env parse" and rest: "at_rest net"
    and apart: "blocks_apart env net" "none_refused net" and ij: "(linked_both net)\<^sup>*\<^sup>* i j"
  shows "valid_blocks (node_hub (net i)) = valid_blocks (node_hub (net j))"
    "\<exists>l l'. fmlookup (valid_blocks (node_hub (net i))) (leading_block (node_hub (net i))) = Some l \<and>
      fmlookup (valid_blocks (node_hub (net j))) (leading_block (node_hub (net j))) = Some l' \<and> height l = height l'"
proof -
  show same: "valid_blocks (node_hub (net i)) = valid_blocks (node_hub (net j))"
    using ij by (induction rule: rtranclp_induct) (auto dest: linked_same_blocks [OF run start env rest apart])
  obtain w where "\<forall>k. hub_good env (node_hub (net k))" using calm_run_simulated [OF run start env] by blast
  then have lead: "leads (valid_blocks (node_hub (net k))) (leading_block (node_hub (net k)))" for k
    using hub_inv_leader by (auto simp: hub_good_def)
  obtain l l' where l: "fmlookup (valid_blocks (node_hub (net i))) (leading_block (node_hub (net i))) = Some l"
    "fmlookup (valid_blocks (node_hub (net j))) (leading_block (node_hub (net j))) = Some l'"
    "\<And>y b. fmlookup (valid_blocks (node_hub (net i))) y = Some b \<Longrightarrow> height b \<le> height l"
    "\<And>y b. fmlookup (valid_blocks (node_hub (net j))) y = Some b \<Longrightarrow> height b \<le> height l'"
    using lead [of i] lead [of j] unfolding leads_def by blast
  then have "height l = height l'" using same by (metis order_antisym)
  with l(1,2) show "\<exists>l l'. fmlookup (valid_blocks (node_hub (net i))) (leading_block (node_hub (net i))) = Some l \<and>
      fmlookup (valid_blocks (node_hub (net j))) (leading_block (node_hub (net j))) = Some l' \<and> height l = height l'" by blast
qed

end
