(* ===== verification/Rest_Properties.thy ===== *)
theory Rest_Properties
  imports Resting Quiet_Properties Agreement
begin

text \<open>
  Property of networks whose clients have fallen silent, applied to the two nodes of \<open>Quiet_Properties\<close>.
\<close>

text \<open>C16: A network comes to rest: whatever clients have done before, once they are silent the nodes cannot go on
  for ever, whichever of them handles or reads a message next and at whatever times, whether or not blocks and
  transactions are new to them; and when they cannot go on, nothing is left to handle or to read, unless a message
  would end in an error or does not decode. (At rest they agree: the properties of quiet networks.)\<close>

theorem network_comes_to_rest:
  assumes "(calm_step env parse)\<^sup>*\<^sup>* net0 net" "linked_start env cfg net0"
    and "env_ok env" "signatures_verify env" "reliable env" "codec_faithful env parse" "confined N net"
  shows "\<not> (\<exists>run. run 0 = net \<and> (\<forall>k. work_step env parse (run k) (run (Suc k)))) \<and>
    (\<forall>net'. (work_step env parse)\<^sup>*\<^sup>* net net' \<longrightarrow> \<not> (\<exists>net2. work_step env parse net' net2) \<longrightarrow>
      at_rest net' \<or> blocked env parse net')"
proof -
  have "\<exists>k. \<not> work_step env parse (run k) (run (Suc k))" if "run 0 = net" for run
    by (rule termip_no_run [where f = run, OF calm_rests(1) [OF assms] that])
  then show ?thesis using calm_rests(2) [OF assms] by blast
qed

theorem network_comes_to_rest_witness:
  "mailbox (told_both (NewTransaction sample_txn) 1) = [NewTransaction sample_txn] \<and>
   \<not> (\<exists>run. run 0 = told_both (NewTransaction sample_txn) \<and> (\<forall>k. work_step sample_env sample_parse (run k) (run (Suc k))))"
proof -
  let ?net = "told_both (NewTransaction sample_txn)"
  have "linked_start sample_env sample_config ?net" using told_start [of "NewTransaction sample_txn"] sample_txn_valid by simp
  moreover have "confined {1, 2} ?net"
    by (auto simp: confined_def told_def neighbours_of_def node_of_peers split: if_splits)
  ultimately have "\<not> (\<exists>run. run 0 = ?net \<and> (\<forall>k. work_step sample_env sample_parse (run k) (run (Suc k))))"
    using network_comes_to_rest [OF rtranclp.rtrancl_refl _ sample_env_ok sample_signatures sample_reliable sample_codec] by blast
  then show ?thesis by (simp add: told_def)
qed

text \<open>C17: Connected nodes agree: when a network in which nothing fails is at rest, all nodes that are connected by links
  that go both ways, over however many nodes, have the same valid blocks, and leading blocks of one height, provided
  no node has marked a valid block of another invalid and no two blocks share an identifier.\<close>

theorem connected_nodes_agree:
  assumes "(calm_step env parse)\<^sup>*\<^sup>* net0 net" "linked_start env cfg net0"
    and "env_ok env" "signatures_verify env" "reliable env" "codec_faithful env parse" "at_rest net"
    and "blocks_apart env net" "none_refused net" "(linked_both net)\<^sup>*\<^sup>* i j"
  shows "valid_blocks (node_hub (net i)) = valid_blocks (node_hub (net j)) \<and>
    (\<exists>l l'. fmlookup (valid_blocks (node_hub (net i))) (leading_block (node_hub (net i))) = Some l \<and>
      fmlookup (valid_blocks (node_hub (net j))) (leading_block (node_hub (net j))) = Some l' \<and> height l = height l')"
  using connected_same_chain [OF assms] by blast

theorem connected_nodes_agree_witness:
  "\<exists>net. (calm_step sample_env sample_parse)\<^sup>*\<^sup>* (told_both (NewBlock None sample_block1)) net \<and> at_rest net \<and>
     leading_block (node_hub (net 1)) = block_id sample_env sample_block1 \<and>
     valid_blocks (node_hub (net 1)) = valid_blocks (node_hub (net 2))"
proof -
  let ?m = "NewBlock None sample_block1 :: (nat, u8 list) PeerHubActorMessage"
  obtain s1 s2 where told: "tells ?m block1_news 1 s1" "tells ?m block1_news 2 s2"
    using told_block [of 1] told_block [of 2] by blast
  obtain net where net: "(calm_step sample_env sample_parse)\<^sup>*\<^sup>* (told_both ?m) net" "at_rest net"
    "node_hub (net 1) = s1" "node_hub (net 2) = s2" "\<forall>k. k \<noteq> 1 \<longrightarrow> k \<noteq> 2 \<longrightarrow> net k = told_both ?m k"
    using told_echo [OF _ told sample_news_travels(1)] by (auto simp: sample_block1_def)
  have start: "linked_start sample_env sample_config (told_both ?m)" by (rule told_start) (simp add: sample_block1_def)
  have hubs: "valid_blocks (node_hub (net k)) = valid_blocks sample_s1 \<or> valid_blocks (node_hub (net k)) = valid_blocks sample_start"
    "invalid_blocks (node_hub (net k)) = {||}" "unconfirmed_blocks (node_hub (net k)) = fmempty" for k
    using told_state [OF told(1)] told_state [OF told(2)] net(3-5)
    by (cases "k = 1"; cases "k = 2"; simp add: told_def node_of_def)+
  have "no_collision sample_env m n" if "m = valid_blocks sample_s1 \<or> m = valid_blocks sample_start"
    "n = valid_blocks sample_s1 \<or> n = valid_blocks sample_start \<or> n = fmempty" for m n
    using that by (auto simp: no_collision_def sample_ids elim!: fmran'E split: if_splits)
  then have "blocks_apart sample_env net" using hubs(1,3) unfolding blocks_apart_def by metis
  moreover have "none_refused net" by (simp add: none_refused_def hubs(2))
  moreover have "linked_both net 1 2" using told net(3,4) by (auto simp: linked_both_def tells_def numeral_eq_Suc intro: fmdomI)
  ultimately have "valid_blocks (node_hub (net 1)) = valid_blocks (node_hub (net 2))"
    using connected_nodes_agree [OF net(1) start sample_env_ok sample_signatures sample_reliable sample_codec net(2)] by blast
  then show ?thesis using net told_state(4) [OF told(1)] by blast
qed

end
