(* ===== verification/Truthful.thy ===== *)
theory Truthful
  imports Settling
begin

text \<open>
  Messages that say of a node that it has something: if a node only says what is so, or what it was told, then
  whatever is said stays true. The interface \<open>truthful\<close> states what one handled message must do.
\<close>

locale truthful =
  fixes acts :: "'s \<Rightarrow> 'm \<Rightarrow> 's \<Rightarrow> ('n \<Rightarrow> 'p list) \<Rightarrow> bool"
    and arrives :: "'n \<Rightarrow> 'p \<Rightarrow> 'm"
    and may :: "'m \<Rightarrow> bool"
    and good :: "'s \<Rightarrow> bool"
    and self :: "'s \<Rightarrow> 'n"
    and has :: "'s \<Rightarrow> 'x \<Rightarrow> bool"
    and claims :: "'n \<Rightarrow> 'm \<Rightarrow> ('n \<times> 'x) set"
  assumes stays: "good s \<Longrightarrow> may m \<Longrightarrow> acts s m s' out \<Longrightarrow> good s' \<and> self s' = self s"
    and has_kept: "good s \<Longrightarrow> may m \<Longrightarrow> acts s m s' out \<Longrightarrow> has s x \<Longrightarrow> has s' x"
    and says: "good s \<Longrightarrow> may m \<Longrightarrow> acts s m s' out \<Longrightarrow> p \<in> set (out k) \<Longrightarrow> (n, x) \<in> claims k (arrives (self s) p) \<Longrightarrow>
      n = self s \<and> has s' x \<or> (n, x) \<in> claims (self s) m"
begin

definition true_at :: "('n, 's, 'm, 'p) wires \<Rightarrow> 'n \<Rightarrow> 'm \<Rightarrow> bool" where
  "true_at w j m \<longleftrightarrow> (\<forall>(n, x) \<in> claims j m. has (at_node w n) x)"

definition all_true :: "('n, 's, 'm, 'p) wires \<Rightarrow> bool" where
  "all_true w \<longleftrightarrow> (\<forall>i. good (at_node w i) \<and> self (at_node w i) = i \<and> list_all (\<lambda>m. may m \<and> true_at w i m) (inbox w i)) \<and>
     (\<forall>i j. \<forall>p \<in> set (wire w i j). true_at w j (arrives i p))"

lemma act_all_true:
  assumes w: "all_true w" and m: "inbox w n = m # ms" "acts (at_node w n) m s' out"
    and w': "w' = w\<lparr>at_node := (at_node w)(n := s'), inbox := (inbox w)(n := ms), wire := (wire w)(n := \<lambda>k. wire w n k @ out k)\<rparr>"
  shows "all_true w'"
proof -
  have ok: "good (at_node w n)" "self (at_node w n) = n" "may m" "true_at w n m" "list_all (\<lambda>m. may m \<and> true_at w n m) ms"
    using w m(1) unfolding all_true_def by (metis list.pred_inject(2))+
  have has: "has (at_node w' i) x" if "has (at_node w i) x" for i x
    using has_kept [OF ok(1,3) m(2)] that w' by (cases "i = n") simp_all
  then have keep: "true_at w' j q" if "true_at w j q" for j q using that by (auto simp: true_at_def)
  have new: "true_at w' k (arrives n p)" if p: "p \<in> set (out k)" for k p
    unfolding true_at_def
  proof (intro ballI, clarify)
    fix i x assume "(i, x) \<in> claims k (arrives n p)"
    then consider "i = n" "has s' x" | "(i, x) \<in> claims n m" using says [OF ok(1,3) m(2) p] ok(2) by auto
    then show "has (at_node w' i) x"
    proof cases
      case 2
      then have "has (at_node w i) x" using ok(4) by (auto simp: true_at_def)
      then show ?thesis by (rule has)
    qed (simp add: w')
  qed
  have "good (at_node w' i) \<and> self (at_node w' i) = i \<and> list_all (\<lambda>m. may m \<and> true_at w' i m) (inbox w' i)" for i
    using w stays [OF ok(1,3) m(2)] ok(2,5) keep by (cases "i = n") (auto simp: all_true_def w' list_all_iff)
  moreover have "true_at w' j (arrives i p)" if "p \<in> set (wire w' i j)" for i j p
    using that w keep new by (cases "i = n") (auto simp: all_true_def w')
  ultimately show ?thesis unfolding all_true_def by blast
qed

lemma flow_all_true:
  assumes "flow_step acts arrives may w w'" "all_true w"
  shows "all_true w'"
  using assms(1)
proof (cases rule: flow_step.cases)
  case (act n m ms s' out)
  from act_all_true [OF assms(2) act(2,3,1)] show ?thesis .
next
  case (arrive i j p ps)
  then have same: "true_at w' = true_at w" by (intro ext) (simp add: true_at_def)
  have "good (at_node w' k) \<and> self (at_node w' k) = k \<and> list_all (\<lambda>m. may m \<and> true_at w' k m) (inbox w' k)" for k
    using assms(2) arrive unfolding same all_true_def by (cases "k = j") auto
  moreover have "true_at w' b (arrives a q)" if "q \<in> set (wire w' a b)" for a b q
    using assms(2) arrive that unfolding same all_true_def by (cases "a = i \<and> b = j") (auto split: if_splits)
  ultimately show ?thesis unfolding all_true_def by blast
qed

text \<open>A client says nothing of a node.\<close>

lemma inject_all_true:
  assumes "all_true w" "may m" "claims i m = {}"
  shows "all_true (w\<lparr>inbox := (inbox w)(i := inbox w i @ [m])\<rparr>)"
proof -
  let ?w = "w\<lparr>inbox := (inbox w)(i := inbox w i @ [m])\<rparr>"
  have same: "true_at ?w = true_at w" by (intro ext) (simp add: true_at_def)
  have "true_at w i m" using assms(3) by (simp add: true_at_def)
  then show ?thesis using assms(1,2) unfolding all_true_def same by auto
qed

end

end
