(* ===== verification/Honest_Network.thy ===== *)
theory Honest_Network
  imports Resting Truthful
begin

text \<open>
  A network of nodes that all run this program, with clients that only use what \<open>hub_helper.rs\<close> and the miner use: what
  one hub says of its blocks to another is true, so no hub is asked for a block it does not have. For
  transactions the same fails, since a hub forgets a transaction when it is mined.
\<close>

section \<open>What a message says of a node\<close>

text \<open>A message in the mailbox of \<open>j\<close>: an announcement says that its sender has the block, a request that \<open>j\<close> has it, an
  answer that its sender has the parent of the block. \<open>g\<close> is the identifier of genesis, which has no parent.\<close>

fun block_claims :: "('sk, 'z) codec_scheme \<Rightarrow> BlockId \<Rightarrow> 'n \<Rightarrow> ('n, 'st) PeerHubActorMessage \<Rightarrow> ('n \<times> BlockId) set" where
  "block_claims c g j (AnnounceBlock k i) = {(k, i)}"
| "block_claims c g j (GetBlock k i) = {(j, i)}"
| "block_claims c g j (NewBlock (Some k) b) = (if block_id c b = g then {} else {(k, prev_id b)})"
| "block_claims c g j _ = {}"

definition hub_of :: "('sk, 'n, 'st) hub_env \<Rightarrow> BlockId \<Rightarrow> ('n, 'st) hub \<Rightarrow> bool" where
  "hub_of env g s \<longleftrightarrow> hub_good env s \<and> genesis_id s = g"

lemma kept_valid:
  assumes "hub_good env s" "message_ok env m" "handle env now s m = Some (Inr r, s')"
  shows "i |\<in>| fmdom (valid_blocks s) \<Longrightarrow> i |\<in>| fmdom (valid_blocks s')" "genesis_id s' = genesis_id s"
proof -
  have keep: "keeps env s s'" using handle_keeps [OF _ _ assms(2,3)] assms(1) by (simp add: hub_good_def)
  then show "genesis_id s' = genesis_id s" by (simp add: keeps_def same_identity_def)
  show "i |\<in>| fmdom (valid_blocks s')" if "i |\<in>| fmdom (valid_blocks s)"
    using that keeps_valid [OF keep] by (auto simp: fmlookup_dom_iff)
qed

lemma block_letters_say:
  assumes good: "hub_good env s" and call: "new_block env now s node b = Some (Inr r, s')"
    and p: "pm \<in> set (block_letters env now s node b k)"
  shows "(\<exists>i. pm = Broadcast (BroadcastBlock i) \<and> i |\<in>| fmdom (valid_blocks s')) \<or>
    (pm = GetBlockRequest (prev_id b) \<and> node = Some k \<and> block_id env b \<noteq> genesis_id s)"
proof -
  have env: "env_ok env" and inv: "hub_inv env s" using good by (simp_all add: hub_good_def)
  from call show ?thesis
  proof (cases rule: new_block_cases)
    case (fresh ids s1)
    note grow = validate_block_grows [OF env_ok_dest [OF env] hub_inv_pools [OF inv] fresh(3,4)]
    have same: "valid_blocks s' = valid_blocks s1"
      using streams_same [OF after_validation_streams [OF fresh(5)]] by (simp add: same_blocks_def)
    show ?thesis
    proof (cases "ids = []")
      case False
      then have "pm \<in> set (to_all s (map (\<lambda>i. Broadcast (BroadcastBlock i)) ids) k)"
        using p fresh(1,2,4) by (simp add: block_letters_def)
      then obtain i where "i \<in> set ids" "pm = Broadcast (BroadcastBlock i)" by (auto simp: to_all_in)
      then show ?thesis using adds_blocks_new [OF grows_adds [OF grow]] same by (auto intro: fmdomI)
    next
      case True
      then have "pm = GetBlockRequest (prev_id b) \<and> node = Some k"
        using p fresh(1,2,4) by (auto simp: block_letters_def to_peer_in silent_in split: if_splits option.splits)
      moreover have "genesis_id s |\<in>| fmdom (valid_blocks s)"
        using blocks_inv_genesis [OF hub_inv_blocks [OF inv]] by (auto intro: fmdomI)
      then have "block_id env b \<noteq> genesis_id s" using fresh(1) by (auto simp: knows_block_def)
      ultimately show ?thesis by simp
    qed
  qed (use p in \<open>simp_all add: block_letters_def silent_in\<close>)
qed

interpretation honest: truthful "hub_acts env" peer_cast "hub_may env" "hub_of env g" local_node_id
    "\<lambda>s i. i |\<in>| fmdom (valid_blocks s)" "block_claims env g" for env g
proof (unfold_locales, goal_cases)
  case (1 s m s' out)
  then show ?case using hub_stays [of env s m s' out] kept_valid(2) by (auto simp: hub_of_def hub_acts_def)
next
  case (2 s m s' out x)
  then show ?case using kept_valid(1) by (auto simp: hub_of_def hub_acts_def)
next
  case (3 s m s' out p k n x)
  then obtain now r where h: "handle env now s m = Some (Inr r, s')" "out = outgoing env now s m" by (auto simp: hub_acts_def)
  have good: "hub_good env s" "genesis_id s = g" "hub_inv env s" using 3(1) by (simp_all add: hub_of_def hub_good_def)
  have p: "p \<in> set (outgoing env now s m k)" using 3(4) h(2) by simp
  show ?case
  proof (cases m)
    case (AnnounceBlock j i)
    then show ?thesis using p 3(5) by (auto simp: to_peer_in silent_in split: if_splits)
  next
    case (GetBlock j i)
    then obtain b where b: "fmlookup (valid_blocks s) i = Some b" "p = GetBlockResponse (local_node_id s) b"
      using p by (auto simp: to_peer_in silent_in split: option.splits)
    have id: "block_id env b = i" using blocks_inv_id [OF hub_inv_blocks [OF good(3)] b(1)] .
    then have x: "i \<noteq> genesis_id s" "n = local_node_id s" "x = prev_id b" using 3(5) b(2) good(2) by (auto split: if_splits)
    obtain q where "fmlookup (valid_blocks s) (prev_id b) = Some q"
      using blocks_inv_parent [OF hub_inv_blocks [OF good(3)] b(1) x(1)] by blast
    then show ?thesis using x kept_valid(1) [OF good(1) _ h(1)] 3(2) by (auto intro: fmdomI)
  next
    case (NewBlock node b)
    then have "new_block env now s node b = Some (Inr r, s')" using h(1) by simp
    from block_letters_say [OF good(1) this] p NewBlock
    consider i where "p = Broadcast (BroadcastBlock i)" "i |\<in>| fmdom (valid_blocks s')"
      | "p = GetBlockRequest (prev_id b)" "node = Some k" "block_id env b \<noteq> g"
      using good(2) by auto
    then show ?thesis using 3(5) NewBlock by cases auto
  qed (use p 3(5) in \<open>auto simp: to_peer_in to_all_in silent_in split: if_splits option.splits\<close>)
qed

section \<open>Over byte streams\<close>

text \<open>Messages that do not name a node: those of clients.\<close>

fun unattributed :: "('n, 'st) PeerHubActorMessage \<Rightarrow> bool" where
  "unattributed (AnnounceTransaction _ _) = False"
| "unattributed (AnnounceBlock _ _) = False"
| "unattributed (GetTransaction _ _) = False"
| "unattributed (GetBlock _ _) = False"
| "unattributed (NewBlock (Some _) _) = False"
| "unattributed _ = True"

lemma unattributed_claims: "unattributed m \<Longrightarrow> block_claims c g j m = {}"
  by (cases "(c, g, j, m)" rule: block_claims.cases) simp_all

inductive honest_step ::
    "('sk, 'n::linorder, u8 list) hub_env \<Rightarrow> (u8 list \<Rightarrow> 'n RawMessage option) \<Rightarrow> 'n net \<Rightarrow> 'n net \<Rightarrow> bool"
  for env parse where
  work: "work_step env parse net net' \<Longrightarrow> honest_step env parse net net'"
| client: "hub_may env m \<Longrightarrow> unattributed m \<Longrightarrow>
    honest_step env parse net (net(i := (net i)\<lparr>mailbox := mailbox (net i) @ [m]\<rparr>))"

abbreviation hubs_true :: "('sk, 'n::linorder, u8 list) hub_env \<Rightarrow> BlockId \<Rightarrow> 'n hub_wires \<Rightarrow> bool" where
  "hubs_true env g \<equiv> truthful.all_true peer_cast (hub_may env) (hub_of env g) local_node_id
     (\<lambda>s i. i |\<in>| fmdom (valid_blocks s)) (block_claims env g)"

lemma honest_run_true:
  assumes run: "(honest_step env parse)\<^sup>*\<^sup>* net0 net" and start: "linked_start env cfg net0"
    and clients: "\<forall>i. list_all unattributed (mailbox (net0 i))"
    and env: "env_ok env" "signatures_verify env" "reliable env" "codec_faithful env parse"
  shows "\<exists>g w. hubs_true env g w \<and> represents env net w"
proof -
  obtain c where "\<forall>i. genesis_id (node_hub (net0 i)) = block_id env c"
    using linked_start_node(7) [OF start env(1,2)] by (metis option.inject)
  then obtain g where g: "\<forall>i. genesis_id (node_hub (net0 i)) = g" by blast
  show ?thesis
    using run
  proof (induction rule: rtranclp_induct)
    case base
    have "hubs_true env g (wires_of net0)"
      using linked_start_node(1-3) [OF start env(1,2)] clients g
      by (auto simp: honest.all_true_def honest.true_at_def hub_of_def wires_of_def list_all_iff unattributed_claims)
    then show ?case using linked_start_represents [OF start] by blast
  next
    case (step net1 net2)
    then obtain g w where w: "hubs_true env g w" "represents env net1 w" by blast
    from step.hyps(2) show ?case
    proof (cases rule: honest_step.cases)
      case work
      have "\<forall>i. hub_inv env (node_hub (net1 i)) \<and> list_all (hub_may env) (mailbox (net1 i))"
        using w by (auto simp: honest.all_true_def represents_def hub_of_def hub_good_def list_all_iff)
      from work_step_simulated [OF env(1,3,4) work w(2) this] honest.flow_all_true [OF _ w(1)] show ?thesis by blast
    next
      case (client m i)
      let ?w = "w\<lparr>inbox := (inbox w)(i := inbox w i @ [m])\<rparr>"
      have "carries env net2 a b pms = carries env net1 a b pms" for a b pms
        using client(1) by (intro carries_same) simp_all
      then have "represents env net2 ?w" using w(2) client(1) by (auto simp: represents_def)
      then show ?thesis using honest.inject_all_true [OF w(1) client(2) unattributed_claims [OF client(3)]] by blast
    qed
  qed
qed

lemma true_request:
  "hubs_true env g w \<Longrightarrow> GetBlock j x \<in> set (inbox w i) \<Longrightarrow>
    local_node_id (at_node w i) = i \<and> x |\<in>| fmdom (valid_blocks (at_node w i))"
  by (fastforce simp: honest.all_true_def honest.true_at_def list_all_iff)

section \<open>Transactions are forgotten\<close>

text \<open>A hub that makes a block valid drops its transactions from the pool.\<close>

lemma mined_dropped:
  assumes good: "hub_good env s" and snd: "sound_block env b" and call: "handle env now s (NewBlock node b) = Some (Inr r, s')"
    and fresh: "block_id env b |\<notin>| fmdom (valid_blocks s)" "block_id env b |\<in>| fmdom (valid_blocks s')"
    and x: "x \<in> set (transactions b)"
  shows "fmlookup (mempool s') (txn_id env x) = None"
proof -
  have new: "new_block env now s node b = Some (Inr r, s')" using call by simp
  then have unknown: "\<not> knows_block s (block_id env b)"
    by (cases rule: new_block_cases) (use fresh in auto)
  obtain c where c: "fmlookup (valid_blocks s') (block_id env b) = Some c" using fresh(2) by (auto simp: fmlookup_dom_iff)
  have inv: "hub_inv env s" and env: "env_ok env" using good by (simp_all add: hub_good_def)
  have "c \<notin> stored s"
  proof
    assume "c \<in> stored s"
    then obtain i where i: "fmlookup (valid_blocks s) i = Some c \<or> fmlookup (unconfirmed_blocks s) i = Some c"
      by (auto simp: stored_def)
    then have "block_id env c = i"
      using blocks_inv_id [OF hub_inv_blocks [OF inv]] hub_inv_pools [OF inv] pools_unconf by (fastforce simp: pool_inv_def)
    moreover have "block_id env c = block_id env b"
    proof -
      have "hub_inv env s'" using new_block_inv [OF env inv snd new] .
      then show ?thesis using blocks_inv_id [OF hub_inv_blocks c] by blast
    qed
    ultimately show False using i unknown by (auto simp: knows_block_def intro: fmdomI)
  qed
  then have "c = b" using handle_stored [OF good call] c by (auto simp: stored_def)
  obtain ids where ids: "adds_blocks (valid_blocks s) ids (valid_blocks s')"
    "\<And>t. fmlookup (mempool s') t = (if mined_in env (valid_blocks s') ids t then None else fmlookup (mempool s) t)"
    using new_block_effect(3) [OF env inv new] by blast
  have "fmlookup (valid_blocks s) (block_id env b) = None" by (rule fmdom_notD [OF fresh(1)])
  then have "block_id env b \<in> set ids" using ids(1) c by (metis adds_blocks_def option.distinct(1))
  then have "mined_in env (valid_blocks s') ids (txn_id env x)"
    using c \<open>c = b\<close> x by (auto simp: mined_in_def)
  then show ?thesis using ids(2) by simp
qed

end
