(* ===== verification/Honest_Properties.thy ===== *)
theory Honest_Properties
  imports Honest_Network Quiet_Properties Miner_Properties
begin

text \<open>
  Properties of networks of honest nodes, applied to the two nodes of \<open>Quiet_Properties\<close> and to the sample hub.
\<close>

text \<open>C18: No hub of honest nodes fails because it is asked for a block: in a network whose nodes all run this
  program, whose streams carry what is written, and whose clients do not speak for nodes, a block that a
  hub is asked for, because it announced it or sent a block above it, is one of its valid blocks, in whatever order the
  messages come. So the handler sends it, if the node that asks is a peer.\<close>

theorem requested_blocks_are_held:
  assumes "(honest_step env parse)\<^sup>*\<^sup>* net0 net" "linked_start env cfg net0" "\<forall>i. list_all unattributed (mailbox (net0 i))"
    and "env_ok env" "signatures_verify env" "reliable env" "codec_faithful env parse"
    and "GetBlock j x \<in> set (mailbox (net i))"
  shows "\<exists>b. fmlookup (valid_blocks (node_hub (net i))) x = Some b \<and>
    handle env now (node_hub (net i)) (GetBlock j x) = no_reply (send_to_peer env (node_hub (net i)) (GetBlockResponse i b) j)"
proof -
  obtain g w where w: "hubs_true env g w" "represents env net w"
    using honest_run_true [OF assms(1-7)] by blast
  then have "GetBlock j x \<in> set (inbox w i)" "at_node w i = node_hub (net i)" using assms(8) by (simp_all add: represents_def)
  with true_request [OF w(1), of j x i] have self: "local_node_id (node_hub (net i)) = i" "x |\<in>| fmdom (valid_blocks (node_hub (net i)))"
    by auto
  then obtain b where "fmlookup (valid_blocks (node_hub (net i))) x = Some b" by (auto simp: fmlookup_dom_iff)
  then show ?thesis using self by (simp add: get_block_def)
qed

text \<open>Node 1 gets a block and announces it; node 2 hears of it, and asks.\<close>

lemma sample_request:
  "\<exists>net. (honest_step sample_env sample_parse)\<^sup>*\<^sup>* (told {1} (NewBlock None sample_block1)) net \<and>
    mailbox (net 1) = [GetBlock 2 (block_id sample_env sample_block1)]"
proof -
  let ?id = "block_id sample_env sample_block1" and ?m = "NewBlock None sample_block1 :: (nat, u8 list) PeerHubActorMessage"
  let ?s = "node_of sample_start" and ?net = "told {1} (NewBlock None sample_block1)"
  obtain s1 where s1: "tells ?m block1_news 1 s1" using told_block [of 1] by blast
  let ?buf = "the (sample_message_bytes block1_news)"
  note news = sample_news_travels(1)
  have len: "length (hash_bytes ?id) < 100" "hash_bytes ?id \<noteq> []"
    by (simp_all add: block_id_def sample_env_def sample_sha256_def sample_block_bytes_def)
  then obtain req where req: "travels sample_env sample_parse (GetBlockRequest ?id :: nat PeerMessage) req"
    by (cases ?id; cases "hash_bytes ?id") (simp_all add: travels_def sample_message_bytes_def sample_parse_def transport_decode_def)
  let ?s2 = "?s 2\<lparr>peers := fmupd 1 ([] @ frame_bytes req) (peers (?s 2))\<rparr>"
  have ask: "handle sample_env 100 (?s 2) (AnnounceBlock 1 ?id) = Some (Inr None, ?s2)"
    using reliable_send [OF sample_reliable req, of "?s 2" 1 "[]"] sample_accepted(2) [of 2]
    by (simp add: announce_block_def unheard_block(3) no_reply_def node_of_peers)
  have read: "read_message (frame_bytes b) = Some (b, [])" if "travels sample_env sample_parse p b" for p b
    using that read_message_frame [of b "[]"] by (simp add: travels_def)
  have framed: "framed sample_env p" if "travels sample_env sample_parse p b" for p b
    using that by (simp add: travels_def framed_def)
  let ?n1 = "?net(1 := (?net 1)\<lparr>node_hub := s1, mailbox := []\<rparr>)"
  let ?n2 = "?n1(2 := (?n1 2)\<lparr>mailbox := mailbox (?n1 2) @ [peer_cast 1 block1_news],
      consumed := (consumed (?n1 2))(1 := length (frame_bytes ?buf) - length ([] :: u8 list))\<rparr>)"
  let ?n3 = "?n2(2 := (?n2 2)\<lparr>node_hub := ?s2, mailbox := []\<rparr>)"
  let ?n4 = "?n3(1 := (?n3 1)\<lparr>mailbox := mailbox (?n3 1) @ [peer_cast 2 (GetBlockRequest ?id)],
      consumed := (consumed (?n3 1))(2 := length (frame_bytes req) - length ([] :: u8 list))\<rparr>)"
  have 1: "work_step sample_env sample_parse ?net ?n1"
    by (rule work_step.deliver [where m = ?m and r = None and now = 100])
      (use s1 framed [OF news] in \<open>auto simp: tells_def told_def list_all_iff simp del: handle.simps outgoing.simps\<close>)
  have 2: "work_step sample_env sample_parse ?n1 ?n2"
    by (rule work_step.receive [where sent = "frame_bytes ?buf" and buf = ?buf])
      (use s1 read [OF news] news in \<open>simp_all add: tells_def told_def travels_def\<close>)
  have 3: "work_step sample_env sample_parse ?n2 ?n3"
    by (rule work_step.deliver [where m = "AnnounceBlock 1 ?id" and r = None and now = 100])
      (use ask framed [OF req] in \<open>simp_all add: told_def to_peer_def silent_def list_all_iff del: handle.simps\<close>)
  have 4: "work_step sample_env sample_parse ?n3 ?n4"
    by (rule work_step.receive [where sent = "frame_bytes req" and buf = req])
      (use read [OF req] req in \<open>simp_all add: told_def travels_def\<close>)
  have "(honest_step sample_env sample_parse)\<^sup>*\<^sup>* ?net ?n4"
    using 1 2 3 4 by (meson honest_step.work rtranclp.rtrancl_refl rtranclp.rtrancl_into_rtrancl)
  then show ?thesis by (intro exI [of _ ?n4]) (simp add: told_def)
qed

theorem requested_blocks_are_held_witness:
  "\<exists>net b. (honest_step sample_env sample_parse)\<^sup>*\<^sup>* (told {1} (NewBlock None sample_block1)) net \<and>
    mailbox (net 1) = [GetBlock 2 (block_id sample_env sample_block1)] \<and>
    fmlookup (valid_blocks (node_hub (net 1))) (block_id sample_env sample_block1) = Some b"
proof -
  let ?m = "NewBlock None sample_block1 :: (nat, u8 list) PeerHubActorMessage"
  obtain net where net: "(honest_step sample_env sample_parse)\<^sup>*\<^sup>* (told {1} ?m) net"
    "mailbox (net 1) = [GetBlock 2 (block_id sample_env sample_block1)]" using sample_request by blast
  have "linked_start sample_env sample_config (told {1} ?m)" by (rule told_start) (simp add: sample_block1_def)
  moreover have "\<forall>i. list_all unattributed (mailbox (told {1} ?m i))" by (simp add: told_def)
  ultimately obtain b where "fmlookup (valid_blocks (node_hub (net 1))) (block_id sample_env sample_block1) = Some b"
    using requested_blocks_are_held [OF net(1) _ _ sample_env_ok sample_signatures sample_reliable sample_codec,
        of sample_config 2 "block_id sample_env sample_block1" 1] net(2) by auto
  with net show ?thesis by blast
qed

text \<open>C38: A hub of an honest network may fail because it is asked for a transaction: between the announcement of a
  transaction and the request for it the hub may make a block with the transaction valid. Then the transaction
  has left the pool, the request of the peer ends in an error, and the actor stops, although no node did anything wrong.\<close>

theorem mined_transaction_request_fails:
  assumes "env_ok env" "hub_inv env s" "\<forall>t. t |\<in>| fmdom (mempool s) \<longrightarrow> t |\<notin>| fmdom (annoucements s)"
    and "sound_block env b" "handle env now s (NewBlock node b) = Some (Inr r, s')"
    and "block_id env b |\<notin>| fmdom (valid_blocks s)" "block_id env b |\<in>| fmdom (valid_blocks s')" "x \<in> set (transactions b)"
  shows "handle env now' s' (GetTransaction j (txn_id env x)) = Some (Inl NoSuchTransaction, s')"
proof -
  have "hub_good env s" using assms(1-3) by (simp add: hub_good_def)
  from mined_dropped [OF this assms(4-8)] show ?thesis by (simp add: get_transaction_def)
qed

theorem mined_transaction_request_fails_witness:
  "\<exists>b s'. fmlookup (mempool sample_pooled) (txn_id sample_env sample_txn) = Some sample_txn \<and>
    handle sample_env 40 sample_pooled (NewBlock None b) = Some (Inr None, s') \<and>
    handle sample_env 41 s' (GetTransaction 2 (txn_id sample_env sample_txn)) = Some (Inl NoSuchTransaction, s')"
proof -
  obtain b where b: "mine_on sample_env 40 3 sample_key sample_pooled = Some (Inr b)" "transactions b = [sample_txn]"
    "sound_block sample_env b" "height b = 2" using sample_mined_sound by blast
  obtain S m' where h: "handle sample_env 40 sample_pooled (NewBlock None b) =
      Some (Inr None, with_block sample_env b S sample_pooled\<lparr>peers := m'\<rparr>)"
    using sample_mined_state [OF b(1,2,4)] by blast
  have new: "block_id sample_env b |\<notin>| fmdom (valid_blocks sample_pooled)"
    by (rule fmdom_notI [OF unheard_block(1) [OF sample_high_unheard [OF b(4)]]])
  have "annoucements sample_pooled = fmempty" by (simp add: sample_pooled_def sample_s1_def sample_start_def with_cash_def Let_def)
  then have "\<forall>t. t |\<in>| fmdom (mempool sample_pooled) \<longrightarrow> t |\<notin>| fmdom (annoucements sample_pooled)" by simp
  moreover have "block_id sample_env b |\<in>| fmdom (valid_blocks (with_block sample_env b S sample_pooled\<lparr>peers := m'\<rparr>))"
    by (simp add: with_block_def)
  ultimately have "handle sample_env 41 (with_block sample_env b S sample_pooled\<lparr>peers := m'\<rparr>) (GetTransaction 2 (txn_id sample_env sample_txn)) =
      Some (Inl NoSuchTransaction, with_block sample_env b S sample_pooled\<lparr>peers := m'\<rparr>)"
    by (intro mined_transaction_request_fails [OF sample_env_ok sample_pooled_inv _ b(3) h new]) (simp_all add: b(2))
  with h show ?thesis by (intro exI [of _ b] exI conjI) (simp_all del: handle.simps)
qed

end
