(* ===== verification/Spec2Isabelle.thy ===== *)
theory Spec2Isabelle
  imports Ledger_Properties Hub_Properties Handler_Properties Node_Properties
    Miner_Properties Stall_Properties Transfer_Properties Log_Properties Start_Properties Quiet_Properties
    Poll_Properties Rest_Properties Honest_Properties
begin

text \<open>
  \<^bold>\<open>ddcoin: a proof-of-work coin on a peer-to-peer network.\<close>

  A node runs one actor, the hub (\<open>src/src/peerhub.rs\<close>), which owns all state: the valid blocks, the
  blocks that wait for a parent, the invalid ones, the pool of transactions, a cached set of unspent
  cash and one stream per peer. Connections (\<open>src/src/peer.rs\<close>) decode frames into messages for the
  hub; clients (\<open>src/src/hub_helper.rs\<close>) and the miner (\<open>src/src/bin/miner.rs\<close>) query it and send
  it new transactions and blocks. The hub handles one message at a time.

  \<^bold>\<open>Conventions.\<close> The development models the dev profile that \<open>justfile\<close> builds, where integer
  overflow panics: machine integers are words of their width, arithmetic that may panic is
  \<open>checked_add\<close> and its like, and \<open>None\<close> is a panic, undefined behaviour or a computation that does
  not end. A \<open>Result\<close> is a sum (\<open>Inl\<close> the error). State is a record passed along. A \<open>HashMap\<close> is a
  finite map and a \<open>HashSet\<close> a finite set, and the order in which they are iterated is a parameter
  that only has to list the elements once (\<open>orders_ok\<close>). SHA-256, Ed25519, the binary encoding, the
  streams, the clock and fresh identifiers are parameters (records \<open>crypto\<close>, \<open>codec\<close>, \<open>hub_env\<close>, and
  arguments); what is assumed of them is named where it is used: signatures verify
  (\<open>signatures_verify\<close>), the nonce is encoded last (\<open>nonce_is_last\<close>), no block hashes to 32 zero
  bytes (\<open>no_zero_id\<close>).

  \<^bold>\<open>Theories and the code they model.\<close>
  \<^item> Prelude: checked and saturating arithmetic, byte orders, facts on sums, options and finite maps.
  \<^item> Util (\<open>util.rs\<close>): hexadecimal text, hashes, the difficulty target. Config (\<open>config.rs\<close>,
    \<open>util.rs\<close>): the configuration and \<open>adjust_with_actual_span\<close>, proved equal to a function on numbers.
  \<^item> Serde: the contract of a type with a validator (locale \<open>checked_type\<close>), interpreted for
    transactions and blocks.
  \<^item> Transaction (\<open>transaction.rs\<close>): construction, validation and fees. Block (\<open>block.rs\<close>): building,
    nonce search, signing, validation, subsidy, genesis.
  \<^item> Chain_Store: blocks reached by parent pointers (locale \<open>chain_store\<close>), interpreted in Hub_State
    on the valid blocks of the hub. Hub_State, Chain_Walks: the state of the actor and every function
    that reads the block maps; the loops without a bound in the code are partial functions, proved to
    end on the states the hub reaches.
  \<^item> Cash_Set: \<open>cash_set_at\<close>; undoing is the inverse of replaying (locale \<open>journal\<close>, interpreted for
    transactions and for blocks); what the function computes in the states the hub reaches.
  \<^item> Validation: \<open>add_invalid_block\<close>, \<open>validate_block\<close>, \<open>add_valid_block\<close>, whose mutual recursion over
    the waiting blocks is one function with a termination proof. Pool_Invariant, Validation_Steps,
    Block_Admission: the invariant of the block pools, validation as a work-list machine (\<open>vstep\<close>)
    that keeps it, and what a call changes as a whole.
  \<^item> Actor, Peer_Hub, Hub_Invariant, Handler_Results: the interface of the actor framework (locale
    \<open>actor\<close>, interpreted on the hub), sending and broadcasting, one definition per arm of the
    handler, the invariant of every reachable state, and the results of the arms. Lone_Block: the
    usual case of a block that no other waits for.
  \<^item> Ledger_Spec, Ledger_Refinement: what a node promises, a ledger of blocks with a tip and a pool
    (\<open>ledger_step\<close>), and the hub as a refinement of it (locale \<open>refining_actor\<close>).
  \<^item> Money: what the unspent cash of a branch is worth.
  \<^item> Peer_Wire (\<open>peer.rs\<close>, \<open>serdes.rs\<close>): frames (locale \<open>frame_codec\<close>), decoding with validation, and
    the loop of a connection. Hub_Helper, Hub_Client (\<open>hub_helper.rs\<close>): the transfer and the queries;
    the types of replies and the errors of the handler. Miner, Miner_Loop, Miner_Main (\<open>bin/miner.rs\<close>): one round
    of the miner on the answers of the hub, its loop as calls with the messages of others between, the program
    from \<open>main\<close> on and its test, and the cash a client is told of between two blocks. Stalled_Miner: the loop on a
    pool with a transaction that spends cash again.
  \<^item> Peer_Watcher (\<open>new_peer_watcher.rs\<close>): the subscriber and the listener as runs over events. Hub_Handle
    (\<open>config.rs\<close>): the report on these tasks and the future \<open>HubHandle\<close>, over a poll function of the
    runtime that is specified by \<open>join_handle_ok\<close>.
  \<^item> Network, Spread: several hubs, their mailboxes and the streams between them as one transition
    system (\<open>net_step\<close>), and the runs in which a transaction and a block reach a peer.
  \<^item> Outgoing, Gossip, Convergence, Quiet_Network, Agreement: what a handled message makes a hub write; news that
    spread over wires between nodes that announce, ask and serve (locale \<open>gossip\<close>, interpreted on the hub for blocks
    and for transactions); the runs over byte streams in which nothing fails (\<open>calm_step\<close>) as such runs; and what
    connected nodes have in common at rest. Settling, Resting: networks that run out of messages (locale \<open>settling\<close>,
    interpreted on the hub). Truthful, Honest_Network: messages that say of a node what it has (locale \<open>truthful\<close>,
    interpreted on the hub), and a request that comes too late.
  \<^item> Startup, Full_Mesh (\<open>config.rs\<close>, \<open>bin/propagator.rs\<close>, \<open>test_util.rs\<close>): starting a node over a runtime that is a
    parameter (record \<open>runtime\<close>), and starting several and waiting until they are connected.
  \<^item> Display: every text the program prints of its data and messages, with parsing lemmas.
  \<^item> Test_Util, Chain_Service (\<open>test_util.rs\<close>, \<open>lib.rs\<close>): the builders of the tests, the tests of forged
    values, and the chains and forks of empty blocks served to a hub. Test_Runs, Polling (\<open>lib.rs\<close>): the tests over
    two nodes, whose loops ask until there is an answer, and what such a loop gets from a network that comes to rest.
  \<^item> Sample_Node, Sample_Network: a concrete environment, states, chains and networks on which every
    property with a hypothesis is applied. Hub_Properties, Handler_Properties, Ledger_Properties,
    Node_Properties, Miner_Properties, Stall_Properties, Transfer_Properties, Log_Properties, Start_Properties,
    Quiet_Properties, Poll_Properties, Rest_Properties, Honest_Properties and this theory: the properties. A theorem of these theories without a number is
    a further fact of the same kind.

  \<^bold>\<open>What the properties show.\<close> Every state the hub reaches satisfies its invariant, whatever
  well-typed messages it handles and whatever bytes its peers send, and the hub refines the ledger;
  the array that \<open>confirmed_chain\<close> fills without initialising is always complete; a block becomes
  valid exactly if it passes the checks, and everything that waited for it is settled with it;
  rewards follow the schedule along the whole chain, and so does the amount of money where no cash
  is spent twice; the miner and the hub agree on difficulty and reward, also when the hub serves
  others between the calls of a round, and the miner's loop only ends with an error once the hub has stopped; queries answer
  what they name, with the type they promise. Between nodes: a shared block has a shared history, a new
  transaction reaches a peer, a mined block is followed by a peer with the same chain, the first of
  the longest chains sent leads. Whatever the order in which messages travel, a network whose clients are silent
  runs out of messages, or has a node that cannot go on; once a network in which nothing failed is at rest, connected
  nodes have the same valid blocks and leading blocks of one height (unless one marked a block invalid), what is
  pooled at a node is pooled or mined at its peers, and a client that polls a node for a transaction its peer has
  pooled gets it. No hub of honest nodes is asked for a block it does not have. The subscriber dials each node once,
  and a full node keeps its peers.

  Some properties pin down behaviour that is likely not meant: two transactions of one block may
  spend the same cash, cash of one fork is spendable on another, a block answer under a forged name
  stops the hub, one malformed handshake stops the listener, two nodes may keep different
  connections when nearly full, a second poll of the handle panics, the miner takes the lowest fees, one pooled
  transaction whose cash is spent keeps a miner from ever extending the chain, two transfers in a row spend the same cash,
  a request for a transaction that has just been mined stops the hub of an honest node,
  and the hub asks for a missing parent only one step at a time.

  \<^bold>\<open>Bounds.\<close> \<open>confirmed_chain\<close> and the depth queries need a leading height below \<open>2 ^ 64 - 1\<close>, where the
  code overflows. The chains of the property on forks have at most 20 blocks: the adjustment of the
  difficulty reads the leading chain, so that of a fork is only right where both share the block it
  reads, which up to height 19 is genesis. No definition uses fuel. That networks come to rest is proved with a measure: the blocks each node has not made
  valid first, then what is under way, weighted by what it may cause, with the blocks and transactions not heard of. The runs of the network that the
  property on the spreading of a mined block gives are runs the transition system has: other messages may come
  between their steps. The properties of quiet networks need no fairness: they hold of every run that has come to rest.

  \<^bold>\<open>Not modelled.\<close> What the endpoint, the discovery services and the runtime do inside, which are other
  packages: their answers are parameters; the writing of the log (its lines are modelled). A frame whose length prefix is larger than what memory holds is not distinguished
  from one that is never complete.

  A timeout of a test is modelled as a wait that does not end, since the model has no clock of its own.
\<close>

section \<open>Properties that span components\<close>

text \<open>C5: Miner and hub agree: a block mined on a state of the hub (the leading block, the fees, the
  transactions and the adjustment time all asked of that state) is accepted by that hub, provided
  the clock is not behind the leading block and the transactions it took spend cash that is unspent
  on the leading branch. The difficulty and the reward the miner computes are those the hub expects,
  at every height; if the block is fresh, its identifier is the first that \<open>validate_block\<close> returns.\<close>

theorem mined_block_is_accepted:
  assumes "env_ok env" "hub_inv env s" "mine_on env now uuid sk s = Some (Inr b)"
    and "fmlookup (valid_blocks s) (leading_block s) = Some l" "timestamp l \<le> now"
    and "\<forall>t \<in> set (transactions b).
      set (inputs t) \<subseteq> fset (unspent (branch (valid_blocks s) (leading_block s)))"
  shows "(\<exists>s1. check_block env s b = Some (Accepted, s1)) \<and>
    (fresh_block env s b \<longrightarrow> (\<forall>ids s'. validate_block env s b = Some (ids, s') \<longrightarrow>
       ids \<noteq> [] \<and> hd ids = block_id env b))"
proof -
  obtain s1 where acc: "accepts env s b s1"
    using mined_block_accepted(1) [OF assms(2-6)] by blast
  then have prev: "fmlookup (valid_blocks s) (prev_id b) \<noteq> None" by (auto simp: accepts_def)
  have ex: "\<exists>s1. accepts env s b s1" using acc by blast
  have "ids \<noteq> [] \<and> hd ids = block_id env b"
    if "fresh_block env s b" "validate_block env s b = Some (ids, s')" for ids s'
    using validate_block_verdict [OF env_ok_dest [OF assms(1)] hub_inv_pools [OF assms(2)] that]
    unfolding if_not_P [OF prev] if_P [OF ex] .
  then show ?thesis using ex by (simp add: check_block_Accepted)
qed

theorem mined_block_is_accepted_witness:
  "\<exists>b s1. mine_on sample_env 40 3 sample_key sample_pooled = Some (Inr b) \<and> transactions b = [sample_txn] \<and>
     check_block sample_env sample_pooled b = Some (Accepted, s1)"
proof -
  obtain b where b: "mine_on sample_env 40 3 sample_key sample_pooled = Some (Inr b)" "transactions b = [sample_txn]"
    using sample_mined by blast
  have "set (inputs sample_txn) \<subseteq> fset (unspent (branch (valid_blocks sample_pooled) (leading_block sample_pooled)))"
    using sample_branch1 by (simp add: unspent_def apply_block_def sample_txn_def Let_def inputs_def)
  then have "\<exists>s1. check_block sample_env sample_pooled b = Some (Accepted, s1)"
    using mined_block_is_accepted [OF sample_env_ok sample_pooled_inv b(1), of sample_block1] b(2) by simp
  with b show ?thesis by blast
qed

text \<open>C7: Whatever bytes a peer sends, the hub stays sound: every message its connection casts can be
  handled in any reachable state, at any time, and leaves a reachable state that satisfies the
  invariant.\<close>

theorem peer_bytes_are_harmless:
  assumes "env_ok env" "signatures_verify env"
    and "reachable (hub_start env cfg) (message_ok env) (hub_step env) s"
    and "peer_run env parse alive n k bytes = (casts, why)" "m \<in> set casts"
    and "handle env now s m = Some (r, s')"
  shows "reachable (hub_start env cfg) (message_ok env) (hub_step env) s' \<and> hub_inv env s'"
proof -
  have "message_ok env m" using peer_run_ok [OF assms(4)] assms(5) by (simp add: list_all_iff)
  then have "reachable (hub_start env cfg) (message_ok env) (hub_step env) s'"
    using reachable.handled [OF assms(3)] hub_step.handles [OF assms(6)] by blast
  then show ?thesis using reachable_hub_inv assms(1,2) by blast
qed

theorem peer_bytes_are_harmless_witness:
  "\<exists>s'. handle sample_env 0 sample_start (AnnounceTransaction 5 (Sha256Hash [4, 2])) = Some (Inl NoSuchPeer, s') \<and>
    hub_inv sample_env s'"
proof -
  let ?s = "sample_start\<lparr>annoucements := fmupd (Sha256Hash [4, 2]) 5 fmempty\<rparr>"
  have "handle sample_env 0 sample_start (AnnounceTransaction 5 (Sha256Hash [4, 2])) = Some (Inl NoSuchPeer, ?s)"
    by (simp add: announce_transaction_def knows_transaction_def send_to_peer_def no_reply_def)
  then show ?thesis
    using peer_bytes_are_harmless [OF sample_env_ok sample_signatures sample_start_reachable sample_stream] by auto
qed

text \<open>C31: The messages of a stream arrive whole and in order: if each message encodes to a payload of
  less than 4 GiB that decodes to it, then reading the concatenated frames casts the messages one by
  one and then ends with the stream, and the split into frames is exact.\<close>

theorem frames_arrive_in_order:
  assumes "\<forall>m \<in> set ms. \<exists>buf. enc m = Some buf \<and> length buf < 2 ^ 32 \<and>
      transport_decode c parse buf = Some (Inr m)"
  shows "peer_run c parse (\<lambda>_. True) n k (concat (map (\<lambda>m. frame_bytes (the (enc m))) ms)) =
      (map (peer_cast n) ms, StreamEnded) \<and>
    frames.read_all (concat (map frame_bytes (map (the \<circ> enc) ms))) = (map (the \<circ> enc) ms, [])"
proof
  have "list_all (\<lambda>p. length p < 2 ^ 32) (map (the \<circ> enc) ms)" using assms by (auto simp: list_all_iff)
  moreover have "read_message [] = None" by (simp add: read_message_def read_exact_def)
  ultimately show "frames.read_all (concat (map frame_bytes (map (the \<circ> enc) ms))) = (map (the \<circ> enc) ms, [])"
    using frames.read_all_frames [of "map (the \<circ> enc) ms" "[]"] by simp
qed (rule peer_run_frames [OF assms])

theorem frames_arrive_in_order_witness:
  "peer_run sample_env sample_parse (\<lambda>_. True) 5 0 (frame_bytes [0, 0, 4, 2] @ frame_bytes [3, 9]) =
    ([AnnounceTransaction 5 (Sha256Hash [4, 2]), GetBlock 5 (Sha256Hash [9]) :: (nat, u8 list) PeerHubActorMessage],
     StreamEnded)"
proof -
  let ?ms = "[Broadcast (BroadcastTransaction (Sha256Hash [4, 2])), GetBlockRequest (Sha256Hash [9])]"
  have "peer_run sample_env sample_parse (\<lambda>_. True) 5 0
      (concat (map (\<lambda>m. frame_bytes (the (enc_message sample_env m))) ?ms)) =
    (map (peer_cast 5) ?ms :: (nat, u8 list) PeerHubActorMessage list, StreamEnded)"
    by (rule conjunct1 [OF frames_arrive_in_order])
       (simp add: sample_encodes sample_decodes del: sample_env_sel)
  then show ?thesis by (simp add: sample_encodes del: sample_env_sel)
qed

text \<open>An announcement travels from hub to hub: a broadcast on collecting streams appends to the
  stream of each other peer bytes from which the receiving connection casts exactly that
  announcement, under the identifier it knows the sender by.\<close>

theorem announcement_travels:
  assumes "orders_ok env" "write_all env = (\<lambda>st bs. (st @ bs, True))" "flush_stream env = (\<lambda>st. (st, True))"
    and "enc_message env (Broadcast msg) = Some buf" "length buf < 2 ^ 32"
    and "transport_decode env parse buf = Some (Inr (Broadcast msg))"
    and "fmlookup (peers s) j = Some st" "j \<noteq> node"
  shows "\<exists>s' sent. broadcast env s node msg = (Inr (), s') \<and> fmlookup (peers s') j = Some (st @ sent) \<and>
    peer_run env parse (\<lambda>_. True) n k sent = ([peer_cast n (Broadcast msg)], StreamEnded)"
proof -
  have ok: "writes_ok env" using assms(2,3) by (simp add: writes_ok_def)
  obtain m' where m': "broadcast env s node msg = (Inr (), s\<lparr>peers := m'\<rparr>)"
    "fmlookup m' j = Some (fst (write_frame env st buf))"
    using broadcast_ok [OF assms(1) ok assms(4), of s node] assms(7,8) by auto
  have "peer_run env parse (\<lambda>_. True) n k (frame_bytes buf) = ([peer_cast n (Broadcast msg)], StreamEnded)"
    using peer_run_frames [of "[Broadcast msg]" "\<lambda>_. Some buf" env parse n k] assms(5,6) by simp
  with m' show ?thesis using write_frame_bytes [OF assms(2,3), of st buf] by auto
qed

theorem announcement_travels_witness:
  "\<exists>s' sent. broadcast sample_env (sample_with_peers 8) 8 (BroadcastTransaction (Sha256Hash [4, 2])) = (Inr (), s') \<and>
    fmlookup (peers s') 7 = Some ([] @ sent) \<and>
    peer_run sample_env sample_parse (\<lambda>_. True) 5 0 sent = ([AnnounceTransaction 5 (Sha256Hash [4, 2])], StreamEnded)"
proof -
  have "fmlookup (peers (sample_with_peers 8)) 7 = Some []" by (simp add: sample_with_peers_def)
  then show ?thesis
    using announcement_travels [OF sample_orders_ok _ _ sample_encodes(1) _ sample_decodes(1), of _ 7 "[]" 8 5 0]
    by simp
qed

end
